(* ===== verification/Prelude.thy ===== *)
theory Prelude
  imports Main "HOL-Library.Word"
begin

text \<open>
  Shared vocabulary of the development: the machine integer types of the driver (an x86\_64
  kernel module: \<open>int\<close> and \<open>unsigned int\<close> are 32 bits, \<open>long\<close> is 64 bits, a page is 4096
  bytes), the errno values the driver returns, the kernel version encoding its
  preprocessor conditions compare, and the generic lemmas on lists, words and rounding that the
  component theories use.
\<close>

unbundle bit_operations_syntax

section \<open>Collections of rewrite rules\<close>

named_theorems shannon_defs \<open>unfolding rules of small constants and predicates\<close>
named_theorems kernel_consts \<open>numeric values of kernel constants\<close>

section \<open>Machine types and constants\<close>

type_synonym u8 = "8 word"
type_synonym u16 = "16 word"
type_synonym u32 = "32 word"
type_synonym u64 = "64 word"

text \<open>An address, a page frame number and a handle of a kernel object are natural numbers.\<close>

type_synonym ptr = nat

definition PAGE_SIZE :: nat where "PAGE_SIZE = 4096"

definition EPERM :: int where "EPERM = 1"
definition EIO :: int where "EIO = 5"
definition ENOMEM :: int where "ENOMEM = 12"
definition EFAULT :: int where "EFAULT = 14"
definition ENODEV :: int where "ENODEV = 19"
definition EINVAL :: int where "EINVAL = 22"
definition ENOTTY :: int where "ENOTTY = 25"

lemmas errno_defs [kernel_consts] =
  EPERM_def EIO_def ENOMEM_def EFAULT_def ENODEV_def EINVAL_def ENOTTY_def

text \<open>\<open>KERNEL_VERSION(a, b, c)\<close> of \<^verbatim>\<open><linux/version.h>\<close> (c below 256).\<close>

definition KERNEL_VERSION :: "nat \<Rightarrow> nat \<Rightarrow> nat \<Rightarrow> nat" where
  "KERNEL_VERSION a b c = a * 65536 + b * 256 + c"

section \<open>Lists\<close>

lemma last_in_butlast_distinct: "distinct xs \<Longrightarrow> xs \<noteq> [] \<Longrightarrow> last xs \<notin> set (butlast xs)"
  by (induction xs rule: rev_induct) auto

lemma hd_in_tl_distinct: "distinct xs \<Longrightarrow> xs \<noteq> [] \<Longrightarrow> hd xs \<notin> set (tl xs)"
  by (cases xs) auto

section \<open>Chains of partial steps\<close>

text \<open>A C loop whose body may fail, run over a list: \<open>None\<close> as soon as a step fails.\<close>

fun fold_opt :: "('x \<Rightarrow> 's \<Rightarrow> 's option) \<Rightarrow> 'x list \<Rightarrow> 's \<Rightarrow> 's option" where
  "fold_opt f [] s = Some s"
| "fold_opt f (x # xs) s = (case f x s of None \<Rightarrow> None | Some s' \<Rightarrow> fold_opt f xs s')"

lemma fold_opt_append:
  "fold_opt f (xs @ ys) s = (case fold_opt f xs s of None \<Rightarrow> None | Some s' \<Rightarrow> fold_opt f ys s')"
  by (induction xs arbitrary: s) (auto split: option.split)

lemma fold_opt_inv:
  "(\<And>x s s'. x \<in> set xs \<Longrightarrow> I s \<Longrightarrow> f x s = Some s' \<Longrightarrow> I s') \<Longrightarrow> I s \<Longrightarrow> fold_opt f xs s = Some s' \<Longrightarrow>
   I s'"
proof (induction xs arbitrary: s)
  case (Cons x xs)
  then show ?case by (auto split: option.splits)
qed simp

section \<open>Rounding\<close>

definition ceil_div :: "nat \<Rightarrow> nat \<Rightarrow> nat" where
  "ceil_div n d = (n + d - 1) div d"

lemma ceil_div_le: "0 < d \<Longrightarrow> n \<le> ceil_div n d * d"
proof -
  assume d: "0 < d"
  have "(n + d - 1) div d * d + (n + d - 1) mod d = n + d - 1" by simp
  moreover have "(n + d - 1) mod d < d" using d by simp
  ultimately show ?thesis unfolding ceil_div_def using d by linarith
qed

lemma le_ceil_div: "0 < d \<Longrightarrow> k * d < n + d \<Longrightarrow> k \<le> ceil_div n d"
  unfolding ceil_div_def by (simp add: less_eq_div_iff_mult_less_eq)

lemma ceil_div_mono: "m \<le> n \<Longrightarrow> ceil_div m d \<le> ceil_div n d"
  unfolding ceil_div_def by (intro div_le_mono diff_le_mono add_le_mono) auto

lemma div_le_ceil_div: "0 < d \<Longrightarrow> d \<le> e \<Longrightarrow> n div e \<le> ceil_div n d"
proof -
  assume d: "0 < d" "d \<le> e"
  have "n div e * d \<le> n div e * e" using d by simp
  also have "\<dots> \<le> n" by simp
  finally show ?thesis using d by (intro le_ceil_div) auto
qed

section \<open>Integers that fit\<close>

text \<open>A quantity below \<open>2\<^sup>3\<^sup>1\<close> is the same number as a C \<open>int\<close>, one below \<open>2\<^sup>6\<^sup>4\<close> the same as an \<open>u64\<close>.\<close>

lemma sint_of_nat_small: "n < 2 ^ 31 \<Longrightarrow> sint (of_nat n :: u32) = int n"
proof -
  assume "n < 2 ^ 31"
  then have "take_bit 32 n = n" "- (2 ^ 31) \<le> int n" "int n < 2 ^ 31" by (simp_all add: take_bit_nat_eq_self)
  then show ?thesis by (simp add: sint_uint unsigned_of_nat signed_take_bit_int_eq_self)
qed

lemma unat_of_nat_small: "n < 2 ^ 64 \<Longrightarrow> unat (of_nat n :: u64) = n"
  by (simp add: unsigned_of_nat take_bit_nat_eq_self)

end
