(* ===== verification/List_Head.thy ===== *)
theory List_Head
  imports Prelude
begin

text \<open>
  The intrusive circular doubly linked list of \<^verbatim>\<open>shannon_list.h\<close>, and the
  three list iterators of \<^verbatim>\<open>shannon_file.c\<close>. A \<open>struct shannon_list_head\<close> is an
  address; the two pointer fields of all heads are the two maps of a heap record, so that
  aliasing between lists is visible. Every inline function is translated store by store.
  \<open>dll h head xs\<close> says that the ring through \<open>head\<close> holds exactly the entries \<open>xs\<close>; the
  operations are shown to act on \<open>xs\<close> as the corresponding list functions and to leave
  disjoint rings alone.
\<close>

section \<open>The heap of list heads and the operations\<close>

record list_heap =
  nxt :: "ptr \<Rightarrow> ptr"
  prv :: "ptr \<Rightarrow> ptr"

definition SHANNON_INIT_LIST_HEAD :: "list_heap \<Rightarrow> ptr \<Rightarrow> list_heap" where
  "SHANNON_INIT_LIST_HEAD h l =
     (let h1 = h\<lparr>nxt := (nxt h)(l := l)\<rparr>
      in h1\<lparr>prv := (prv h1)(l := l)\<rparr>)"

text \<open>\<open>__shannon_list_add\<close>: four stores, in this order.\<close>

definition raw_list_add :: "list_heap \<Rightarrow> ptr \<Rightarrow> ptr \<Rightarrow> ptr \<Rightarrow> list_heap" where
  "raw_list_add h new prev next =
     (let h1 = h\<lparr>prv := (prv h)(next := new)\<rparr>;
          h2 = h1\<lparr>nxt := (nxt h1)(new := next)\<rparr>;
          h3 = h2\<lparr>prv := (prv h2)(new := prev)\<rparr>
      in h3\<lparr>nxt := (nxt h3)(prev := new)\<rparr>)"

definition shannon_list_add :: "list_heap \<Rightarrow> ptr \<Rightarrow> ptr \<Rightarrow> list_heap" where
  "shannon_list_add h new head = raw_list_add h new head (nxt h head)"

definition shannon_list_add_tail :: "list_heap \<Rightarrow> ptr \<Rightarrow> ptr \<Rightarrow> list_heap" where
  "shannon_list_add_tail h new head = raw_list_add h new (prv h head) head"

definition raw_list_del :: "list_heap \<Rightarrow> ptr \<Rightarrow> ptr \<Rightarrow> list_heap" where
  "raw_list_del h prev next =
     (let h1 = h\<lparr>prv := (prv h)(next := prev)\<rparr>
      in h1\<lparr>nxt := (nxt h1)(prev := next)\<rparr>)"

definition raw_list_del_entry :: "list_heap \<Rightarrow> ptr \<Rightarrow> list_heap" where
  "raw_list_del_entry h entry = raw_list_del h (prv h entry) (nxt h entry)"

definition shannon_list_del :: "list_heap \<Rightarrow> ptr \<Rightarrow> list_heap" where
  "shannon_list_del h entry =
     SHANNON_INIT_LIST_HEAD (raw_list_del h (prv h entry) (nxt h entry)) entry"

definition shannon_list_del_init :: "list_heap \<Rightarrow> ptr \<Rightarrow> list_heap" where
  "shannon_list_del_init h entry =
     SHANNON_INIT_LIST_HEAD (raw_list_del_entry h entry) entry"

definition shannon_list_empty :: "list_heap \<Rightarrow> ptr \<Rightarrow> bool" where
  "shannon_list_empty h head \<longleftrightarrow> nxt h head = head"

definition shannon_list_empty_careful :: "list_heap \<Rightarrow> ptr \<Rightarrow> bool" where
  "shannon_list_empty_careful h head \<longleftrightarrow>
     (let next = nxt h head in next = head \<and> next = prv h head)"

definition shannon_list_first_entry :: "list_heap \<Rightarrow> ptr \<Rightarrow> ptr" where
  "shannon_list_first_entry h head = nxt h head"

text \<open>
  The loop of \<open>shannon_list_for_each(pos, head)\<close>: the positions it visits, in order.
  On a corrupt ring the C loop may not end; the fuel is then exhausted and the result is
  \<open>None\<close>. \<open>for_each_enough\<close> below gives the fuel that is enough on every ring.
\<close>

fun for_each_from :: "nat \<Rightarrow> list_heap \<Rightarrow> ptr \<Rightarrow> ptr \<Rightarrow> ptr list option" where
  "for_each_from 0 h pos head = None"
| "for_each_from (Suc n) h pos head =
     (if pos = head then Some []
      else map_option (Cons pos) (for_each_from n h (nxt h pos) head))"

definition shannon_list_for_each :: "nat \<Rightarrow> list_heap \<Rightarrow> ptr \<Rightarrow> ptr list option" where
  "shannon_list_for_each n h head = for_each_from n h (nxt h head) head"

fun for_each_reverse_from :: "nat \<Rightarrow> list_heap \<Rightarrow> ptr \<Rightarrow> ptr \<Rightarrow> ptr list option" where
  "for_each_reverse_from 0 h pos head = None"
| "for_each_reverse_from (Suc n) h pos head =
     (if pos = head then Some []
      else map_option (Cons pos) (for_each_reverse_from n h (prv h pos) head))"

definition shannon_list_for_each_entry_reverse ::
    "nat \<Rightarrow> list_heap \<Rightarrow> ptr \<Rightarrow> ptr list option" where
  "shannon_list_for_each_entry_reverse n h head = for_each_reverse_from n h (prv h head) head"

text \<open>
  The two \<open>_safe\<close> loops hold the next position in \<open>n\<close> before the body runs, so the body
  may unlink the current entry; the body is a heap transformer.
\<close>

fun for_each_safe_from ::
    "nat \<Rightarrow> (list_heap \<Rightarrow> ptr \<Rightarrow> list_heap) \<Rightarrow> list_heap \<Rightarrow> ptr \<Rightarrow> ptr \<Rightarrow> ptr \<Rightarrow>
     (list_heap \<times> ptr list) option" where
  "for_each_safe_from 0 body h pos n head = None"
| "for_each_safe_from (Suc k) body h pos n head =
     (if pos = head then Some (h, [])
      else let h' = body h pos
           in map_option (\<lambda>(h'', vs). (h'', pos # vs))
                (for_each_safe_from k body h' n (nxt h' n) head))"

definition shannon_list_for_each_entry_safe ::
    "nat \<Rightarrow> (list_heap \<Rightarrow> ptr \<Rightarrow> list_heap) \<Rightarrow> list_heap \<Rightarrow> ptr \<Rightarrow>
     (list_heap \<times> ptr list) option" where
  "shannon_list_for_each_entry_safe k body h head =
     (let pos = nxt h head in for_each_safe_from k body h pos (nxt h pos) head)"

subsection \<open>Sequence-file iterators (shannon\_file.c)\<close>

text \<open>
  \<open>shannon_seq_list_start\<close> walks the ring and returns the entry at which the counter is 0;
  \<open>pos-- == 0\<close> tests before it decrements. The outer option is the loop's fuel, the inner
  one the C pointer (\<open>None\<close> is NULL).
\<close>

fun seq_list_start_from ::
    "nat \<Rightarrow> list_heap \<Rightarrow> ptr \<Rightarrow> ptr \<Rightarrow> int \<Rightarrow> ptr option option" where
  "seq_list_start_from 0 h lh head pos = None"
| "seq_list_start_from (Suc n) h lh head pos =
     (if lh = head then Some None
      else if pos = 0 then Some (Some lh)
      else seq_list_start_from n h (nxt h lh) head (pos - 1))"

definition shannon_seq_list_start ::
    "nat \<Rightarrow> list_heap \<Rightarrow> ptr \<Rightarrow> int \<Rightarrow> ptr option option" where
  "shannon_seq_list_start n h head pos = seq_list_start_from n h (nxt h head) head pos"

definition shannon_seq_list_start_head ::
    "nat \<Rightarrow> list_heap \<Rightarrow> ptr \<Rightarrow> int \<Rightarrow> ptr option option" where
  "shannon_seq_list_start_head n h head pos =
     (if pos = 0 then Some (Some head) else shannon_seq_list_start n h head (pos - 1))"

definition shannon_seq_list_next ::
    "list_heap \<Rightarrow> ptr \<Rightarrow> ptr \<Rightarrow> int \<Rightarrow> ptr option \<times> int" where
  "shannon_seq_list_next h v head ppos =
     (let lh = nxt h v in (if lh = head then None else Some lh, ppos + 1))"

section \<open>The abstraction: a ring and its entries\<close>

fun linked :: "list_heap \<Rightarrow> ptr list \<Rightarrow> bool" where
  "linked h (a # b # r) \<longleftrightarrow> nxt h a = b \<and> prv h b = a \<and> linked h (b # r)"
| "linked h _ \<longleftrightarrow> True"

definition dll :: "list_heap \<Rightarrow> ptr \<Rightarrow> ptr list \<Rightarrow> bool" where
  "dll h head xs \<longleftrightarrow> distinct (head # xs) \<and> linked h (head # xs @ [head])"

lemma linked_append:
  "xs \<noteq> [] \<Longrightarrow> ys \<noteq> [] \<Longrightarrow>
   linked h (xs @ ys) \<longleftrightarrow>
     linked h xs \<and> linked h ys \<and> nxt h (last xs) = hd ys \<and> prv h (hd ys) = last xs"
proof (induction xs)
  case Nil
  then show ?case by simp
next
  case (Cons a xs)
  show ?case
  proof (cases xs)
    case Nil
    with Cons.prems show ?thesis by (cases ys) auto
  next
    case (Cons b zs)
    with Cons.IH Cons.prems show ?thesis by auto
  qed
qed

lemma linked_cong:
  "(\<And>x. x \<in> set (butlast xs) \<Longrightarrow> nxt h x = nxt h' x) \<Longrightarrow>
   (\<And>x. x \<in> set (tl xs) \<Longrightarrow> prv h x = prv h' x) \<Longrightarrow>
   linked h xs = linked h' xs"
proof (induction xs rule: induct_list012)
  case (3 a b r)
  have "linked h (b # r) = linked h' (b # r)"
    by (rule "3.IH"(2)) (use "3.prems" in \<open>auto split: if_splits dest: in_set_butlastD\<close>)
  with "3.prems"(1)[of a] "3.prems"(2)[of b] show ?case by auto
qed auto

lemma dll_frame:
  assumes "dll h head xs"
    and "\<And>x. x \<in> set (head # xs) \<Longrightarrow> nxt h' x = nxt h x \<and> prv h' x = prv h x"
  shows "dll h' head xs"
proof -
  have "linked h' (head # xs @ [head]) = linked h (head # xs @ [head])"
    by (rule linked_cong) (use assms(2) in \<open>auto simp: butlast_append\<close>)
  with assms(1) show ?thesis by (simp add: dll_def)
qed

lemma dll_Nil: "dll h head [] \<longleftrightarrow> nxt h head = head \<and> prv h head = head"
  by (auto simp: dll_def)

lemma dll_init: "dll (SHANNON_INIT_LIST_HEAD h l) l []"
  by (simp add: dll_Nil SHANNON_INIT_LIST_HEAD_def)

lemma init_frame:
  "x \<noteq> l \<Longrightarrow> nxt (SHANNON_INIT_LIST_HEAD h l) x = nxt h x \<and>
             prv (SHANNON_INIT_LIST_HEAD h l) x = prv h x"
  by (simp add: SHANNON_INIT_LIST_HEAD_def)

text \<open>The ring cut at any point: the neighbours there are \<open>last (head # ys)\<close> and
  \<open>hd (zs @ [head])\<close>.\<close>

lemma dll_split:
  "dll h head (ys @ zs) \<longleftrightarrow>
     distinct (head # ys @ zs) \<and> linked h (head # ys) \<and> linked h (zs @ [head]) \<and>
     nxt h (last (head # ys)) = hd (zs @ [head]) \<and> prv h (hd (zs @ [head])) = last (head # ys)"
  using linked_append [of "head # ys" "zs @ [head]" h] by (auto simp: dll_def)

lemma raw_list_add_dll:
  assumes d: "dll h head (ys @ zs)" and new: "new \<notin> set (head # ys @ zs)"
  shows "dll (raw_list_add h new (last (head # ys)) (hd (zs @ [head]))) head (ys @ new # zs)"
proof -
  let ?p = "last (head # ys)" and ?n = "hd (zs @ [head])"
  let ?h = "raw_list_add h new ?p ?n"
  have dist: "distinct (head # ys @ zs)" and A: "linked h (head # ys)"
    and B: "linked h (zs @ [head])"
    using d by (auto simp: dll_split)
  have n_in: "?n \<in> set (zs @ [head])" by (cases zs) auto
  have p_in: "?p \<in> set (head # ys)" by (rule last_in_set) simp
  have "linked ?h (head # ys) = linked h (head # ys)"
  proof (rule linked_cong)
    fix x assume x: "x \<in> set (butlast (head # ys))"
    have "x \<noteq> ?p" using last_in_butlast_distinct[of "head # ys"] dist x by auto
    moreover have "x \<noteq> new" using x new in_set_butlastD[of x "head # ys"] by auto
    ultimately show "nxt ?h x = nxt h x" by (simp add: raw_list_add_def)
  next
    fix x assume x: "x \<in> set (tl (head # ys))"
    have "x \<noteq> ?n" using x n_in dist by auto
    moreover have "x \<noteq> new" using x new by auto
    ultimately show "prv ?h x = prv h x" by (simp add: raw_list_add_def)
  qed
  moreover have "linked ?h (zs @ [head]) = linked h (zs @ [head])"
  proof (rule linked_cong)
    fix x assume "x \<in> set (butlast (zs @ [head]))"
    then have x: "x \<in> set zs" by simp
    have "x \<noteq> ?p" using x p_in dist by auto
    moreover have "x \<noteq> new" using x new by auto
    ultimately show "nxt ?h x = nxt h x" by (simp add: raw_list_add_def)
  next
    fix x assume x: "x \<in> set (tl (zs @ [head]))"
    have "distinct (zs @ [head])" using dist by auto
    then have "x \<noteq> ?n" using hd_in_tl_distinct[of "zs @ [head]"] x by auto
    moreover have "x \<noteq> new" using x new by (cases zs) auto
    ultimately show "prv ?h x = prv h x" by (simp add: raw_list_add_def)
  qed
  moreover have "linked ?h (new # zs @ [head]) \<longleftrightarrow>
      linked ?h (zs @ [head]) \<and> nxt ?h new = ?n \<and> prv ?h ?n = new"
    using linked_append [of "[new]" "zs @ [head]" ?h] by auto
  moreover have "?p \<noteq> new" "?n \<noteq> new" using p_in n_in new by auto
  moreover have "distinct (head # ys @ new # zs)" using dist new by auto
  ultimately show ?thesis
    using A B unfolding dll_split [of ?h head ys "new # zs"]
    by (simp add: raw_list_add_def del: linked.simps last.simps)
qed

lemma raw_list_del_dll:
  assumes d: "dll h head (ys @ e # zs)"
  shows "dll (raw_list_del h (prv h e) (nxt h e)) head (ys @ zs)"
proof -
  let ?p = "last (head # ys)" and ?n = "hd (zs @ [head])"
  have dist: "distinct (head # ys @ e # zs)" and A: "linked h (head # ys)"
    and E: "linked h (e # zs @ [head])" and pe: "prv h e = ?p"
    using d dll_split [of h head ys "e # zs"] by auto
  have B: "linked h (zs @ [head])" and ne: "nxt h e = ?n"
    using linked_append [of "[e]" "zs @ [head]" h] E by auto
  let ?h = "raw_list_del h ?p ?n"
  have n_in: "?n \<in> set (zs @ [head])" by (cases zs) auto
  have p_in: "?p \<in> set (head # ys)" by (rule last_in_set) simp
  have "linked ?h (head # ys) = linked h (head # ys)"
  proof (rule linked_cong)
    fix x assume x: "x \<in> set (butlast (head # ys))"
    have "x \<noteq> ?p" using last_in_butlast_distinct[of "head # ys"] dist x by auto
    then show "nxt ?h x = nxt h x" by (simp add: raw_list_del_def)
  next
    fix x assume x: "x \<in> set (tl (head # ys))"
    have "x \<noteq> ?n" using x n_in dist by auto
    then show "prv ?h x = prv h x" by (simp add: raw_list_del_def)
  qed
  moreover have "linked ?h (zs @ [head]) = linked h (zs @ [head])"
  proof (rule linked_cong)
    fix x assume "x \<in> set (butlast (zs @ [head]))"
    then have "x \<noteq> ?p" using p_in dist by auto
    then show "nxt ?h x = nxt h x" by (simp add: raw_list_del_def)
  next
    fix x assume x: "x \<in> set (tl (zs @ [head]))"
    have "distinct (zs @ [head])" using dist by auto
    then have "x \<noteq> ?n" using hd_in_tl_distinct[of "zs @ [head]"] x by auto
    then show "prv ?h x = prv h x" by (simp add: raw_list_del_def)
  qed
  moreover have "distinct (head # ys @ zs)" using dist by auto
  ultimately show ?thesis
    using A B unfolding dll_split [of ?h head ys zs] pe ne
    by (simp add: raw_list_del_def del: linked.simps last.simps)
qed


subsection \<open>The operations on rings\<close>

lemma dll_ends:
  assumes "dll h head xs"
  shows "nxt h head = hd (xs @ [head])" and "prv h head = last (head # xs)"
proof -
  show "nxt h head = hd (xs @ [head])"
    using assms dll_split [of h head "[]" xs] by simp
  show "prv h head = last (head # xs)"
    using assms dll_split [of h head xs "[]"] by simp
qed

lemma dll_add_tail:
  "dll h head xs \<Longrightarrow> new \<notin> set (head # xs) \<Longrightarrow>
   dll (shannon_list_add_tail h new head) head (xs @ [new])"
  using raw_list_add_dll [of h head xs "[]" new] dll_ends(2) [of h head xs]
  by (simp add: shannon_list_add_tail_def)

lemma dll_add:
  "dll h head xs \<Longrightarrow> new \<notin> set (head # xs) \<Longrightarrow>
   dll (shannon_list_add h new head) head (new # xs)"
  using raw_list_add_dll [of h head "[]" xs new] dll_ends(1) [of h head xs]
  by (simp add: shannon_list_add_def)

lemma list_del_eq_del_init: "shannon_list_del h e = shannon_list_del_init h e"
  by (simp add: shannon_list_del_def shannon_list_del_init_def raw_list_del_entry_def)

lemma dll_del_init:
  assumes "dll h head (ys @ e # zs)"
  shows "dll (shannon_list_del_init h e) head (ys @ zs)"
    and "dll (shannon_list_del_init h e) e []"
proof -
  have e: "e \<notin> set (head # ys @ zs)" using assms by (auto simp: dll_def)
  have "dll (raw_list_del_entry h e) head (ys @ zs)"
    using raw_list_del_dll [OF assms] by (simp add: raw_list_del_entry_def)
  then show "dll (shannon_list_del_init h e) head (ys @ zs)"
    unfolding shannon_list_del_init_def
    by (rule dll_frame) (use e in \<open>auto simp: SHANNON_INIT_LIST_HEAD_def\<close>)
  show "dll (shannon_list_del_init h e) e []"
    unfolding shannon_list_del_init_def by (rule dll_init)
qed

lemma dll_hd_eq: "dll h head xs \<Longrightarrow> hd (xs @ [head]) = head \<longleftrightarrow> xs = []"
  by (cases xs) (simp_all add: dll_def)

lemma dll_empty: "dll h head xs \<Longrightarrow> shannon_list_empty h head \<longleftrightarrow> xs = []"
  using dll_ends(1) dll_hd_eq by (simp add: shannon_list_empty_def)

lemma dll_empty_careful: "dll h head xs \<Longrightarrow> shannon_list_empty_careful h head \<longleftrightarrow> xs = []"
  using dll_ends dll_hd_eq by (auto simp: shannon_list_empty_careful_def)

lemma dll_first: "dll h head (x # xs) \<Longrightarrow> shannon_list_first_entry h head = x"
  using dll_ends(1) [of h head "x # xs"] by (simp add: shannon_list_first_entry_def)

subsection \<open>Rings that share no entry do not disturb each other\<close>

lemma raw_add_frame:
  "x \<notin> {new, p, n} \<Longrightarrow> nxt (raw_list_add h new p n) x = nxt h x \<and>
                       prv (raw_list_add h new p n) x = prv h x"
  by (simp add: raw_list_add_def)

lemma dll_prv_in: "dll h head xs \<Longrightarrow> prv h head \<in> set (head # xs)"
  using dll_ends(2) [of h head xs] by (metis last_in_set list.discI)

lemma dll_nxt_in: "dll h head xs \<Longrightarrow> nxt h head \<in> set (head # xs)"
  using dll_ends(1) [of h head xs] by (cases xs) auto

lemma dll_add_tail_other:
  assumes "dll h head xs" and "dll h other ys"
    and "set (other # ys) \<inter> set (new # head # xs) = {}"
  shows "dll (shannon_list_add_tail h new head) other ys"
  unfolding shannon_list_add_tail_def
  by (rule dll_frame [OF assms(2)], rule raw_add_frame)
     (use dll_prv_in [OF assms(1)] assms(3) in auto)

lemma dll_add_other:
  assumes "dll h head xs" and "dll h other ys"
    and "set (other # ys) \<inter> set (new # head # xs) = {}"
  shows "dll (shannon_list_add h new head) other ys"
  unfolding shannon_list_add_def
  by (rule dll_frame [OF assms(2)], rule raw_add_frame)
     (use dll_nxt_in [OF assms(1)] assms(3) in auto)

lemma dll_entry_neighbours:
  assumes "dll h head (ys @ e # zs)"
  shows "prv h e \<in> set (head # ys)" and "nxt h e \<in> set (zs @ [head])"
proof -
  have "prv h e = last (head # ys)"
    using assms dll_split [of h head ys "e # zs"] by simp
  then show "prv h e \<in> set (head # ys)" by (metis last_in_set list.discI)
  have "nxt h e = hd (zs @ [head])"
    using assms dll_split [of h head "ys @ [e]" zs] by simp
  then show "nxt h e \<in> set (zs @ [head])" by (cases zs) auto
qed

lemma dll_del_init_other:
  assumes "dll h head (xs @ e # zs)" and "dll h other ys"
    and "set (other # ys) \<inter> set (head # xs @ e # zs) = {}"
  shows "dll (shannon_list_del_init h e) other ys"
  by (rule dll_frame [OF assms(2)])
     (use dll_entry_neighbours [OF assms(1)] assms(3) in
       \<open>auto simp: shannon_list_del_init_def raw_list_del_entry_def raw_list_del_def
          SHANNON_INIT_LIST_HEAD_def\<close>)

text \<open>A head that is in no ring but its own (a fresh entry) stays so.\<close>

lemma dll_fresh_other:
  "dll h head xs \<Longrightarrow> dll h e [] \<Longrightarrow> e \<notin> set (new # head # xs) \<Longrightarrow>
   dll (shannon_list_add_tail h new head) e []"
  by (rule dll_add_tail_other) auto

section \<open>The interface the queues of the driver rely on\<close>

text \<open>
  The clients of \<^verbatim>\<open>shannon_list.h\<close> in this repository (the real-time work queue and the
  wait queues) use a ring as a queue: append at the tail, look at the first entry, unlink an
  entry, test for emptiness. The locale states these promises over an abstract
  representation relation; what follows from them alone is proved here once.
\<close>

locale intrusive_queue =
  fixes repr :: "'h \<Rightarrow> 'p \<Rightarrow> 'p list \<Rightarrow> bool"
    and enq :: "'h \<Rightarrow> 'p \<Rightarrow> 'p \<Rightarrow> 'h"
    and unlink :: "'h \<Rightarrow> 'p \<Rightarrow> 'h"
    and is_empty :: "'h \<Rightarrow> 'p \<Rightarrow> bool"
    and first :: "'h \<Rightarrow> 'p \<Rightarrow> 'p"
  assumes repr_distinct: "repr h q xs \<Longrightarrow> distinct (q # xs)"
    and repr_enq: "repr h q xs \<Longrightarrow> new \<notin> set (q # xs) \<Longrightarrow> repr (enq h new q) q (xs @ [new])"
    and repr_unlink: "repr h q (ys @ e # zs) \<Longrightarrow> repr (unlink h e) q (ys @ zs)"
    and repr_unlinked: "repr h q (ys @ e # zs) \<Longrightarrow> repr (unlink h e) e []"
    and repr_empty: "repr h q xs \<Longrightarrow> is_empty h q \<longleftrightarrow> xs = []"
    and repr_first: "repr h q (x # xs) \<Longrightarrow> first h q = x"
    and repr_enq_other: "repr h q xs \<Longrightarrow> repr h r ys \<Longrightarrow>
      set (r # ys) \<inter> set (new # q # xs) = {} \<Longrightarrow> repr (enq h new q) r ys"
    and repr_unlink_other: "repr h q (xs @ e # zs) \<Longrightarrow> repr h r ys \<Longrightarrow>
      set (r # ys) \<inter> set (q # xs @ e # zs) = {} \<Longrightarrow> repr (unlink h e) r ys"
begin

lemma repr_pop: "repr h q (x # xs) \<Longrightarrow> repr (unlink h (first h q)) q xs"
  using repr_first [of h q x xs] repr_unlink [of h q "[]" x xs] by simp

lemma repr_enq_all:
  "repr h q xs \<Longrightarrow> distinct ws \<Longrightarrow> set ws \<inter> set (q # xs) = {} \<Longrightarrow>
   repr (fold (\<lambda>w h. enq h w q) ws h) q (xs @ ws)"
proof (induction ws arbitrary: h xs)
  case Nil
  then show ?case by simp
next
  case (Cons w ws)
  have "repr (enq h w q) q (xs @ [w])"
    using Cons.prems by (intro repr_enq) auto
  then have "repr (fold (\<lambda>w h. enq h w q) ws (enq h w q)) q ((xs @ [w]) @ ws)"
    using Cons.prems by (intro Cons.IH) auto
  then show ?case by simp
qed

lemma repr_pop_n:
  "repr h q xs \<Longrightarrow> n \<le> length xs \<Longrightarrow>
   repr (((\<lambda>h. unlink h (first h q)) ^^ n) h) q (drop n xs)"
proof (induction n)
  case (Suc n)
  then have IH: "repr (((\<lambda>h. unlink h (first h q)) ^^ n) h) q (drop n xs)" by simp
  have "drop n xs = xs ! n # drop (Suc n) xs"
    using Suc.prems by (simp add: Cons_nth_drop_Suc)
  with IH repr_pop show ?case by (simp add: comp_def)
qed simp

text \<open>First in, first out: what is appended to an empty queue is popped in the same order,
  after which the queue is empty again.\<close>

lemma fifo:
  assumes "repr h q []" and "distinct ws" and "q \<notin> set ws" and "n < length ws"
  shows "first (((\<lambda>h. unlink h (first h q)) ^^ n) (fold (\<lambda>w h. enq h w q) ws h)) q = ws ! n"
proof -
  let ?h = "fold (\<lambda>w h. enq h w q) ws h"
  have "repr ?h q ws" using repr_enq_all [of h q "[]" ws] assms by simp
  then have "repr (((\<lambda>h. unlink h (first h q)) ^^ n) ?h) q (drop n ws)"
    using assms(4) by (intro repr_pop_n) auto
  then show ?thesis
    using assms(4) by (metis Cons_nth_drop_Suc repr_first)
qed

end

text \<open>The wait queues also insert at the front (\<open>shannon_list_add\<close>).\<close>

locale intrusive_deque = intrusive_queue +
  fixes push :: "'a \<Rightarrow> 'b \<Rightarrow> 'b \<Rightarrow> 'a"
  assumes repr_push: "repr h q xs \<Longrightarrow> new \<notin> set (q # xs) \<Longrightarrow> repr (push h new q) q (new # xs)"
    and repr_push_other: "repr h q xs \<Longrightarrow> repr h r ys \<Longrightarrow>
      set (r # ys) \<inter> set (new # q # xs) = {} \<Longrightarrow> repr (push h new q) r ys"
begin

lemma push_then_pop:
  assumes "repr h q xs" and "new \<notin> set (q # xs)"
  shows "first (push h new q) q = new \<and> repr (unlink (push h new q) new) q xs"
  using repr_push [OF assms] repr_first repr_unlink [of _ q "[]" new xs] by simp

end

interpretation lh: intrusive_deque dll shannon_list_add_tail shannon_list_del_init
  shannon_list_empty shannon_list_first_entry shannon_list_add
proof (unfold_locales, goal_cases)
  case 1
  then show ?case by (simp add: dll_def)
next
  case 2
  then show ?case by (rule dll_add_tail)
next
  case 3
  then show ?case by (rule dll_del_init)
next
  case 4
  then show ?case by (rule dll_del_init)
next
  case 5
  then show ?case by (rule dll_empty)
next
  case 6
  then show ?case by (rule dll_first)
next
  case 7
  then show ?case by (rule dll_add_tail_other)
next
  case 8
  then show ?case by (rule dll_del_init_other)
next
  case 9
  then show ?case by (rule dll_add)
next
  case 10
  then show ?case by (rule dll_add_other)
qed

section \<open>Traversal\<close>

lemma for_each_from_linked:
  "linked h (xs @ [head]) \<Longrightarrow> head \<notin> set xs \<Longrightarrow> length xs < n \<Longrightarrow>
   for_each_from n h (hd (xs @ [head])) head = Some xs"
proof (induction xs arbitrary: n)
  case Nil
  then show ?case by (cases n) auto
next
  case (Cons x xs)
  then obtain m where n: "n = Suc m" by (cases n) auto
  have "linked h (xs @ [head])" and "nxt h x = hd (xs @ [head])"
    using Cons.prems(1) linked_append [of "[x]" "xs @ [head]" h] by auto
  with Cons n show ?case by auto
qed

lemma for_each_dll:
  "dll h head xs \<Longrightarrow> length xs < n \<Longrightarrow> shannon_list_for_each n h head = Some xs"
  using for_each_from_linked [of h xs head n] dll_split [of h head "[]" xs]
  by (simp add: shannon_list_for_each_def)

text \<open>Reversing the roles of the two fields reverses the ring.\<close>

definition flip_heap :: "list_heap \<Rightarrow> list_heap" where
  "flip_heap h = \<lparr>nxt = prv h, prv = nxt h\<rparr>"

lemma linked_flip: "linked (flip_heap h) (rev xs) = linked h xs"
proof (induction xs rule: induct_list012)
  case (3 a b r)
  have "linked (flip_heap h) ((rev r @ [b]) @ [a]) \<longleftrightarrow>
      linked (flip_heap h) (rev r @ [b]) \<and> prv h b = a \<and> nxt h a = b"
    using linked_append [of "rev r @ [b]" "[a]" "flip_heap h"] by (simp add: flip_heap_def)
  with "3.IH"(2) show ?case by auto
qed auto

lemma dll_flip: "dll h head xs \<Longrightarrow> dll (flip_heap h) head (rev xs)"
  using linked_flip [of h "head # xs @ [head]"] by (simp add: dll_def)

lemma for_each_reverse_flip:
  "for_each_reverse_from n h pos head = for_each_from n (flip_heap h) pos head"
  by (induction n arbitrary: pos) (auto simp: flip_heap_def)

lemma for_each_reverse_dll:
  assumes "dll h head xs" and "length xs < n"
  shows "shannon_list_for_each_entry_reverse n h head = Some (rev xs)"
proof -
  have "shannon_list_for_each n (flip_heap h) head = Some (rev xs)"
    using assms by (intro for_each_dll dll_flip) simp_all
  then show ?thesis
    by (simp add: shannon_list_for_each_entry_reverse_def for_each_reverse_flip
        shannon_list_for_each_def flip_heap_def)
qed

lemma dll_step:
  assumes "dll h head xs" and "i < length xs"
  shows "nxt h (xs ! i) = (if Suc i < length xs then xs ! Suc i else head)"
    and "xs ! i \<noteq> head"
proof -
  have xs: "xs = (take i xs @ [xs ! i]) @ drop (Suc i) xs"
    using assms(2) by (simp add: id_take_nth_drop [symmetric])
  have "dll h head ((take i xs @ [xs ! i]) @ drop (Suc i) xs)" using assms(1) xs by simp
  then have "nxt h (xs ! i) = hd (drop (Suc i) xs @ [head])"
    unfolding dll_split by simp
  also have "\<dots> = (if Suc i < length xs then xs ! Suc i else head)"
    by (simp add: hd_append hd_drop_conv_nth)
  finally show "nxt h (xs ! i) = (if Suc i < length xs then xs ! Suc i else head)" .
  show "xs ! i \<noteq> head" using assms by (auto simp: dll_def)
qed

lemma seq_list_start_linked:
  "linked h (xs @ [head]) \<Longrightarrow> head \<notin> set xs \<Longrightarrow> length xs < n \<Longrightarrow>
   seq_list_start_from n h (hd (xs @ [head])) head pos =
     Some (if 0 \<le> pos \<and> pos < int (length xs) then Some (xs ! nat pos) else None)"
proof (induction xs arbitrary: n pos)
  case Nil
  then show ?case by (cases n) auto
next
  case (Cons x xs)
  then obtain m where n: "n = Suc m" by (cases n) auto
  have *: "linked h (xs @ [head])" "nxt h x = hd (xs @ [head])" "x \<noteq> head"
    using Cons.prems linked_append [of "[x]" "xs @ [head]" h] by auto
  have IH: "seq_list_start_from m h (nxt h x) head (pos - 1) =
      Some (if 0 \<le> pos - 1 \<and> pos - 1 < int (length xs) then Some (xs ! nat (pos - 1)) else None)"
    unfolding *(2) using Cons.prems n *(1) by (intro Cons.IH) auto
  have nth: "0 < pos \<Longrightarrow> (x # xs) ! nat pos = xs ! nat (pos - 1)"
    by (simp add: nth_Cons' nat_diff_distrib)
  show ?case using * IH n nth by auto
qed

text \<open>The loop that unlinks every entry: at each step the ring holds what is still to visit.\<close>

lemma for_each_safe_drain:
  "dll h head xs \<Longrightarrow> length xs < k \<Longrightarrow>
   \<exists>h'. for_each_safe_from k shannon_list_del_init h (nxt h head) (nxt h (nxt h head)) head =
          Some (h', xs) \<and> dll h' head [] \<and>
        (\<forall>e \<in> set xs. shannon_list_empty_careful h' e) \<and>
        (\<forall>r ys. dll h r ys \<longrightarrow> set (r # ys) \<inter> set (head # xs) = {} \<longrightarrow> dll h' r ys)"
proof (induction xs arbitrary: h k)
  case Nil
  then obtain m where "k = Suc m" by (cases k) auto
  with Nil show ?case using dll_ends(1) [of h head "[]"] by auto
next
  case (Cons x xs)
  then obtain m where k: "k = Suc m" "length xs < m" by (cases k) auto
  let ?h = "shannon_list_del_init h x"
  have d: "dll ?h head xs" and x: "dll ?h x []"
    using dll_del_init [of h head "[]" x xs] Cons.prems(1) by auto
  have pos: "nxt h head = x" "x \<noteq> head"
    using dll_ends(1) [OF Cons.prems(1)] dll_step(2) [OF Cons.prems(1), of 0] by auto
  have "nxt h x = hd (xs @ [head])"
    using dll_split [of h head "[x]" xs] Cons.prems(1) by simp
  then have n: "nxt h x = nxt ?h head" using dll_ends(1) [OF d] by simp
  have fresh: "set (x # []) \<inter> set (head # xs) = {}"
    using Cons.prems(1) by (auto simp: dll_def)
  obtain h' where h': "for_each_safe_from m shannon_list_del_init ?h (nxt ?h head)
        (nxt ?h (nxt ?h head)) head = Some (h', xs)" "dll h' head []"
    "\<forall>e \<in> set xs. shannon_list_empty_careful h' e"
    "\<forall>r ys. dll ?h r ys \<longrightarrow> set (r # ys) \<inter> set (head # xs) = {} \<longrightarrow> dll h' r ys"
    using Cons.IH [OF d k(2)] by auto
  have "dll h' x []" using h'(4) x fresh by blast
  then have "\<forall>e \<in> set (x # xs). shannon_list_empty_careful h' e"
    using h'(3) by (simp add: dll_empty_careful)
  moreover have "dll h' r ys"
    if "dll h r ys" "set (r # ys) \<inter> set (head # x # xs) = {}" for r ys
  proof -
    have "dll ?h r ys"
      by (rule dll_del_init_other [of h head "[]" x xs]) (use that Cons.prems(1) in auto)
    then show ?thesis using h'(4) that(2) by auto
  qed
  ultimately show ?case using h'(1,2) k pos n by auto
qed

section \<open>Properties\<close>

text \<open>A ring with two entries, for the witnesses: head 1, entries 10 and 11; a second ring with
  head 2 and no entry.\<close>

definition sample_heap :: list_heap where
  "sample_heap = shannon_list_add_tail (shannon_list_add_tail
     (SHANNON_INIT_LIST_HEAD (SHANNON_INIT_LIST_HEAD
       \<lparr>nxt = (\<lambda>_. 0), prv = (\<lambda>_. 0)\<rparr> 1) 2) 10 1) 11 1"

lemma sample_heap_rings: "dll sample_heap 1 [10, 11]" "dll sample_heap 2 []"
  by (simp_all add: sample_heap_def dll_def shannon_list_add_tail_def raw_list_add_def
      SHANNON_INIT_LIST_HEAD_def)

text \<open>C15 (refinement). Appending, pushing and unlinking on the heap are \<open>xs @ [new]\<close>,
  \<open>new # xs\<close> and the removal of the entry on the abstract list; the unlinked entry is an empty
  ring again, so it can be queued once more, and any ring that shares no entry with this one is
  unchanged by each of the three operations.\<close>

theorem list_ops_refine:
  assumes "dll h head (ys @ e # zs)" and "dll h other os"
    and "new \<notin> set (head # ys @ e # zs)"
    and "set (other # os) \<inter> set (new # head # ys @ e # zs) = {}"
  shows "dll (shannon_list_add_tail h new head) head ((ys @ e # zs) @ [new]) \<and>
    dll (shannon_list_add h new head) head (new # ys @ e # zs) \<and>
    dll (shannon_list_del_init h e) head (ys @ zs) \<and>
    shannon_list_empty_careful (shannon_list_del_init h e) e \<and>
    dll (shannon_list_add_tail h new head) other os \<and>
    dll (shannon_list_add h new head) other os \<and>
    dll (shannon_list_del_init h e) other os"
proof (intro conjI)
  show "dll (shannon_list_add_tail h new head) head ((ys @ e # zs) @ [new])"
    by (rule lh.repr_enq [OF assms(1,3)])
  show "dll (shannon_list_add h new head) head (new # ys @ e # zs)"
    by (rule lh.repr_push [OF assms(1,3)])
  show "dll (shannon_list_del_init h e) head (ys @ zs)"
    by (rule lh.repr_unlink [OF assms(1)])
  show "shannon_list_empty_careful (shannon_list_del_init h e) e"
    using lh.repr_unlinked [OF assms(1)] by (simp add: dll_empty_careful)
  show "dll (shannon_list_add_tail h new head) other os"
    by (rule lh.repr_enq_other [OF assms(1,2,4)])
  show "dll (shannon_list_add h new head) other os"
    by (rule lh.repr_push_other [OF assms(1,2,4)])
  show "dll (shannon_list_del_init h e) other os"
    by (rule lh.repr_unlink_other [OF assms(1,2)]) (use assms(4) in auto)
qed

theorem list_ops_refine_witness:
  "dll (shannon_list_del_init sample_heap 11) 1 [10] \<and>
   dll (shannon_list_add_tail sample_heap 12 1) 1 [10, 11, 12] \<and>
   dll (shannon_list_add sample_heap 12 1) 2 []"
  using list_ops_refine [of sample_heap 1 "[10]" 11 "[]" 2 "[]" 12] sample_heap_rings by simp

text \<open>On every well-formed ring the two traversal loops end after one step per
  entry and visit exactly the entries, the reverse loop in the opposite order, and the
  sequence-file iterators index the same order: \<open>shannon_seq_list_start\<close> returns the entry at
  that offset or NULL beyond either end, and \<open>shannon_seq_list_next\<close> steps from an
  entry to its successor, NULL after the last one.\<close>

theorem ring_traversal:
  assumes "dll h head xs" and "length xs < n"
  shows "shannon_list_for_each n h head = Some xs \<and>
    shannon_list_for_each_entry_reverse n h head = Some (rev xs) \<and>
    shannon_seq_list_start n h head pos =
      Some (if 0 \<le> pos \<and> pos < int (length xs) then Some (xs ! nat pos) else None) \<and>
    shannon_seq_list_start_head n h head pos =
      Some (if 0 \<le> pos \<and> pos \<le> int (length xs) then Some ((head # xs) ! nat pos) else None) \<and>
    (\<forall>i < length xs. shannon_seq_list_next h (xs ! i) head pos =
      (if Suc i < length xs then Some (xs ! Suc i) else None, pos + 1))"
proof -
  have start: "shannon_seq_list_start n h head p =
      Some (if 0 \<le> p \<and> p < int (length xs) then Some (xs ! nat p) else None)" for p
    using seq_list_start_linked [of h xs head n p] assms dll_split [of h head "[]" xs]
    by (simp add: shannon_seq_list_start_def)
  have "shannon_seq_list_start_head n h head pos =
      Some (if 0 \<le> pos \<and> pos \<le> int (length xs) then Some ((head # xs) ! nat pos) else None)"
    unfolding shannon_seq_list_start_head_def start
    by (auto simp: nth_Cons' nat_diff_distrib)
  moreover have "\<forall>i < length xs. shannon_seq_list_next h (xs ! i) head pos =
      (if Suc i < length xs then Some (xs ! Suc i) else None, pos + 1)"
    using dll_step [OF assms(1)] by (auto simp: shannon_seq_list_next_def Let_def)
  ultimately show ?thesis
    using for_each_dll [OF assms] for_each_reverse_dll [OF assms] start by simp
qed

theorem ring_traversal_witness:
  "shannon_list_for_each 3 sample_heap 1 = Some [10, 11] \<and>
   shannon_list_for_each_entry_reverse 3 sample_heap 1 = Some [11, 10] \<and>
   shannon_seq_list_start 3 sample_heap 1 1 = Some (Some 11) \<and>
   shannon_seq_list_next sample_heap 11 1 1 = (None, 2)"
proof -
  have "\<forall>i < length [10, 11]. shannon_seq_list_next sample_heap ([10, 11] ! i) 1 1 =
      (if Suc i < length [10, 11 :: nat] then Some ([10, 11] ! Suc i) else None, 1 + 1)"
    using ring_traversal [of sample_heap 1 "[10, 11]" 3 1] sample_heap_rings(1) by simp
  from this [rule_format, of 1] show ?thesis
    using ring_traversal [of sample_heap 1 "[10, 11]" 3 1] sample_heap_rings(1) by simp
qed

text \<open>Unlinking every entry from inside \<open>shannon_list_for_each_entry_safe\<close> is sound:
  the loop ends, visits each entry once and in order, leaves the ring empty and every entry an
  empty ring of its own, and does not disturb any other ring.\<close>

theorem for_each_safe_unlinks_all:
  assumes "dll h head xs" and "length xs < k"
  shows "\<exists>h'. shannon_list_for_each_entry_safe k shannon_list_del_init h head = Some (h', xs) \<and>
    shannon_list_empty h' head \<and> (\<forall>e \<in> set xs. shannon_list_empty_careful h' e) \<and>
    (\<forall>r ys. dll h r ys \<longrightarrow> set (r # ys) \<inter> set (head # xs) = {} \<longrightarrow> dll h' r ys)"
  using for_each_safe_drain [OF assms] dll_empty
  by (auto simp: shannon_list_for_each_entry_safe_def Let_def)

theorem for_each_safe_unlinks_all_witness:
  "\<exists>h'. shannon_list_for_each_entry_safe 3 shannon_list_del_init sample_heap 1 =
     Some (h', [10, 11]) \<and> shannon_list_empty h' 1"
  using for_each_safe_unlinks_all [of sample_heap 1 "[10, 11]" 3] sample_heap_rings(1) by auto

end
