(* ===== verification/Gfp_Legacy.thy ===== *)
theory Gfp_Legacy
  imports Prelude
begin

text \<open>
  \<^verbatim>\<open>shannon_gfp_legacy.h\<close>: the translation of the allocator and slab flag values that are
  frozen into the precompiled core, and the wrappers of \<^verbatim>\<open>shannon_kcore.c\<close> and
  \<^verbatim>\<open>shannon_dma.c\<close> that forward a flag to a kernel allocator. The flag values of the
  running kernel come from its headers, not from this repository, so they are a record
  \<open>gfp_env\<close> that every definition takes; a flag that may be missing from a configuration
  (\<^verbatim>\<open>#ifdef\<close>) is an option. \<open>env_v6_8\<close> and \<open>env_v3_10\<close> are two concrete kernels.
\<close>

section \<open>The flag values of the running kernel\<close>

record gfp_env =
  wait_defined :: bool      \<comment> \<open>\<^verbatim>\<open>#ifdef __GFP_WAIT\<close>\<close>
  GFP_RECLAIM :: u32
  GFP_DIRECT_RECLAIM :: u32
  GFP_KSWAPD_RECLAIM :: u32
  GFP_HIGH :: u32
  GFP_IO :: u32
  GFP_FS :: u32
  GFP_NOWARN :: u32
  GFP_RETRY_MAYFAIL :: "u32 option"
  GFP_REPEAT :: u32
  GFP_NOFAIL :: u32
  GFP_NORETRY :: u32
  GFP_COMP :: u32
  GFP_ZERO :: u32
  GFP_ATOMIC :: u32
  GFP_KERNEL :: u32
  GFP_NOWAIT :: u32
  GFP_NOIO :: u32
  GFP_NOFS :: u32
  SLAB_HWCACHE_ALIGN :: u64
  SLAB_CONSISTENCY_CHECKS :: "u64 option"
  SLAB_RED_ZONE :: "u64 option"
  SLAB_POISON :: "u64 option"
  SLAB_CACHE_DMA :: "u64 option"
  SLAB_STORE_USER :: "u64 option"
  SLAB_PANIC :: "u64 option"
  SLAB_TYPESAFE_BY_RCU :: "u64 option"
  SLAB_RECLAIM_ACCOUNT :: "u64 option"

text \<open>The gfp values of v6.8, with the slab flags in their v6.9 positions.\<close>

definition env_v6_8 :: gfp_env where
  "env_v6_8 = \<lparr>wait_defined = False, GFP_RECLAIM = 0xc00, GFP_DIRECT_RECLAIM = 0x400,
     GFP_KSWAPD_RECLAIM = 0x800, GFP_HIGH = 0x20, GFP_IO = 0x40, GFP_FS = 0x80,
     GFP_NOWARN = 0x2000, GFP_RETRY_MAYFAIL = Some 0x4000, GFP_REPEAT = 0, GFP_NOFAIL = 0x8000,
     GFP_NORETRY = 0x10000, GFP_COMP = 0x40000, GFP_ZERO = 0x100, GFP_ATOMIC = 0x820,
     GFP_KERNEL = 0xcc0, GFP_NOWAIT = 0x2800, GFP_NOIO = 0xc00, GFP_NOFS = 0xc40,
     SLAB_HWCACHE_ALIGN = 0x10, SLAB_CONSISTENCY_CHECKS = Some 0x1, SLAB_RED_ZONE = Some 0x2,
     SLAB_POISON = Some 0x4, SLAB_CACHE_DMA = Some 0x20, SLAB_STORE_USER = Some 0x80,
     SLAB_PANIC = Some 0x100, SLAB_TYPESAFE_BY_RCU = Some 0x200,
     SLAB_RECLAIM_ACCOUNT = Some 0x1000\<rparr>"

definition env_v3_10 :: gfp_env where
  "env_v3_10 = \<lparr>wait_defined = True, GFP_RECLAIM = 0, GFP_DIRECT_RECLAIM = 0,
     GFP_KSWAPD_RECLAIM = 0, GFP_HIGH = 0x20, GFP_IO = 0x40, GFP_FS = 0x80,
     GFP_NOWARN = 0x200, GFP_RETRY_MAYFAIL = None, GFP_REPEAT = 0x400, GFP_NOFAIL = 0x800,
     GFP_NORETRY = 0x1000, GFP_COMP = 0x4000, GFP_ZERO = 0x8000, GFP_ATOMIC = 0x20,
     GFP_KERNEL = 0xd0, GFP_NOWAIT = 0, GFP_NOIO = 0x10, GFP_NOFS = 0x50,
     SLAB_HWCACHE_ALIGN = 0x2000, SLAB_CONSISTENCY_CHECKS = None, SLAB_RED_ZONE = Some 0x400,
     SLAB_POISON = Some 0x800, SLAB_CACHE_DMA = Some 0x4000, SLAB_STORE_USER = Some 0x10000,
     SLAB_PANIC = Some 0x40000, SLAB_TYPESAFE_BY_RCU = None,
     SLAB_RECLAIM_ACCOUNT = Some 0x20000\<rparr>"

section \<open>The legacy encoding\<close>

definition SHANNON_LEGACY_GFP_WAIT :: u32 where "SHANNON_LEGACY_GFP_WAIT = 0x10"
definition SHANNON_LEGACY_GFP_HIGH :: u32 where "SHANNON_LEGACY_GFP_HIGH = 0x20"
definition SHANNON_LEGACY_GFP_IO :: u32 where "SHANNON_LEGACY_GFP_IO = 0x40"
definition SHANNON_LEGACY_GFP_FS :: u32 where "SHANNON_LEGACY_GFP_FS = 0x80"
definition SHANNON_LEGACY_GFP_NOWARN :: u32 where "SHANNON_LEGACY_GFP_NOWARN = 0x200"
definition SHANNON_LEGACY_GFP_REPEAT :: u32 where "SHANNON_LEGACY_GFP_REPEAT = 0x400"
definition SHANNON_LEGACY_GFP_NOFAIL :: u32 where "SHANNON_LEGACY_GFP_NOFAIL = 0x800"
definition SHANNON_LEGACY_GFP_NORETRY :: u32 where "SHANNON_LEGACY_GFP_NORETRY = 0x1000"
definition SHANNON_LEGACY_GFP_COMP :: u32 where "SHANNON_LEGACY_GFP_COMP = 0x4000"
definition SHANNON_LEGACY_GFP_ZERO :: u32 where "SHANNON_LEGACY_GFP_ZERO = 0x8000"
definition SHANNON_LEGACY_GFP_ZONE_MASK :: u32 where
  "SHANNON_LEGACY_GFP_ZONE_MASK = 0x1 OR 0x2 OR 0x4 OR 0x8"
definition SHANNON_LEGACY_GFP_ALL_MASK :: u32 where "SHANNON_LEGACY_GFP_ALL_MASK = 0xffff"
definition SHANNON_LEGACY_GFP_NOIO :: u32 where
  "SHANNON_LEGACY_GFP_NOIO = SHANNON_LEGACY_GFP_WAIT"
definition SHANNON_LEGACY_GFP_ATOMIC_NOWARN :: u32 where
  "SHANNON_LEGACY_GFP_ATOMIC_NOWARN = SHANNON_LEGACY_GFP_HIGH OR SHANNON_LEGACY_GFP_NOWARN"

lemmas legacy_gfp_defs [shannon_defs] =
  SHANNON_LEGACY_GFP_WAIT_def SHANNON_LEGACY_GFP_HIGH_def SHANNON_LEGACY_GFP_IO_def
  SHANNON_LEGACY_GFP_FS_def SHANNON_LEGACY_GFP_NOWARN_def SHANNON_LEGACY_GFP_REPEAT_def
  SHANNON_LEGACY_GFP_NOFAIL_def SHANNON_LEGACY_GFP_NORETRY_def SHANNON_LEGACY_GFP_COMP_def
  SHANNON_LEGACY_GFP_ZERO_def SHANNON_LEGACY_GFP_ZONE_MASK_def SHANNON_LEGACY_GFP_ALL_MASK_def
  SHANNON_LEGACY_GFP_NOIO_def SHANNON_LEGACY_GFP_ATOMIC_NOWARN_def

text \<open>C's \<open>if (v & mask) g |= bits;\<close> as a value to be or-ed in.\<close>

definition or_if :: "('a::len) word \<Rightarrow> 'a word \<Rightarrow> 'a word \<Rightarrow> 'a word \<Rightarrow> 'a word" where
  "or_if v msk bits g = (if v AND msk \<noteq> 0 then g OR bits else g)"

definition shannon_gfp_decode_legacy :: "gfp_env \<Rightarrow> u32 \<Rightarrow> u32" where
  "shannon_gfp_decode_legacy e legacy =
    (if wait_defined e then legacy
     else
      let g = 0 OR (legacy AND SHANNON_LEGACY_GFP_ZONE_MASK);
          g = or_if legacy SHANNON_LEGACY_GFP_WAIT (GFP_RECLAIM e) g;
          g = or_if legacy SHANNON_LEGACY_GFP_HIGH (GFP_ATOMIC e) g;
          g = or_if legacy SHANNON_LEGACY_GFP_IO (GFP_IO e) g;
          g = or_if legacy SHANNON_LEGACY_GFP_FS (GFP_FS e) g;
          g = or_if legacy SHANNON_LEGACY_GFP_NOWARN (GFP_NOWARN e) g;
          g = or_if legacy SHANNON_LEGACY_GFP_REPEAT
                (case GFP_RETRY_MAYFAIL e of Some r \<Rightarrow> r | None \<Rightarrow> GFP_REPEAT e) g;
          g = or_if legacy SHANNON_LEGACY_GFP_NOFAIL (GFP_NOFAIL e) g;
          g = or_if legacy SHANNON_LEGACY_GFP_NORETRY (GFP_NORETRY e) g;
          g = or_if legacy SHANNON_LEGACY_GFP_COMP (GFP_COMP e) g;
          g = or_if legacy SHANNON_LEGACY_GFP_ZERO (GFP_ZERO e) g
      in if g AND GFP_RECLAIM e = 0 then g OR GFP_KSWAPD_RECLAIM e else g)"

definition shannon_gfp_is_legacy :: "gfp_env \<Rightarrow> u32 \<Rightarrow> bool" where
  "shannon_gfp_is_legacy e v =
    (if wait_defined e then False
     else if v = 0 then False
     else if v AND NOT SHANNON_LEGACY_GFP_ALL_MASK \<noteq> 0 then False
     else if v AND GFP_RECLAIM e \<noteq> 0 then False
     else True)"

definition shannon_gfp_xlate :: "gfp_env \<Rightarrow> u32 \<Rightarrow> u32" where
  "shannon_gfp_xlate e v =
    (if \<not> shannon_gfp_is_legacy e v then v else shannon_gfp_decode_legacy e v)"

text \<open>The build-time guard: the module compiles only when this is true.\<close>

definition shannon_gfp_assert_native :: "gfp_env \<Rightarrow> bool" where
  "shannon_gfp_assert_native e \<longleftrightarrow>
    (if wait_defined e then True
     else GFP_KERNEL e AND GFP_RECLAIM e \<noteq> 0 \<and> GFP_ATOMIC e AND GFP_RECLAIM e \<noteq> 0 \<and>
          GFP_NOWAIT e AND GFP_RECLAIM e \<noteq> 0 \<and> GFP_NOIO e AND GFP_RECLAIM e \<noteq> 0 \<and>
          GFP_NOFS e AND GFP_RECLAIM e \<noteq> 0)"

section \<open>Slab flags\<close>

definition SHANNON_LEGACY_SLAB_HWCACHE_ALIGN :: u64 where
  "SHANNON_LEGACY_SLAB_HWCACHE_ALIGN = 0x2000"

definition SHANNON_LEGACY_SLAB_KNOWN_MASK :: u64 where
  "SHANNON_LEGACY_SLAB_KNOWN_MASK =
     0x100 OR 0x200 OR 0x400 OR 0x800 OR SHANNON_LEGACY_SLAB_HWCACHE_ALIGN OR 0x4000 OR
     0x8000 OR 0x10000 OR 0x20000 OR 0x40000 OR 0x80000 OR 0x100000"

definition shannon_slab_flags_native :: "gfp_env \<Rightarrow> bool" where
  "shannon_slab_flags_native e \<longleftrightarrow> SLAB_HWCACHE_ALIGN e = SHANNON_LEGACY_SLAB_HWCACHE_ALIGN"

text \<open>A flag absent from the configuration contributes no statement.\<close>

definition or_if_opt :: "u64 \<Rightarrow> u64 \<Rightarrow> u64 option \<Rightarrow> u64 \<Rightarrow> u64" where
  "or_if_opt v msk bits g = (case bits of Some b \<Rightarrow> or_if v msk b g | None \<Rightarrow> g)"

definition shannon_slab_flags_xlate :: "gfp_env \<Rightarrow> u64 \<Rightarrow> u64" where
  "shannon_slab_flags_xlate e legacy =
    (if shannon_slab_flags_native e then legacy
     else
      let f = 0;
          f = or_if legacy SHANNON_LEGACY_SLAB_HWCACHE_ALIGN (SLAB_HWCACHE_ALIGN e) f;
          f = or_if_opt legacy 0x100 (SLAB_CONSISTENCY_CHECKS e) f;
          f = or_if_opt legacy 0x400 (SLAB_RED_ZONE e) f;
          f = or_if_opt legacy 0x800 (SLAB_POISON e) f;
          f = or_if_opt legacy 0x4000 (SLAB_CACHE_DMA e) f;
          f = or_if_opt legacy 0x10000 (SLAB_STORE_USER e) f;
          f = or_if_opt legacy 0x40000 (SLAB_PANIC e) f;
          f = or_if_opt legacy 0x80000 (SLAB_TYPESAFE_BY_RCU e) f;
          f = or_if_opt legacy 0x20000 (SLAB_RECLAIM_ACCOUNT e) f
      in f)"

definition shannon_slab_flags_unknown :: "gfp_env \<Rightarrow> u64 \<Rightarrow> u64" where
  "shannon_slab_flags_unknown e legacy =
    (if shannon_slab_flags_native e then 0 else legacy AND NOT SHANNON_LEGACY_SLAB_KNOWN_MASK)"

section \<open>The wrappers that forward a flag\<close>

text \<open>
  Each takes the kernel allocator it calls as its first argument; the allocators are
  functions of the size and the flag to an address, 0 for failure.
\<close>

definition shannon_get_free_page :: "(u32 \<Rightarrow> ptr) \<Rightarrow> gfp_env \<Rightarrow> u32 \<Rightarrow> ptr" where
  "shannon_get_free_page get_free_page e flags = get_free_page (shannon_gfp_xlate e flags)"

definition shannon_vmalloc_gfp :: "(nat \<Rightarrow> u32 \<Rightarrow> ptr) \<Rightarrow> gfp_env \<Rightarrow> nat \<Rightarrow> u32 \<Rightarrow> ptr" where
  "shannon_vmalloc_gfp vmalloc e sz gfp_mask = vmalloc sz (shannon_gfp_xlate e gfp_mask)"

definition shannon_kzalloc :: "(nat \<Rightarrow> u32 \<Rightarrow> ptr) \<Rightarrow> gfp_env \<Rightarrow> nat \<Rightarrow> u32 \<Rightarrow> ptr" where
  "shannon_kzalloc kzalloc e sz flags = kzalloc sz (shannon_gfp_xlate e flags)"

definition shannon_kmalloc :: "(nat \<Rightarrow> u32 \<Rightarrow> ptr) \<Rightarrow> gfp_env \<Rightarrow> nat \<Rightarrow> u32 \<Rightarrow> ptr" where
  "shannon_kmalloc kmalloc e sz flags = kmalloc sz (shannon_gfp_xlate e flags)"

definition shannon_mempool_alloc :: "('pool \<Rightarrow> u32 \<Rightarrow> ptr) \<Rightarrow> gfp_env \<Rightarrow> 'pool \<Rightarrow> u32 \<Rightarrow> ptr" where
  "shannon_mempool_alloc mempool_alloc e pool gfp_mask =
     mempool_alloc pool (shannon_gfp_xlate e gfp_mask)"

definition shannon_kasprintf ::
    "(u32 \<Rightarrow> 'fmt \<Rightarrow> string option) \<Rightarrow> gfp_env \<Rightarrow> u32 \<Rightarrow> 'fmt \<Rightarrow> string option" where
  "shannon_kasprintf kvasprintf e flags fmt = kvasprintf (shannon_gfp_xlate e flags) fmt"

definition shannon_dma_alloc_coherent ::
    "('dev \<Rightarrow> nat \<Rightarrow> u32 \<Rightarrow> ptr \<times> u64) \<Rightarrow> gfp_env \<Rightarrow> 'dev \<Rightarrow> nat \<Rightarrow> u32 \<Rightarrow> ptr \<times> u64" where
  "shannon_dma_alloc_coherent dma_alloc e dev sz flags =
     dma_alloc dev sz (shannon_gfp_xlate e flags)"

text \<open>The result carries the flags value the warning prints, if one is printed.\<close>

definition shannon_kmem_cache_create ::
    "(string \<Rightarrow> nat \<Rightarrow> nat \<Rightarrow> u64 \<Rightarrow> ptr) \<Rightarrow> gfp_env \<Rightarrow> string \<Rightarrow> nat \<Rightarrow> nat \<Rightarrow> u64 \<Rightarrow>
     u64 option \<times> ptr" where
  "shannon_kmem_cache_create kmem_cache_create e name sz align flags =
    (let unknown = shannon_slab_flags_unknown e flags;
         warned = (if unknown \<noteq> 0 then Some unknown else None);
         flags = shannon_slab_flags_xlate e flags
     in (warned, kmem_cache_create name sz align flags))"

text \<open>The table the module logs at load: \<open>None\<close> is the message that the translation is
  inactive.\<close>

definition shannon_gfp_xlate_selftest :: "gfp_env \<Rightarrow> (u32 \<times> u32) list option" where
  "shannon_gfp_xlate_selftest e =
    (if wait_defined e then None
     else Some (map (\<lambda>l. (l, shannon_gfp_xlate e l))
       [SHANNON_LEGACY_GFP_NOIO, SHANNON_LEGACY_GFP_ATOMIC_NOWARN, SHANNON_LEGACY_GFP_NOWARN]))"

section \<open>Lemmas\<close>

text \<open>What \<^verbatim>\<open>include/linux/gfp.h\<close> documents about every kernel since v4.4: reclaim is split into a direct
  and a background flag, neither of which is a bit the precompiled core passes, \<open>GFP_NOIO\<close> is both of
  them and \<open>GFP_ATOMIC\<close> has the background flag only (the further bits of \<open>GFP_ATOMIC\<close> changed in v6.3
  and are left open).\<close>

definition modern_gfp :: "gfp_env \<Rightarrow> bool" where
  "modern_gfp e \<longleftrightarrow> \<not> wait_defined e \<and>
     GFP_RECLAIM e = GFP_DIRECT_RECLAIM e OR GFP_KSWAPD_RECLAIM e \<and>
     GFP_DIRECT_RECLAIM e AND GFP_KSWAPD_RECLAIM e = 0 \<and>
     GFP_DIRECT_RECLAIM e \<noteq> 0 \<and> GFP_KSWAPD_RECLAIM e \<noteq> 0 \<and>
     GFP_RECLAIM e AND 0x230 = 0 \<and> GFP_NOWARN e AND GFP_RECLAIM e = 0 \<and>
     GFP_NOIO e = GFP_RECLAIM e \<and> GFP_ATOMIC e AND GFP_RECLAIM e = GFP_KSWAPD_RECLAIM e"

lemma or_if_bits: "or_if v m b g = g OR (if v AND m \<noteq> 0 then b else 0)"
  by (simp add: or_if_def)

lemma or_if_opt_bits:
  "or_if_opt v m b g = g OR (if v AND m \<noteq> 0 then (case b of Some x \<Rightarrow> x | None \<Rightarrow> 0) else 0)"
  by (simp add: or_if_opt_def or_if_bits split: option.split)

lemma and_or_neq0: "(a OR b) AND c \<noteq> 0 \<longleftrightarrow> a AND c \<noteq> 0 \<or> b AND c \<noteq> (0 :: ('a::len) word)"
  by (auto simp: bit_eq_iff bit_simps)

lemma and_or_eq0: "(a OR b) AND c = 0 \<longleftrightarrow> a AND c = 0 \<and> b AND c = (0 :: ('a::len) word)"
  using and_or_neq0 [of a b c] by blast

lemma or_eq0: "a OR b = 0 \<longleftrightarrow> a = 0 \<and> b = (0 :: ('a::len) word)"
  by (auto simp: bit_eq_iff bit_simps)

lemma and_submask0:
  "m AND x = 0 \<Longrightarrow> m AND k = k \<Longrightarrow> k AND x = (0 :: ('a::len) word)"
  by (metis and.assoc and.commute and_zero_eq)

lemma and_only_other:
  "a AND (d OR k) = k \<Longrightarrow> d AND k = 0 \<Longrightarrow> a AND d = (0 :: ('a::len) word)"
  by (simp add: bit_eq_iff bit_simps) blast

lemma and_mono_neq0: "b AND c \<noteq> 0 \<Longrightarrow> (a OR b) AND c \<noteq> (0 :: ('a::len) word)"
  by (simp add: and_or_neq0)

lemmas decode_bits = shannon_gfp_decode_legacy_def or_if_bits Let_def

lemma decode_has_reclaim:
  assumes "modern_gfp e"
  shows "shannon_gfp_decode_legacy e v AND GFP_RECLAIM e \<noteq> 0"
proof -
  have "GFP_KSWAPD_RECLAIM e AND GFP_RECLAIM e = GFP_KSWAPD_RECLAIM e"
    using assms by (simp add: modern_gfp_def bit.conj_disj_distrib)
  then show ?thesis
    using assms by (auto simp: shannon_gfp_decode_legacy_def Let_def modern_gfp_def and_or_neq0)
qed

lemma reclaim_not_legacy: "v AND GFP_RECLAIM e \<noteq> 0 \<Longrightarrow> \<not> shannon_gfp_is_legacy e v"
  by (simp add: shannon_gfp_is_legacy_def)

lemma legacy_bits:
  "shannon_gfp_is_legacy e v \<Longrightarrow>
     \<not> wait_defined e \<and> v \<noteq> 0 \<and> v AND NOT 0xffff = 0 \<and> v AND GFP_RECLAIM e = 0"
  by (auto simp: shannon_gfp_is_legacy_def shannon_defs split: if_splits)

section \<open>Properties\<close>

text \<open>The discriminator never touches a value this kernel produced itself: when
  the build-time guard passes, every \<open>GFP_*\<close> the driver uses natively, and 0, goes through
  the translation unchanged, and on a kernel that still has the core's encoding
  every value does.\<close>

theorem gfp_native_identity:
  assumes "shannon_gfp_assert_native e"
  shows "\<forall>g \<in> {0, GFP_KERNEL e, GFP_ATOMIC e, GFP_NOWAIT e, GFP_NOIO e, GFP_NOFS e}.
           shannon_gfp_xlate e g = g"
proof -
  have "shannon_gfp_xlate e 0 = 0"
    by (simp add: shannon_gfp_xlate_def shannon_gfp_is_legacy_def)
  then show ?thesis
    using assms
    by (auto simp: shannon_gfp_assert_native_def shannon_gfp_xlate_def shannon_gfp_is_legacy_def
        split: if_splits)
qed

theorem gfp_native_identity_witness:
  "shannon_gfp_assert_native env_v6_8 \<and> shannon_gfp_assert_native env_v3_10 \<and>
   shannon_gfp_xlate env_v6_8 0xcc0 = 0xcc0 \<and> shannon_gfp_xlate env_v3_10 0xd0 = 0xd0"
  using gfp_native_identity [of env_v6_8] gfp_native_identity [of env_v3_10]
  by (simp add: env_v6_8_def env_v3_10_def shannon_gfp_assert_native_def)

text \<open>C31 (safety). On every kernel with the split reclaim flags (v4.4 on), a value classified as legacy is
  translated to one that can reclaim, is not classified as legacy again, and so translating
  twice is translating once.\<close>

theorem gfp_xlate_usable:
  assumes "modern_gfp e"
  shows "(shannon_gfp_is_legacy e v \<longrightarrow> shannon_gfp_xlate e v AND GFP_RECLAIM e \<noteq> 0) \<and>
    \<not> shannon_gfp_is_legacy e (shannon_gfp_xlate e v) \<and>
    shannon_gfp_xlate e (shannon_gfp_xlate e v) = shannon_gfp_xlate e v"
proof -
  have reclaim: "shannon_gfp_is_legacy e v \<longrightarrow> shannon_gfp_xlate e v AND GFP_RECLAIM e \<noteq> 0"
    using decode_has_reclaim [OF assms] by (simp add: shannon_gfp_xlate_def)
  then have "\<not> shannon_gfp_is_legacy e (shannon_gfp_xlate e v)"
    by (cases "shannon_gfp_is_legacy e v") (auto simp: reclaim_not_legacy shannon_gfp_xlate_def)
  with reclaim show ?thesis by (simp add: shannon_gfp_xlate_def)
qed

text \<open>v5.15 still has \<open>___GFP_ATOMIC\<close> (0x200) in \<open>GFP_ATOMIC\<close>.\<close>

definition env_v5_15 :: gfp_env where
  "env_v5_15 = env_v6_8\<lparr>GFP_ATOMIC := 0xa20, GFP_NOWAIT := 0x800\<rparr>"

lemma env_v6_8_modern: "modern_gfp env_v6_8"
  by (simp add: modern_gfp_def env_v6_8_def)

lemma env_v5_15_modern: "modern_gfp env_v5_15"
  by (simp add: modern_gfp_def env_v5_15_def env_v6_8_def)

theorem gfp_xlate_usable_witness:
  "shannon_gfp_xlate env_v5_15 0x220 AND GFP_RECLAIM env_v5_15 \<noteq> 0 \<and>
   shannon_gfp_is_legacy env_v6_8 0x200 \<and>
   shannon_gfp_xlate env_v6_8 0x200 AND GFP_RECLAIM env_v6_8 \<noteq> 0 \<and>
   shannon_gfp_xlate env_v6_8 (shannon_gfp_xlate env_v6_8 0x200) = shannon_gfp_xlate env_v6_8 0x200"
  using gfp_xlate_usable [OF env_v6_8_modern, of "0x200"] gfp_xlate_usable [OF env_v5_15_modern, of "0x220"]
  by (simp add: shannon_gfp_is_legacy_def env_v6_8_def env_v5_15_def shannon_defs)

text \<open>C11 (equivalence). The three values baked into the precompiled core get the meaning they had
  in the vendor's kernel: 0x10 becomes \<open>GFP_NOIO\<close> and keeps direct reclaim (so a mempool
  still waits for a refill), 0x220 becomes \<open>GFP_ATOMIC | __GFP_NOWARN\<close>, and 0x200 becomes
  \<open>__GFP_NOWARN\<close> with background reclaim only; the last two never sleep. This holds on every kernel
  since v4.4, with \<open>___GFP_ATOMIC\<close> (to v6.2) or without it.\<close>

theorem gfp_core_values:
  assumes "modern_gfp e"
  shows "shannon_gfp_xlate_selftest e =
      Some [(0x10, GFP_NOIO e), (0x220, GFP_ATOMIC e OR GFP_NOWARN e),
            (0x200, GFP_NOWARN e OR GFP_KSWAPD_RECLAIM e)] \<and>
    shannon_gfp_xlate e 0x10 AND GFP_DIRECT_RECLAIM e \<noteq> 0 \<and>
    shannon_gfp_xlate e 0x220 AND GFP_DIRECT_RECLAIM e = 0 \<and>
    shannon_gfp_xlate e 0x200 AND GFP_DIRECT_RECLAIM e = 0"
proof -
  have "0x230 AND GFP_RECLAIM e = 0" using assms by (metis modern_gfp_def and.commute)
  then have sub: "k AND GFP_RECLAIM e = 0" if "0x230 AND k = k" for k
    using that by (rule and_submask0)
  have r: "0x10 AND GFP_RECLAIM e = 0" "0x200 AND GFP_RECLAIM e = 0" "0x220 AND GFP_RECLAIM e = 0"
    by (rule sub, simp)+
  have k: "GFP_ATOMIC e AND GFP_RECLAIM e \<noteq> 0" "GFP_RECLAIM e AND GFP_DIRECT_RECLAIM e \<noteq> 0"
    "GFP_RECLAIM e \<noteq> 0" "GFP_KSWAPD_RECLAIM e AND GFP_DIRECT_RECLAIM e = 0"
    using assms by (auto simp: modern_gfp_def and_or_neq0 and.commute bit.conj_disj_distrib or_eq0)
  have m: "GFP_ATOMIC e AND GFP_RECLAIM e = GFP_KSWAPD_RECLAIM e" "GFP_DIRECT_RECLAIM e AND GFP_KSWAPD_RECLAIM e = 0"
    and split: "GFP_RECLAIM e = GFP_DIRECT_RECLAIM e OR GFP_KSWAPD_RECLAIM e"
    using assms unfolding modern_gfp_def by blast+
  have a: "GFP_ATOMIC e AND GFP_DIRECT_RECLAIM e = 0"
    using and_only_other [OF m(1) [unfolded split] m(2)] .
  have n: "GFP_NOWARN e AND GFP_DIRECT_RECLAIM e = 0" "GFP_NOWARN e AND GFP_RECLAIM e = 0"
    using assms and_or_eq0 [of "GFP_DIRECT_RECLAIM e" "GFP_KSWAPD_RECLAIM e" "GFP_NOWARN e"]
    by (auto simp: modern_gfp_def and.commute)
  have x10: "shannon_gfp_xlate e 0x10 = GFP_RECLAIM e"
    using assms r(1) k(3)
    by (simp add: shannon_gfp_xlate_def shannon_gfp_is_legacy_def decode_bits shannon_defs
        modern_gfp_def)
  have x200: "shannon_gfp_xlate e 0x200 = GFP_NOWARN e OR GFP_KSWAPD_RECLAIM e"
    using assms r(2) n(2)
    by (simp add: shannon_gfp_xlate_def shannon_gfp_is_legacy_def decode_bits shannon_defs
        modern_gfp_def)
  have x220: "shannon_gfp_xlate e 0x220 = GFP_ATOMIC e OR GFP_NOWARN e"
    using assms r(3) k(1)
    by (simp add: shannon_gfp_xlate_def shannon_gfp_is_legacy_def decode_bits shannon_defs
        modern_gfp_def and_or_eq0)
  show ?thesis
    using x10 x200 x220 k n a assms
    by (simp add: shannon_gfp_xlate_selftest_def shannon_defs modern_gfp_def and_or_eq0)
qed

theorem gfp_core_values_witness:
  "shannon_gfp_xlate_selftest env_v5_15 = Some [(0x10, 0xc00), (0x220, 0x2a20), (0x200, 0x2800)] \<and>
   shannon_gfp_xlate env_v6_8 0x10 AND GFP_DIRECT_RECLAIM env_v6_8 \<noteq> 0 \<and>
   shannon_gfp_xlate_selftest env_v6_8 = Some [(0x10, 0xc00), (0x220, 0x2820), (0x200, 0x2800)]"
  using gfp_core_values [OF env_v6_8_modern] gfp_core_values [OF env_v5_15_modern]
  by (simp add: env_v6_8_def env_v5_15_def)

text \<open>All the bits the decoder can set, apart from those of \<open>__GFP_NOFAIL\<close>.\<close>

definition other_gfp_bits :: "gfp_env \<Rightarrow> u32" where
  "other_gfp_bits e = GFP_RECLAIM e OR GFP_ATOMIC e OR GFP_IO e OR GFP_FS e OR GFP_NOWARN e OR
     (case GFP_RETRY_MAYFAIL e of Some r \<Rightarrow> r | None \<Rightarrow> GFP_REPEAT e) OR GFP_NORETRY e OR
     GFP_COMP e OR GFP_ZERO e OR GFP_KSWAPD_RECLAIM e OR SHANNON_LEGACY_GFP_ZONE_MASK"

lemma if_and_eq0: "b AND x = 0 \<Longrightarrow> (if c then b else 0) AND x = (0 :: ('a::len) word)"
  by simp

lemma decode_drops:
  assumes "\<not> wait_defined e" and "other_gfp_bits e AND x = 0"
    and "v AND SHANNON_LEGACY_GFP_NOFAIL = 0"
  shows "shannon_gfp_decode_legacy e v AND x = 0"
proof -
  have bits: "GFP_RECLAIM e AND x = 0" "GFP_ATOMIC e AND x = 0" "GFP_IO e AND x = 0"
    "GFP_FS e AND x = 0" "GFP_NOWARN e AND x = 0"
    "(case GFP_RETRY_MAYFAIL e of Some r \<Rightarrow> r | None \<Rightarrow> GFP_REPEAT e) AND x = 0"
    "GFP_NORETRY e AND x = 0" "GFP_COMP e AND x = 0" "GFP_ZERO e AND x = 0"
    "GFP_KSWAPD_RECLAIM e AND x = 0" "SHANNON_LEGACY_GFP_ZONE_MASK AND x = 0"
    using assms(2) unfolding other_gfp_bits_def and_or_eq0 by auto
  have "(v AND SHANNON_LEGACY_GFP_ZONE_MASK) AND x = 0"
    using bits(11) by (simp add: and.assoc)
  then have "(g0 OR (v AND SHANNON_LEGACY_GFP_ZONE_MASK)) AND x = 0" if "g0 AND x = 0" for g0
    using that by (simp add: and_or_eq0)
  moreover have "or_if v m b g AND x = 0" if "b AND x = 0" "g AND x = 0" for m b g
    using that by (simp add: or_if_def and_or_eq0)
  moreover have "or_if v SHANNON_LEGACY_GFP_NOFAIL b g = g" for b g
    using assms(3) by (simp add: or_if_def)
  ultimately show ?thesis
    using assms(1) bits by (simp add: shannon_gfp_decode_legacy_def Let_def and_or_eq0)
qed

text \<open>The translation never makes an allocation unfailable by accident: a value
  classified as legacy that does not ask for \<open>__GFP_NOFAIL\<close> in the legacy encoding has no
  \<open>__GFP_NOFAIL\<close> after translation, on every kernel whose \<open>__GFP_NOFAIL\<close> bit is not part of
  another flag.\<close>

theorem gfp_no_nofail:
  assumes "shannon_gfp_is_legacy e v" and "v AND SHANNON_LEGACY_GFP_NOFAIL = 0"
    and "other_gfp_bits e AND GFP_NOFAIL e = 0"
  shows "shannon_gfp_xlate e v AND GFP_NOFAIL e = 0"
  using decode_drops [OF _ assms(3,2)] assms(1) legacy_bits [OF assms(1)]
  by (simp add: shannon_gfp_xlate_def)

theorem gfp_no_nofail_witness: "shannon_gfp_xlate env_v6_8 0x8230 AND 0x8000 = 0"
proof -
  have "shannon_gfp_xlate env_v6_8 0x8230 AND GFP_NOFAIL env_v6_8 = 0"
    by (rule gfp_no_nofail)
       (simp_all add: env_v6_8_def shannon_gfp_is_legacy_def other_gfp_bits_def shannon_defs)
  then show ?thesis by (simp add: env_v6_8_def)
qed

text \<open>The bits on which the slab translation depends lie inside the known mask.\<close>

lemma and_known:
  "m AND k = m \<Longrightarrow> (v AND k) AND m = v AND (m :: ('a::len) word)"
  by (metis and.assoc and.commute)

text \<open>Slab flags: on a kernel that kept the old values nothing changes; otherwise
  the core's \<open>SLAB_HWCACHE_ALIGN\<close> becomes this kernel's, the bits reported as unknown are
  exactly those outside the known mask, and they do not influence the result, so a
  reported flag is really dropped and an unreported call translates only known flags.\<close>

theorem slab_flags_translation:
  "shannon_slab_flags_xlate e SHANNON_LEGACY_SLAB_HWCACHE_ALIGN = SLAB_HWCACHE_ALIGN e \<and>
   (if shannon_slab_flags_native e
    then shannon_slab_flags_xlate e v = v \<and> shannon_slab_flags_unknown e v = 0
    else shannon_slab_flags_unknown e v = v AND NOT 0x1fef00 \<and>
      shannon_slab_flags_xlate e (v AND NOT (shannon_slab_flags_unknown e v)) =
        shannon_slab_flags_xlate e v)"
proof -
  have mask: "SHANNON_LEGACY_SLAB_KNOWN_MASK = 0x1fef00"
    by (simp add: SHANNON_LEGACY_SLAB_KNOWN_MASK_def SHANNON_LEGACY_SLAB_HWCACHE_ALIGN_def)
  have keep: "v AND NOT (v AND NOT k) = v AND k" for k :: u64
    by (auto simp: bit_eq_iff bit_simps)
  have "shannon_slab_flags_xlate e SHANNON_LEGACY_SLAB_HWCACHE_ALIGN = SLAB_HWCACHE_ALIGN e"
    by (simp add: shannon_slab_flags_xlate_def shannon_slab_flags_native_def or_if_opt_bits
        or_if_bits SHANNON_LEGACY_SLAB_HWCACHE_ALIGN_def Let_def)
  moreover have "shannon_slab_flags_xlate e (v AND 0x1fef00) = shannon_slab_flags_xlate e v"
    if "\<not> shannon_slab_flags_native e"
    using that
    by (simp add: shannon_slab_flags_xlate_def or_if_opt_bits or_if_bits and_known Let_def
        SHANNON_LEGACY_SLAB_HWCACHE_ALIGN_def)
  moreover have "shannon_slab_flags_xlate e v = v" if "shannon_slab_flags_native e"
    using that by (simp add: shannon_slab_flags_xlate_def)
  ultimately show ?thesis
    unfolding shannon_slab_flags_unknown_def mask by (simp only: keep if_False if_True split: if_split) auto
qed

end
