(* ===== verification/Scatter.thy ===== *)
theory Scatter
  imports Prelude
begin

text \<open>
  \<^verbatim>\<open>shannon_scatter.c\<close>: the scatter-gather table. A table is the list of its entries and a
  \<open>shannon_sg_list_t *\<close> into it is an optional index (\<open>None\<close> is NULL). Reading or writing through
  NULL, or beyond the table, is a crash: the accessors then return \<open>None\<close>. The end
  marker of the kernel's \<^verbatim>\<open>struct scatterlist\<close> (the low bits of \<open>page_link\<close>) is a field of the
  entry that \<open>sg_set_page\<close> keeps. The configuration modelled is Linux 2.6.24 and later, where the
  marker exists.
\<close>

section \<open>Tables, pointers and accessors\<close>

record sg_entry =
  sge_page :: ptr
  sge_offset :: nat
  sge_length :: nat
  sge_dma :: u64
  sge_end :: bool

type_synonym sg_table = "sg_entry list"
type_synonym sg_ptr = "nat option"

definition zero_sge :: sg_entry where
  "zero_sge = \<lparr>sge_page = 0, sge_offset = 0, sge_length = 0, sge_dma = 0, sge_end = False\<rparr>"

definition sg_deref :: "sg_table \<Rightarrow> sg_ptr \<Rightarrow> sg_entry option" where
  "sg_deref t p = (case p of None \<Rightarrow> None | Some i \<Rightarrow> if i < length t then Some (t ! i) else None)"

definition sg_store :: "sg_table \<Rightarrow> sg_ptr \<Rightarrow> (sg_entry \<Rightarrow> sg_entry) \<Rightarrow> sg_table option" where
  "sg_store t p f =
    (case p of None \<Rightarrow> None | Some i \<Rightarrow> if i < length t then Some (t[i := f (t ! i)]) else None)"

definition shannon_sg_dma_address :: "sg_table \<Rightarrow> sg_ptr \<Rightarrow> u64 option" where
  "shannon_sg_dma_address t sg = map_option sge_dma (sg_deref t sg)"

definition shannon_sg_set_dma_address :: "sg_table \<Rightarrow> sg_ptr \<Rightarrow> u64 \<Rightarrow> sg_table option" where
  "shannon_sg_set_dma_address t sg a = sg_store t sg (\<lambda>e. e\<lparr>sge_dma := a\<rparr>)"

definition shannon_sg_page :: "sg_table \<Rightarrow> sg_ptr \<Rightarrow> ptr option" where
  "shannon_sg_page t sg = map_option sge_page (sg_deref t sg)"

definition shannon_sg_offset :: "sg_table \<Rightarrow> sg_ptr \<Rightarrow> nat option" where
  "shannon_sg_offset t sg = map_option sge_offset (sg_deref t sg)"

definition shannon_sg_length :: "sg_table \<Rightarrow> sg_ptr \<Rightarrow> nat option" where
  "shannon_sg_length t sg = map_option sge_length (sg_deref t sg)"

definition shannon_sg_mark_end :: "sg_table \<Rightarrow> sg_ptr \<Rightarrow> sg_table option" where
  "shannon_sg_mark_end t sg = sg_store t sg (\<lambda>e. e\<lparr>sge_end := True\<rparr>)"

definition shannon_sg_set_page :: "sg_table \<Rightarrow> sg_ptr \<Rightarrow> ptr \<Rightarrow> nat \<Rightarrow> nat \<Rightarrow> sg_table option" where
  "shannon_sg_set_page t sg page len offset =
     sg_store t sg (\<lambda>e. e\<lparr>sge_page := page, sge_offset := offset, sge_length := len\<rparr>)"

definition shannon_sg_next :: "sg_table \<Rightarrow> sg_ptr \<Rightarrow> sg_ptr option" where
  "shannon_sg_next t sg =
    (case sg_deref t sg of None \<Rightarrow> None
     | Some e \<Rightarrow> Some (if sge_end e then None else map_option Suc sg))"

text \<open>\<open>shannon_sg_virt\<close>: the kernel address of the entry's data, given \<open>page_address\<close>.\<close>

definition shannon_sg_virt :: "(ptr \<Rightarrow> nat) \<Rightarrow> sg_table \<Rightarrow> sg_ptr \<Rightarrow> nat option" where
  "shannon_sg_virt page_address t sg =
     map_option (\<lambda>e. page_address (sge_page e) + sge_offset e) (sg_deref t sg)"

section \<open>Allocation and initialisation\<close>

text \<open>The size of the kernel's \<^verbatim>\<open>struct scatterlist\<close> on x86\_64.\<close>

definition sizeof_scatterlist :: nat where "sizeof_scatterlist = 32"
definition SIZE_MAX :: nat where "SIZE_MAX = 2 ^ 64 - 1"

text \<open>\<open>kzalloc\<close> and \<open>vzalloc\<close> are parameters that say whether memory is available; what they return
  is zeroed.\<close>

definition shannon_sg_alloc ::
    "(nat \<Rightarrow> u32 \<Rightarrow> bool) \<Rightarrow> u32 \<Rightarrow> nat \<Rightarrow> u32 \<Rightarrow> sg_table option" where
  "shannon_sg_alloc kzalloc GFP_NOWARN nents gfp_mask =
    (if nents > SIZE_MAX div sizeof_scatterlist then None
     else
      let sz = sizeof_scatterlist * nents;
          gfp_mask = (if sz > PAGE_SIZE then gfp_mask OR GFP_NOWARN else gfp_mask)
      in if kzalloc sz gfp_mask then Some (replicate nents zero_sge) else None)"

definition shannon_sg_vzalloc :: "(nat \<Rightarrow> bool) \<Rightarrow> nat \<Rightarrow> sg_table option" where
  "shannon_sg_vzalloc vzalloc nents =
    (let sz = sizeof_scatterlist * nents
     in if vzalloc sz then Some (replicate nents zero_sge) else None)"

text \<open>\<open>sg_init_table\<close> clears the table and marks its last entry.\<close>

definition shannon_sg_init_table :: "sg_table \<Rightarrow> nat \<Rightarrow> sg_table option" where
  "shannon_sg_init_table t nents =
    (if nents > length t then None
     else shannon_sg_mark_end (replicate nents zero_sge @ drop nents t)
            (if nents = 0 then None else Some (nents - 1)))"

section \<open>Walking and filling a table\<close>

text \<open>\<open>shannon_for_each_sg(sglist, sg, nr, i)\<close>: the entries its body sees. The step expression
  runs after every iteration, the last one included.\<close>

fun for_each_sg :: "sg_table \<Rightarrow> sg_ptr \<Rightarrow> nat \<Rightarrow> sg_entry list option" where
  "for_each_sg t sg 0 = Some []"
| "for_each_sg t sg (Suc n) =
    (case sg_deref t sg of None \<Rightarrow> None
     | Some e \<Rightarrow>
        (case shannon_sg_next t sg of None \<Rightarrow> None
         | Some sg' \<Rightarrow> map_option (Cons e) (for_each_sg t sg' n)))"

text \<open>
  The conversion loops of \<^verbatim>\<open>shannon_block.c\<close> and \<^verbatim>\<open>shannon_scsi.c\<close> share three statements:
  advance (\<open>sg = sg ? shannon_sg_next(sg) : table\<close>), set the page, count.
\<close>

record sg_cursor =
  cur_table :: sg_table
  cur_sg :: sg_ptr
  cur_used :: nat

definition sg_append :: "sg_cursor \<Rightarrow> ptr \<Rightarrow> nat \<Rightarrow> nat \<Rightarrow> sg_cursor option" where
  "sg_append c page len offset =
    (let next = (case cur_sg c of None \<Rightarrow> Some (Some 0) | Some _ \<Rightarrow> shannon_sg_next (cur_table c) (cur_sg c))
     in case next of None \<Rightarrow> None
        | Some sg \<Rightarrow>
           (case shannon_sg_set_page (cur_table c) sg page len offset of None \<Rightarrow> None
            | Some t \<Rightarrow> Some \<lparr>cur_table = t, cur_sg = sg, cur_used = cur_used c + 1\<rparr>))"

text \<open>An initialised table: only the last entry carries the end marker.\<close>

definition sg_fresh :: "sg_table \<Rightarrow> bool" where
  "sg_fresh t \<longleftrightarrow> t \<noteq> [] \<and> (\<forall>i < length t. sge_end (t ! i) \<longleftrightarrow> Suc i = length t)"

text \<open>The abstraction of a table filled from its start: the triples in the used entries.\<close>

type_synonym chunk = "ptr \<times> nat \<times> nat"

definition chunk_of :: "sg_entry \<Rightarrow> chunk" where
  "chunk_of e = (sge_page e, sge_length e, sge_offset e)"

definition cursor_repr :: "sg_cursor \<Rightarrow> chunk list \<Rightarrow> bool" where
  "cursor_repr c cs \<longleftrightarrow> sg_fresh (cur_table c) \<and> cur_used c = length cs \<and>
     length cs \<le> length (cur_table c) \<and>
     cur_sg c = (if cs = [] then None else Some (length cs - 1)) \<and>
     map chunk_of (take (length cs) (cur_table c)) = cs"

section \<open>Lemmas\<close>

lemma sg_init_table_fresh:
  "0 < n \<Longrightarrow> \<exists>t'. shannon_sg_init_table (replicate n zero_sge) n = Some t' \<and> sg_fresh t' \<and>
     length t' = n"
  by (auto simp: shannon_sg_init_table_def shannon_sg_mark_end_def sg_store_def sg_fresh_def
      zero_sge_def nth_list_update)

lemma cursor_repr_Nil:
  "sg_fresh t \<Longrightarrow> cursor_repr \<lparr>cur_table = t, cur_sg = None, cur_used = 0\<rparr> []"
  by (simp add: cursor_repr_def)

lemma sg_fresh_update:
  "sg_fresh t \<Longrightarrow> (\<And>e. sge_end (f e) = sge_end e) \<Longrightarrow> sg_fresh (t[i := f (t ! i)])"
  by (cases "i < length t") (auto simp: sg_fresh_def nth_list_update)

lemma sg_append_repr:
  assumes r: "cursor_repr c cs" and room: "length cs < length (cur_table c)"
  shows "\<exists>c'. sg_append c page len offset = Some c' \<and> cursor_repr c' (cs @ [(page, len, offset)]) \<and>
     length (cur_table c') = length (cur_table c)"
proof -
  let ?t = "cur_table c" and ?n = "length cs"
  let ?f = "\<lambda>e. e\<lparr>sge_page := page, sge_offset := offset, sge_length := len\<rparr>"
  have fresh: "sg_fresh ?t" and used: "cur_used c = ?n" and filled: "map chunk_of (take ?n ?t) = cs"
    and sg: "cur_sg c = (if cs = [] then None else Some (?n - 1))"
    using r by (auto simp: cursor_repr_def)
  have next_sg: "(case cur_sg c of None \<Rightarrow> Some (Some 0) | Some _ \<Rightarrow> shannon_sg_next ?t (cur_sg c)) =
      Some (Some ?n)"
  proof (cases "cs = []")
    case False
    then have "?n - 1 < length ?t" "\<not> sge_end (?t ! (?n - 1))"
      using fresh room by (auto simp: sg_fresh_def)
    then show ?thesis using sg False by (simp add: shannon_sg_next_def sg_deref_def)
  qed (simp add: sg)
  let ?t' = "?t[?n := ?f (?t ! ?n)]"
  have "shannon_sg_set_page ?t (Some ?n) page len offset = Some ?t'"
    using room by (simp add: shannon_sg_set_page_def sg_store_def)
  then have app: "sg_append c page len offset =
      Some \<lparr>cur_table = ?t', cur_sg = Some ?n, cur_used = ?n + 1\<rparr>"
    using next_sg used by (simp add: sg_append_def Let_def)
  have "sg_fresh ?t'" by (rule sg_fresh_update [OF fresh]) simp
  moreover have "map chunk_of (take (Suc ?n) ?t') = cs @ [(page, len, offset)]"
    using room filled by (simp add: take_Suc_conv_app_nth chunk_of_def)
  ultimately show ?thesis using app room by (simp add: cursor_repr_def)
qed

lemma for_each_sg_prefix:
  "(\<And>i. i < k + n \<Longrightarrow> i < length t) \<Longrightarrow>
   (\<And>i. i + 1 < k + n \<Longrightarrow> \<not> sge_end (t ! i)) \<Longrightarrow>
   for_each_sg t (Some k) n = Some (take n (drop k t))"
proof (induction n arbitrary: k)
  case (Suc n)
  have k: "k < length t" using Suc.prems(1) by simp
  then have d: "drop k t = t ! k # drop (Suc k) t" by (simp add: Cons_nth_drop_Suc)
  show ?case
  proof (cases n)
    case 0
    then show ?thesis using k d by (simp add: sg_deref_def shannon_sg_next_def)
  next
    case (Suc m)
    then have "\<not> sge_end (t ! k)" using Suc.prems(2) by simp
    moreover have "for_each_sg t (Some (Suc k)) n = Some (take n (drop (Suc k) t))"
      using Suc.prems by (intro Suc.IH) auto
    ultimately show ?thesis using k d by (simp add: sg_deref_def shannon_sg_next_def)
  qed
qed simp

section \<open>The interface the converters rely on\<close>

text \<open>
  A converter only appends to its table. The locale states what it needs: while there is room,
  appending succeeds, adds exactly the given triple at the end and keeps the capacity. That a
  whole list of appends succeeds when it fits follows.
\<close>

locale sg_writer =
  fixes repr :: "'c \<Rightarrow> 'x list \<Rightarrow> bool"
    and capacity :: "'c \<Rightarrow> nat"
    and append1 :: "'c \<Rightarrow> 'x \<Rightarrow> 'c option"
  assumes append1_ok: "repr c xs \<Longrightarrow> length xs < capacity c \<Longrightarrow>
      \<exists>c'. append1 c x = Some c' \<and> repr c' (xs @ [x]) \<and> capacity c' = capacity c"
begin

lemma append_all:
  "repr c xs \<Longrightarrow> length xs + length ys \<le> capacity c \<Longrightarrow>
   \<exists>c'. fold_opt (\<lambda>y c. append1 c y) ys c = Some c' \<and> repr c' (xs @ ys) \<and>
        capacity c' = capacity c"
proof (induction ys arbitrary: c xs)
  case (Cons y ys)
  obtain c1 where c1: "append1 c y = Some c1" "repr c1 (xs @ [y])" "capacity c1 = capacity c"
    using append1_ok [OF Cons.prems(1), of y] Cons.prems(2) by auto
  then show ?case using Cons.IH [OF c1(2)] Cons.prems(2) by auto
qed simp

end

definition sg_append_chunk :: "sg_cursor \<Rightarrow> chunk \<Rightarrow> sg_cursor option" where
  "sg_append_chunk c ch = (case ch of (page, len, offset) \<Rightarrow> sg_append c page len offset)"

interpretation sgw: sg_writer cursor_repr "\<lambda>c. length (cur_table c)" sg_append_chunk
  by unfold_locales (auto simp: sg_append_chunk_def dest: sg_append_repr split: prod.split)

end
