(* ===== verification/Bio_Convert.thy ===== *)
theory Bio_Convert
  imports Scatter
begin

text \<open>
  The conversion of a block-layer bio into the scatter-gather table of a \<open>struct shannon_bio\<close>
  (\<^verbatim>\<open>shannon_block.c\<close>: \<open>shannon_alloc_bounce_pages\<close>, \<open>shannon_copy_bounce_pages\<close>,
  \<open>shannon_free_bounce_pages\<close>, \<open>shannon_convert_bio\<close>). The table is cut so that no entry crosses a
  page or a logical block of the flash; a bio whose segments are not 8-byte aligned goes through
  bounce pages. The memory is a map from byte addresses; \<open>page_address\<close> of page \<open>p\<close> is
  \<open>p * PAGE_SIZE\<close> (the 64-bit direct map, which the source's comment presumes). Sizes are naturals:
  the C variables are \<open>int\<close> and a bio is far below 2 GB.
\<close>

section \<open>Data\<close>

record bvec =
  bv_page :: ptr
  bv_offset :: nat
  bv_len :: nat

text \<open>\<open>bi_iter_segs\<close> is what \<open>bio_for_each_segment\<close> yields: each segment with the value of
  \<open>iter.bi_idx\<close> at that point.\<close>

record bio =
  bi_io_vec :: bool
  bi_iter_segs :: "(nat \<times> bvec) list"
  bi_idx :: nat
  bi_size :: nat
  bi_sector :: u64

datatype dma_dir = SHANNON_DMA_TODEVICE | SHANNON_DMA_FROMDEVICE

record shannon_bio =
  sb_dma_dir :: dma_dir
  sb_start_sector :: u64
  sb_bio_size :: nat
  sb_first_size :: nat
  sb_has_hole :: bool
  sb_segments :: nat
  sb_is_valloc :: bool
  sb_sg_count :: nat
  sb_used_sg_count :: nat
  sb_sg :: "sg_table option"
  sb_need_bounce :: bool

type_synonym memory = "nat \<Rightarrow> u8"

text \<open>The kernel services the conversion calls; \<open>k_alloc_page i\<close> is the result of the \<open>i\<close>-th call.\<close>

record kenv =
  k_kzalloc :: "nat \<Rightarrow> u32 \<Rightarrow> bool"
  k_vzalloc :: "nat \<Rightarrow> bool"
  k_alloc_page :: "nat \<Rightarrow> ptr option"
  k_GFP_SHANNON :: u32
  k_GFP_NOWARN :: u32

definition shannon_bio_segments :: "bio \<Rightarrow> nat" where
  "shannon_bio_segments b = length (bi_iter_segs b)"

definition get_bi_size :: "bio \<Rightarrow> nat" where "get_bi_size b = bi_size b"

definition get_bi_sector :: "bio \<Rightarrow> u64" where "get_bi_sector b = bi_sector b"

section \<open>Bounce pages\<close>

text \<open>The result of the loop: the table, the next entry, the number of pages obtained, and whether
  all of them were. \<open>k\<close> counts the iterations left.\<close>

fun bounce_loop :: "(nat \<Rightarrow> ptr option) \<Rightarrow> nat \<Rightarrow> int \<Rightarrow> nat \<Rightarrow> nat \<Rightarrow> nat \<Rightarrow> nat \<Rightarrow> sg_table \<Rightarrow> sg_ptr \<Rightarrow>
    (sg_table \<times> sg_ptr \<times> nat \<times> bool) option" where
  "bounce_loop pg first_sz first_off last_len page_cnt 0 i t sge = Some (t, sge, i, True)"
| "bounce_loop pg first_sz first_off last_len page_cnt (Suc k) i t sge =
    (case pg i of None \<Rightarrow> Some (t, sge, i, False)
     | Some page \<Rightarrow>
        (case (if i = 0 \<and> first_off \<noteq> 0
               then shannon_sg_set_page t sge page first_sz (nat (first_off mod 2 ^ 32))
               else if i = page_cnt - 1 \<and> last_len \<noteq> 0
               then shannon_sg_set_page t sge page last_len 0
               else shannon_sg_set_page t sge page PAGE_SIZE 0) of None \<Rightarrow> None
         | Some t' \<Rightarrow>
            (case shannon_sg_next t' sge of None \<Rightarrow> None
             | Some sge' \<Rightarrow>
                bounce_loop pg first_sz first_off last_len page_cnt k (Suc i) t' sge')))"

text \<open>The result: the return value, the table, and the pages given back to the kernel.\<close>

definition shannon_alloc_bounce_pages ::
    "(nat \<Rightarrow> ptr option) \<Rightarrow> sg_table \<Rightarrow> nat \<Rightarrow> nat \<Rightarrow> (int \<times> sg_table \<times> ptr list) option" where
  "shannon_alloc_bounce_pages pg sgtable first_sz total_size =
    (let page_cnt = (if first_sz \<noteq> 0 then 1 else 0);
         first_off = (if first_sz \<noteq> 0 then int PAGE_SIZE - int first_sz else 0);
         page_cnt = page_cnt + (total_size - first_sz) div PAGE_SIZE;
         last_len = (total_size - first_sz) mod PAGE_SIZE;
         page_cnt = (if last_len \<noteq> 0 then page_cnt + 1 else page_cnt)
     in case bounce_loop pg first_sz first_off last_len page_cnt page_cnt 0 sgtable (Some 0) of
          None \<Rightarrow> None
        | Some (t, sge, i, True) \<Rightarrow>
            (case shannon_sg_mark_end t sge of None \<Rightarrow> None
             | Some t' \<Rightarrow> Some (int page_cnt, t', []))
        | Some (t, sge, i, False) \<Rightarrow>
            (case for_each_sg t (Some 0) i of None \<Rightarrow> None
             | Some es \<Rightarrow> Some (- ENOMEM, t, map sge_page es)))"

definition page_address :: "ptr \<Rightarrow> nat" where "page_address page = page * PAGE_SIZE"

definition memcpy :: "memory \<Rightarrow> nat \<Rightarrow> nat \<Rightarrow> nat \<Rightarrow> memory" where
  "memcpy m dst src n = (\<lambda>a. if dst \<le> a \<and> a < dst + n then m (src + (a - dst)) else m a)"

text \<open>The position in the table while copying.\<close>

record copy_st =
  cp_mem :: memory
  cp_sge :: sg_ptr
  cp_len :: nat
  cp_off :: nat

text \<open>One round of the \<open>do ... while (bvec_len > 0)\<close> loop: the number of bytes copied and the new
  position, which moves to the next entry when this one is used up.\<close>

definition copy_step :: "sg_table \<Rightarrow> bool \<Rightarrow> ptr \<Rightarrow> nat \<Rightarrow> nat \<Rightarrow> copy_st \<Rightarrow> (nat \<times> copy_st) option" where
  "copy_step t to_sg page bvec_offset bvec_len s =
    (case shannon_sg_page t (cp_sge s) of None \<Rightarrow> None
     | Some sg_pg \<Rightarrow>
        let copy_len = (if cp_len s > bvec_len then bvec_len else cp_len s);
            bvec_addr = page_address page + bvec_offset;
            sge_addr = page_address sg_pg + cp_off s;
            m = (if to_sg then memcpy (cp_mem s) sge_addr bvec_addr copy_len
                 else memcpy (cp_mem s) bvec_addr sge_addr copy_len);
            s1 = s\<lparr>cp_mem := m, cp_off := cp_off s + copy_len, cp_len := cp_len s - copy_len\<rparr>
        in if cp_len s1 = 0 then
             (case shannon_sg_next t (cp_sge s1) of None \<Rightarrow> None
              | Some sge \<Rightarrow>
                 (case sg_deref t sge of None \<Rightarrow> None
                  | Some e \<Rightarrow> Some (copy_len, s1\<lparr>cp_sge := sge, cp_len := sge_length e,
                                               cp_off := sge_offset e\<rparr>)))
           else Some (copy_len, s1))"

text \<open>Each round copies at least one byte as long as the current entry is not empty, so
  \<open>bv_len + 1\<close> rounds of fuel are enough.\<close>

fun copy_segment :: "nat \<Rightarrow> sg_table \<Rightarrow> bool \<Rightarrow> ptr \<Rightarrow> nat \<Rightarrow> nat \<Rightarrow> copy_st \<Rightarrow> copy_st option" where
  "copy_segment 0 t to_sg page bvec_offset bvec_len s = None"
| "copy_segment (Suc k) t to_sg page bvec_offset bvec_len s =
    (case copy_step t to_sg page bvec_offset bvec_len s of None \<Rightarrow> None
     | Some (copy_len, s') \<Rightarrow>
        if bvec_len - copy_len > 0
        then copy_segment k t to_sg page (bvec_offset + copy_len) (bvec_len - copy_len) s'
        else Some s')"

definition shannon_copy_bounce_pages ::
    "memory \<Rightarrow> bio \<Rightarrow> sg_table \<Rightarrow> bool \<Rightarrow> memory option" where
  "shannon_copy_bounce_pages m b sgtable to_sg =
    (case sg_deref sgtable (Some 0) of None \<Rightarrow> None
     | Some e \<Rightarrow>
        map_option cp_mem (fold_opt
          (\<lambda>(_, bv) s. copy_segment (bv_len bv + 1) sgtable to_sg (bv_page bv) (bv_offset bv)
             (bv_len bv) s)
          (bi_iter_segs b)
          \<lparr>cp_mem = m, cp_sge = Some 0, cp_len = sge_length e, cp_off = sge_offset e\<rparr>))"

text \<open>The pages handed to \<open>__free_page\<close>, in order.\<close>

definition shannon_free_bounce_pages :: "sg_table \<Rightarrow> nat \<Rightarrow> ptr list option" where
  "shannon_free_bounce_pages sgtable count =
     map_option (map sge_page) (for_each_sg sgtable (Some 0) count)"

section \<open>Mapping segments to entries\<close>

record conv_st =
  cv_cur :: sg_cursor
  cv_remained :: nat

text \<open>The body of the inner \<open>while (offset < bv_len)\<close> loop: the bytes mapped and the new state.\<close>

definition map_step :: "nat \<Rightarrow> bvec \<Rightarrow> nat \<Rightarrow> conv_st \<Rightarrow> (nat \<times> conv_st) option" where
  "map_step logicb_size bv offset s =
    (let page_offset = bv_offset bv + offset;
         mappable_size = PAGE_SIZE - (page_offset AND (PAGE_SIZE - 1));
         mappable_size = (if mappable_size > bv_len bv - offset then bv_len bv - offset
                          else mappable_size);
         map_size = (if mappable_size < cv_remained s then mappable_size else cv_remained s);
         remained = cv_remained s - map_size;
         remained = (if remained = 0 then logicb_size else remained)
     in case sg_append (cv_cur s) (bv_page bv + page_offset div PAGE_SIZE) map_size
               (page_offset mod PAGE_SIZE) of None \<Rightarrow> None
        | Some c \<Rightarrow> Some (map_size, \<lparr>cv_cur = c, cv_remained = remained\<rparr>))"

text \<open>The loop; \<open>bv_len + 1\<close> rounds are enough.\<close>

fun map_segment :: "nat \<Rightarrow> nat \<Rightarrow> bvec \<Rightarrow> nat \<Rightarrow> conv_st \<Rightarrow> conv_st option" where
  "map_segment 0 logicb_size bv offset s = None"
| "map_segment (Suc k) logicb_size bv offset s =
    (if offset < bv_len bv then
       (case map_step logicb_size bv offset s of None \<Rightarrow> None
        | Some (map_size, s') \<Rightarrow> map_segment k logicb_size bv (offset + map_size) s')
     else Some s)"

text \<open>The two tests at the head of the outer loop.\<close>

definition hole_at :: "nat \<Rightarrow> nat \<Rightarrow> nat \<times> bvec \<Rightarrow> bool" where
  "hole_at first_idx nsegs ib = (case ib of (idx, bv) \<Rightarrow>
     (idx \<noteq> first_idx \<and> bv_offset bv \<noteq> 0) \<or>
     (int idx \<noteq> int nsegs - 1 \<and> bv_offset bv + bv_len bv \<noteq> 4096))"

text \<open>The code after the label \<open>old_fashion\<close>.\<close>

definition convert_old_fashion :: "shannon_bio \<Rightarrow> bio \<Rightarrow> nat \<Rightarrow> sg_table \<Rightarrow> shannon_bio option" where
  "convert_old_fashion sbio b logicb_size t =
    (let remained = (if sb_first_size sbio \<noteq> 0 then sb_first_size sbio else logicb_size);
         hole = sb_need_bounce sbio;
         hole = fold (\<lambda>ib h. if hole_at (bi_idx b) (sb_segments sbio) ib then True else h)
                  (bi_iter_segs b) hole
     in case fold_opt (\<lambda>(_, bv) s. map_segment (bv_len bv + 1) logicb_size bv 0 s) (bi_iter_segs b)
              \<lparr>cv_cur = \<lparr>cur_table = t, cur_sg = None, cur_used = 0\<rparr>, cv_remained = remained\<rparr> of
          None \<Rightarrow> None
        | Some s \<Rightarrow>
            (case shannon_sg_mark_end (cur_table (cv_cur s)) (cur_sg (cv_cur s)) of None \<Rightarrow> None
             | Some t' \<Rightarrow> Some (sbio\<lparr>sb_sg := Some t', sb_used_sg_count := cur_used (cv_cur s),
                                   sb_has_hole := hole, sb_need_bounce := False\<rparr>)))"

section \<open>shannon\_convert\_bio\<close>

definition needs_bounce :: "bio \<Rightarrow> bool" where
  "needs_bounce b = (\<exists>(_, bv) \<in> set (bi_iter_segs b). bv_offset bv AND 7 \<noteq> 0 \<or> bv_len bv AND 7 \<noteq> 0)"

definition first_size_of :: "u64 \<Rightarrow> nat \<Rightarrow> nat \<Rightarrow> nat" where
  "first_size_of sector bsize logicb_size =
    (let fs = logicb_size - unat (push_bit 9 sector AND (of_nat logicb_size - 1));
         fs = fs mod logicb_size
     in min bsize fs)"

text \<open>The part after the argument checks, common to both kernel configurations: the return value,
  the sbio, the memory and the pages given back.\<close>

definition convert_bio_body :: "kenv \<Rightarrow> memory \<Rightarrow> shannon_bio \<Rightarrow> bio \<Rightarrow> nat \<Rightarrow>
    (int \<times> shannon_bio \<times> memory \<times> ptr list) option" where
  "convert_bio_body k m sbio b logicb_size =
    (let sbio = sbio\<lparr>sb_bio_size := get_bi_size b, sb_segments := shannon_bio_segments b\<rparr>;
         sbio = sbio\<lparr>sb_sg_count := 2 * ((sb_bio_size sbio + logicb_size - 1) div logicb_size + sb_segments sbio)\<rparr>;
         sbio = sbio\<lparr>sb_sg := shannon_sg_alloc (k_kzalloc k) (k_GFP_NOWARN k) (sb_sg_count sbio) (k_GFP_SHANNON k)\<rparr>;
         sbio = (if sb_sg sbio = None
                 then (let v = shannon_sg_vzalloc (k_vzalloc k) (sb_sg_count sbio)
                       in if v = None then sbio\<lparr>sb_sg := None\<rparr> else sbio\<lparr>sb_sg := v, sb_is_valloc := True\<rparr>)
                 else sbio)
     in case sb_sg sbio of None \<Rightarrow> Some (- ENOMEM, sbio, m, [])
        | Some t0 \<Rightarrow>
           (case shannon_sg_init_table t0 (sb_sg_count sbio) of None \<Rightarrow> None
            | Some t \<Rightarrow>
               let sbio = sbio\<lparr>sb_sg := Some t, sb_start_sector := get_bi_sector b\<rparr>;
                   sbio = sbio\<lparr>sb_first_size := first_size_of (sb_start_sector sbio) (sb_bio_size sbio) logicb_size\<rparr>;
                   sbio = (if needs_bounce b then sbio\<lparr>sb_need_bounce := True\<rparr> else sbio)
               in if sb_need_bounce sbio then
                    (case shannon_alloc_bounce_pages (k_alloc_page k) t (sb_first_size sbio) (sb_bio_size sbio) of
                       None \<Rightarrow> None
                     | Some (ret, t', freed) \<Rightarrow>
                        if ret \<le> 0 then
                          map_option (\<lambda>sb. (0, sb, m, freed))
                            (convert_old_fashion (sbio\<lparr>sb_has_hole := False, sb_sg := Some t'\<rparr>) b logicb_size t')
                        else
                          let sbio = sbio\<lparr>sb_has_hole := False, sb_sg := Some t', sb_used_sg_count := nat ret\<rparr>
                          in if sb_dma_dir sbio = SHANNON_DMA_TODEVICE
                             then map_option (\<lambda>m'. (0, sbio, m', freed))
                                    (shannon_copy_bounce_pages m b t' True)
                             else Some (0, sbio, m, freed))
                  else map_option (\<lambda>sb. (0, sb, m, [])) (convert_old_fashion sbio b logicb_size t)))"

text \<open>Linux 3.14 and later: the arguments are checked first.\<close>

definition shannon_convert_bio :: "kenv \<Rightarrow> memory \<Rightarrow> shannon_bio \<Rightarrow> bio \<Rightarrow> nat \<Rightarrow>
    (int \<times> shannon_bio \<times> memory \<times> ptr list) option" where
  "shannon_convert_bio k m sbio b logicb_size =
    (if logicb_size = 0 then Some (- EINVAL, sbio, m, [])
     else if \<not> bi_io_vec b then Some (- EINVAL, sbio, m, [])
     else convert_bio_body k m sbio b logicb_size)"

text \<open>Before 3.14 they are not, and a zero block size divides by zero.\<close>

definition shannon_convert_bio_pre_3_14 :: "kenv \<Rightarrow> memory \<Rightarrow> shannon_bio \<Rightarrow> bio \<Rightarrow> nat \<Rightarrow>
    (int \<times> shannon_bio \<times> memory \<times> ptr list) option" where
  "shannon_convert_bio_pre_3_14 k m sbio b logicb_size =
    (if logicb_size = 0 then None else convert_bio_body k m sbio b logicb_size)"

section \<open>What the mapping loop computes\<close>

text \<open>The reference definition: cut \<open>n\<close> bytes that start at byte \<open>q\<close> of \<open>page\<close> into pieces that end at
  a page end, at the end of the data or after \<open>r\<close> more bytes of the logical block.\<close>

definition piece :: "nat \<Rightarrow> nat \<Rightarrow> nat \<Rightarrow> nat" where
  "piece q n r = min (min (4096 - q mod 4096) n) r"

function seg_chunks :: "nat \<Rightarrow> ptr \<Rightarrow> nat \<Rightarrow> nat \<Rightarrow> nat \<Rightarrow> chunk list \<times> nat" where
  "seg_chunks L page q n r =
    (if n = 0 \<or> r = 0 then ([], r)
     else let m = piece q n r;
              (cs, r') = seg_chunks L page (q + m) (n - m) (if m = r then L else r - m)
          in ((page + q div 4096, m, q mod 4096) # cs, r'))"
  by pat_completeness auto
termination
proof (relation "measure (\<lambda>(L, page, q, n, r). n)", goal_cases)
  case (2 L page q n r m)
  have "q mod 4096 < 4096" by simp
  with 2 show ?case by (auto simp: piece_def min_def)
qed simp

declare seg_chunks.simps [simp del]

lemma seg_chunks_0 [simp]: "seg_chunks L page q 0 r = ([], r)"
  by (simp add: seg_chunks.simps)

lemma seg_chunks_step:
  "0 < n \<Longrightarrow> 0 < r \<Longrightarrow> seg_chunks L page q n r =
     ((page + q div 4096, piece q n r, q mod 4096) #
        fst (seg_chunks L page (q + piece q n r) (n - piece q n r) (if piece q n r = r then L else r - piece q n r)),
      snd (seg_chunks L page (q + piece q n r) (n - piece q n r) (if piece q n r = r then L else r - piece q n r)))"
  by (subst seg_chunks.simps) (simp add: Let_def case_prod_beta)

lemma seg_chunks_cut:
  assumes "0 < n" "0 < r" "piece q n r = m" "m \<noteq> r"
  shows "fst (seg_chunks L page q n r) =
      (page + q div 4096, m, q mod 4096) # fst (seg_chunks L page (q + m) (n - m) (r - m))"
    and "snd (seg_chunks L page q n r) = snd (seg_chunks L page (q + m) (n - m) (r - m))"
  using seg_chunks_step [OF assms(1,2), of L page q] assms(3,4) by simp_all

lemma piece_bounds:
  "0 < n \<Longrightarrow> 0 < r \<Longrightarrow> 0 < piece q n r \<and> piece q n r \<le> n \<and> piece q n r \<le> r \<and> q mod 4096 + piece q n r \<le> 4096"
proof -
  have "q mod 4096 < 4096" by simp
  then show "0 < n \<Longrightarrow> 0 < r \<Longrightarrow> ?thesis" by (auto simp: piece_def min_def)
qed

lemma piece_cases: "piece q n r = n \<or> piece q n r = r \<or> q mod 4096 + piece q n r = 4096"
proof -
  have "q mod 4096 < 4096" by simp
  then show ?thesis by (auto simp: piece_def min_def)
qed

text \<open>Induction over the pieces: the data runs out, or one piece is cut off.\<close>

lemma seg_chunks_induct [consumes 2, case_names Done Cut]:
  assumes L: "0 < L" and r: "0 < r"
    and D: "\<And>q r. 0 < r \<Longrightarrow> P q 0 r"
    and C: "\<And>q n r. 0 < n \<Longrightarrow> 0 < r \<Longrightarrow>
              P (q + piece q n r) (n - piece q n r) (if piece q n r = r then L else r - piece q n r) \<Longrightarrow> P q n r"
  shows "P q n r"
  using r
proof (induction n arbitrary: q r rule: less_induct)
  case (less n)
  show ?case
  proof (cases "n = 0")
    case True
    with D less.prems show ?thesis by simp
  next
    case False
    then have n: "0 < n" by simp
    note b = piece_bounds [OF n less.prems, of q]
    show ?thesis
    proof (rule C [OF n less.prems])
      show "P (q + piece q n r) (n - piece q n r) (if piece q n r = r then L else r - piece q n r)"
        by (rule less.IH) (use b L n in auto)
    qed
  qed
qed

lemma and_page_mask: "q AND (PAGE_SIZE - 1) = q mod 4096"
proof -
  have "q AND mask 12 = take_bit 12 q" by (simp add: take_bit_eq_mask)
  moreover have "mask 12 = (4095 :: nat)" by (simp add: mask_eq_exp_minus_1)
  ultimately show ?thesis by (simp add: take_bit_eq_mod PAGE_SIZE_def)
qed

lemma map_step_cut:
  "map_step L bv offset \<lparr>cv_cur = c, cv_remained = r\<rparr> =
    (let q = bv_offset bv + offset; m = piece q (bv_len bv - offset) r
     in map_option (\<lambda>c'. (m, \<lparr>cv_cur = c', cv_remained = (if m = r then L else r - m)\<rparr>))
          (sg_append_chunk c (bv_page bv + q div 4096, m, q mod 4096)))"
proof -
  have pc: "(if (if 4096 - q mod 4096 > n then n else 4096 - q mod 4096) < r
         then (if 4096 - q mod 4096 > n then n else 4096 - q mod 4096) else r) = piece q n r" for q n
    by (auto simp: piece_def min_def)
  have rest: "(if r - piece q n r = 0 then L else r - piece q n r) =
      (if piece q n r = r then L else r - piece q n r)" for q n
    by (auto simp: piece_def)
  show ?thesis
    unfolding map_step_def Let_def conv_st.select_convs and_page_mask
    unfolding PAGE_SIZE_def pc rest sg_append_chunk_def by (simp split: option.split)
qed

lemma map_segment_chunks:
  assumes L: "0 < L"
  shows "0 < r \<Longrightarrow> offset \<le> bv_len bv \<Longrightarrow> bv_len bv - offset < k \<Longrightarrow>
   map_segment k L bv offset \<lparr>cv_cur = c, cv_remained = r\<rparr> =
     (let (cs, r') = seg_chunks L (bv_page bv) (bv_offset bv + offset) (bv_len bv - offset) r
      in map_option (\<lambda>c'. \<lparr>cv_cur = c', cv_remained = r'\<rparr>)
           (fold_opt (\<lambda>ch c. sg_append_chunk c ch) cs c))"
proof (induction k arbitrary: offset c r)
  case (Suc k)
  show ?case
  proof (cases "offset < bv_len bv")
    case False
    then have "bv_len bv - offset = 0" by simp
    with False show ?thesis by simp
  next
    case True
    define q n where "q = bv_offset bv + offset" and "n = bv_len bv - offset"
    define m where "m = piece q n r"
    define r1 where "r1 = (if m = r then L else r - m)"
    have m: "0 < m" "m \<le> n" "m \<le> r" "0 < n"
      using piece_bounds [of n r q] True Suc.prems(1) by (auto simp: m_def n_def)
    have "0 < r1" using L m by (simp add: r1_def)
    then have IH: "map_segment k L bv (offset + m) \<lparr>cv_cur = c', cv_remained = r1\<rparr> =
       (let (cs, r') = seg_chunks L (bv_page bv) (q + m) (n - m) r1
        in map_option (\<lambda>c'. \<lparr>cv_cur = c', cv_remained = r'\<rparr>)
             (fold_opt (\<lambda>ch c. sg_append_chunk c ch) cs c'))" for c'
      using Suc.IH [of r1 "offset + m" c'] m Suc.prems True
      by (simp add: q_def n_def add.assoc diff_diff_eq)
    have step: "map_step L bv offset \<lparr>cv_cur = c, cv_remained = r\<rparr> =
       map_option (\<lambda>c'. (m, \<lparr>cv_cur = c', cv_remained = r1\<rparr>))
          (sg_append_chunk c (bv_page bv + q div 4096, m, q mod 4096))"
      unfolding map_step_cut Let_def q_def [symmetric] n_def [symmetric] m_def [symmetric]
        r1_def [symmetric] by simp
    have chunks: "seg_chunks L (bv_page bv) q n r =
       ((bv_page bv + q div 4096, m, q mod 4096) # fst (seg_chunks L (bv_page bv) (q + m) (n - m) r1),
        snd (seg_chunks L (bv_page bv) (q + m) (n - m) r1))"
      using seg_chunks_step [of n r L "bv_page bv" q] m(4) Suc.prems(1)
      unfolding m_def [symmetric] r1_def [symmetric] .
    show ?thesis
      unfolding map_segment.simps step q_def [symmetric] n_def [symmetric] chunks
      using True IH by (simp add: case_prod_beta split: option.split)
  qed
qed simp

text \<open>The pieces of a list of segments.\<close>

fun segs_chunks :: "nat \<Rightarrow> (nat \<times> bvec) list \<Rightarrow> nat \<Rightarrow> chunk list" where
  "segs_chunks L [] r = []"
| "segs_chunks L ((_, bv) # segs) r =
    (let (cs, r') = seg_chunks L (bv_page bv) (bv_offset bv) (bv_len bv) r
     in cs @ segs_chunks L segs r')"

lemma seg_chunks_remained: "0 < L \<Longrightarrow> 0 < r \<Longrightarrow> 0 < snd (seg_chunks L page q n r)"
  by (induction rule: seg_chunks_induct [where q = q and n = n and r = r])
     (auto simp: seg_chunks_step)

lemma map_segments_chunks:
  "0 < L \<Longrightarrow> 0 < r \<Longrightarrow>
   map_option cv_cur
     (fold_opt (\<lambda>(_, bv) s. map_segment (bv_len bv + 1) L bv 0 s) segs \<lparr>cv_cur = c, cv_remained = r\<rparr>) =
   fold_opt (\<lambda>ch c. sg_append_chunk c ch) (segs_chunks L segs r) c"
proof (induction segs arbitrary: c r)
  case (Cons ib segs)
  obtain idx bv where ib: "ib = (idx, bv)" by (cases ib)
  obtain cs r' where sc: "seg_chunks L (bv_page bv) (bv_offset bv) (bv_len bv) r = (cs, r')"
    by (cases "seg_chunks L (bv_page bv) (bv_offset bv) (bv_len bv) r") auto
  have "0 < r'" using seg_chunks_remained [OF Cons.prems, of "bv_page bv" "bv_offset bv" "bv_len bv"] sc
    by simp
  with Cons.IH [OF Cons.prems(1)] show ?case
    using map_segment_chunks [OF Cons.prems, of 0 bv "bv_len bv + 1" c] sc
    by (auto simp: ib fold_opt_append split: option.split)
qed simp

section \<open>The pieces cover the data and respect both boundaries\<close>

definition chunk_bytes :: "chunk \<Rightarrow> nat list" where
  "chunk_bytes ch = (case ch of (page, len, offset) \<Rightarrow>
     [page * 4096 + offset ..< page * 4096 + offset + len])"

definition seg_bytes :: "bvec \<Rightarrow> nat list" where
  "seg_bytes bv = [bv_page bv * 4096 + bv_offset bv ..< bv_page bv * 4096 + bv_offset bv + bv_len bv]"

text \<open>Pieces laid end to end from byte \<open>p\<close> of the device: each is non-empty, inside one page and
  inside one logical block of \<open>L\<close> bytes.\<close>

fun aligned :: "nat \<Rightarrow> nat \<Rightarrow> chunk list \<Rightarrow> bool" where
  "aligned L p [] \<longleftrightarrow> True"
| "aligned L p ((page, len, offset) # cs) \<longleftrightarrow>
     0 < len \<and> offset + len \<le> 4096 \<and> p div L = (p + len - 1) div L \<and> aligned L (p + len) cs"

abbreviation total_len :: "(nat \<times> bvec) list \<Rightarrow> nat" where
  "total_len segs \<equiv> sum_list (map (\<lambda>ib. bv_len (snd ib)) segs)"

lemma block_step:
  fixes L p m :: nat
  assumes "0 < L" "m \<le> L - p mod L"
  shows "(if m = L - p mod L then L else (L - p mod L) - m) = L - (p + m) mod L"
    and "m = L - p mod L \<Longrightarrow> (p + m) div L = p div L + 1"
    and "0 < m \<Longrightarrow> (p + m - 1) div L = p div L"
proof -
  let ?d = "p mod L"
  have d: "?d < L" and p: "p = p div L * L + ?d" using assms(1) by auto
  have mod_eq: "(p + m) mod L = (?d + m) mod L" by (simp add: mod_add_left_eq)
  show "(if m = L - ?d then L else (L - ?d) - m) = L - (p + m) mod L"
  proof (cases "m = L - ?d")
    case True
    then have "?d + m = L" using d by simp
    then show ?thesis using True mod_eq by simp
  next
    case False
    then have "?d + m < L" using assms(2) by linarith
    then show ?thesis using False mod_eq by simp
  qed
  show "(p + m) div L = p div L + 1" if "m = L - ?d"
  proof -
    have "p + m = L + p div L * L" using that p d by linarith
    then show ?thesis using assms(1) by simp
  qed
  show "(p + m - 1) div L = p div L" if "0 < m"
  proof -
    have "p + m - 1 = p div L * L + (?d + m - 1)" using p that by linarith
    moreover have "?d + m - 1 < L" using assms that d by linarith
    ultimately show ?thesis using assms(1) by (simp add: div_mult_self3)
  qed
qed

lemma page_step:
  fixes q m :: nat
  assumes "q mod 4096 + m = 4096"
  shows "(q + m) div 4096 = q div 4096 + 1"
proof -
  have "q = q div 4096 * 4096 + q mod 4096" by simp
  then have "q + m = 4096 + q div 4096 * 4096" using assms by linarith
  then show ?thesis by simp
qed

lemma seg_chunks_remained_eq:
  "0 < L \<Longrightarrow> snd (seg_chunks L page q n (L - p mod L)) = L - (p + n) mod L"
proof -
  assume L: "0 < L"
  then have r: "0 < L - p mod L" by simp
  have "\<forall>p. r = L - p mod L \<longrightarrow> snd (seg_chunks L page q n r) = L - (p + n) mod L"
    if "0 < r" for r
    using L that
  proof (induction rule: seg_chunks_induct [where q = q and n = n and r = r])
    case (Cut q n r)
    show ?case
    proof (intro allI impI)
      fix p assume p: "r = L - p mod L"
      have b: "piece q n r \<le> n" "piece q n r \<le> r" using piece_bounds [OF Cut(1,2), of q] by auto
      have "(if piece q n r = r then L else r - piece q n r) = L - (p + piece q n r) mod L"
        using block_step(1) [OF L, of "piece q n r" p] b(2) unfolding p [symmetric] by blast
      with Cut.IH b show "snd (seg_chunks L page q n r) = L - (p + n) mod L"
        using Cut.hyps by (simp add: seg_chunks_step)
    qed
  qed simp
  with r show ?thesis by blast
qed

lemma seg_chunks_bytes:
  "0 < L \<Longrightarrow> 0 < r \<Longrightarrow>
   concat (map chunk_bytes (fst (seg_chunks L page q n r))) = [page * 4096 + q ..< page * 4096 + q + n]"
proof (induction rule: seg_chunks_induct [where q = q and n = n and r = r])
  case (Cut q n r)
  have b: "piece q n r \<le> n" using piece_bounds [OF Cut(1,2), of q] by simp
  have "(page + q div 4096) * 4096 + q mod 4096 = page * 4096 + q" by (simp add: algebra_simps)
  then have "chunk_bytes (page + q div 4096, piece q n r, q mod 4096) =
      [page * 4096 + q ..< page * 4096 + q + piece q n r]"
    by (simp only: chunk_bytes_def prod.case)
  then show ?case
    using Cut.IH Cut.hyps b upt_add_eq_append [of "page * 4096 + q" "page * 4096 + q + piece q n r"
        "n - piece q n r"]
    by (simp add: seg_chunks_step add.assoc)
qed simp

lemma seg_chunks_aligned_count:
  assumes L: "0 < L" and r: "0 < r"
  shows "\<forall>p. r = L - p mod L \<longrightarrow> aligned L p (fst (seg_chunks L page q n r)) \<and>
    sum_list (map (fst \<circ> snd) (fst (seg_chunks L page q n r))) = n \<and>
    (0 < n \<longrightarrow> length (fst (seg_chunks L page q n r)) + q div 4096 + p div L \<le>
                (q + n - 1) div 4096 + (p + n - 1) div L + 1)"
  using L r
proof (induction rule: seg_chunks_induct [where q = q and n = n and r = r])
  case (Cut q n r)
  define m where "m = piece q n r"
  define r1 where "r1 = (if m = r then L else r - m)"
  have b: "0 < m" "m \<le> n" "m \<le> r" "q mod 4096 + m \<le> 4096" "0 < n" "0 < r"
    using piece_bounds [OF Cut(1,2), of q] Cut(1,2) by (auto simp: m_def)
  let ?cs = "fst (seg_chunks L page (q + m) (n - m) r1)"
  have chunks: "fst (seg_chunks L page q n r) = (page + q div 4096, m, q mod 4096) # ?cs"
    using seg_chunks_step [OF Cut(1,2), of L page q] by (simp add: m_def r1_def)
  show ?case
  proof (intro allI impI)
    fix p assume p: "r = L - p mod L"
    have r1: "r1 = L - (p + m) mod L"
      using block_step(1) [OF L, of m p] b(3) unfolding p [symmetric] r1_def by blast
    note IH = Cut.IH [folded m_def, folded r1_def, rule_format, OF r1]
    have same: "(p + m - 1) div L = p div L" using block_step(3) [OF L, of m p] b p by simp
    have "length ((page + q div 4096, m, q mod 4096) # ?cs) + q div 4096 + p div L \<le>
        (q + n - 1) div 4096 + (p + n - 1) div L + 1"
    proof (cases "m = n")
      case True
      have "q div 4096 \<le> (q + n - 1) div 4096" "p div L \<le> (p + n - 1) div L"
        using b by (intro div_le_mono; simp)+
      then show ?thesis using True by simp
    next
      case False
      then have "1 + q div 4096 + p div L \<le> (q + m) div 4096 + (p + m) div L"
        using piece_cases [of q n r, folded m_def] page_step [of q m] block_step(2) [OF L, of m p] p b
          div_le_mono [of q "q + m" 4096] div_le_mono [of p "p + m" L] by auto
      moreover have "length ?cs + (q + m) div 4096 + (p + m) div L \<le>
          (q + n - 1) div 4096 + (p + n - 1) div L + 1"
        using IH False b by simp
      ultimately show ?thesis by simp
    qed
    then show "aligned L p (fst (seg_chunks L page q n r)) \<and>
      sum_list (map (fst \<circ> snd) (fst (seg_chunks L page q n r))) = n \<and>
      (0 < n \<longrightarrow> length (fst (seg_chunks L page q n r)) + q div 4096 + p div L \<le>
                (q + n - 1) div 4096 + (p + n - 1) div L + 1)"
      unfolding chunks using IH same b by simp
  qed
qed simp

lemma aligned_append:
  "aligned L p (cs @ ds) \<longleftrightarrow> aligned L p cs \<and> aligned L (p + sum_list (map (fst \<circ> snd) cs)) ds"
  by (induction L p cs rule: aligned.induct) (auto simp: add.assoc)

text \<open>The pages a segment crosses.\<close>

definition page_crossings :: "bvec \<Rightarrow> nat" where
  "page_crossings bv = (if bv_len bv = 0 then 0
     else (bv_offset bv + bv_len bv - 1) div 4096 - bv_offset bv div 4096)"

lemma segs_chunks_spec:
  assumes L: "0 < L"
  shows "aligned L p (segs_chunks L segs (L - p mod L)) \<and>
    concat (map chunk_bytes (segs_chunks L segs (L - p mod L))) = concat (map (seg_bytes \<circ> snd) segs) \<and>
    length (segs_chunks L segs (L - p mod L)) + p div L \<le>
      length segs + sum_list (map (page_crossings \<circ> snd) segs) + (p + total_len segs) div L"
proof (induction segs arbitrary: p)
  case (Cons ib segs)
  obtain idx bv where ib: "ib = (idx, bv)" by (cases ib)
  let ?n = "bv_len bv" and ?q = "bv_offset bv" and ?r = "L - p mod L"
  let ?cs = "fst (seg_chunks L (bv_page bv) ?q ?n ?r)"
  have r: "0 < ?r" using L by simp
  have chunks: "segs_chunks L (ib # segs) ?r = ?cs @ segs_chunks L segs (L - (p + ?n) mod L)"
    using seg_chunks_remained_eq [OF L, of "bv_page bv" ?q ?n p]
    by (simp add: ib case_prod_beta)
  note one = seg_chunks_aligned_count [OF L r, of "bv_page bv" ?q ?n, rule_format, of p]
  note IH = Cons.IH [of "p + ?n"]
  have bytes: "concat (map chunk_bytes ?cs) = seg_bytes bv"
    using seg_chunks_bytes [OF L r] by (simp add: seg_bytes_def)
  have "length ?cs + p div L \<le> 1 + page_crossings bv + (p + ?n) div L"
  proof (cases "?n = 0")
    case False
    have "(p + ?n - 1) div L \<le> (p + ?n) div L" by (intro div_le_mono) simp
    moreover have "page_crossings bv + ?q div 4096 = (?q + ?n - 1) div 4096"
      using False div_le_mono [of ?q "?q + ?n - 1" 4096] by (simp add: page_crossings_def)
    moreover have "length ?cs + ?q div 4096 + p div L \<le>
        (?q + ?n - 1) div 4096 + (p + ?n - 1) div L + 1"
      using one False by simp
    ultimately show ?thesis by linarith
  qed simp
  then show ?case
    unfolding chunks using one IH bytes by (simp add: aligned_append ib add.assoc)
qed simp

lemma page_crossings_le: "page_crossings bv \<le> bv_len bv div 4096 + 1"
proof -
  let ?q = "bv_offset bv" and ?n = "bv_len bv"
  have "(?q + ?n - 1) div 4096 \<le> (?q + ?n) div 4096" by (intro div_le_mono) simp
  also have "\<dots> = ?q div 4096 + ?n div 4096 + (?q mod 4096 + ?n mod 4096) div 4096"
    by (rule div_add1_eq)
  also have "(?q mod 4096 + ?n mod 4096) div 4096 < 2"
    by (rule less_mult_imp_div_less) (simp add: add_strict_mono)
  finally have "(?q + ?n - 1) div 4096 \<le> ?q div 4096 + (?n div 4096 + 1)" by simp
  moreover have "x - a \<le> c" if "x \<le> a + c" for x a c :: nat using that by linarith
  ultimately show ?thesis by (simp only: page_crossings_def split: if_split) simp
qed

lemma page_crossings_sum:
  "sum_list (map (page_crossings \<circ> snd) segs) \<le> total_len segs div 4096 + length segs"
proof (induction segs)
  case (Cons ib segs)
  have "bv_len (snd ib) div 4096 + total_len segs div 4096 \<le> (bv_len (snd ib) + total_len segs) div 4096"
    using div_add1_eq [of "bv_len (snd ib)" "total_len segs" 4096] by simp
  then show ?case using Cons page_crossings_le [of "snd ib"] by simp
qed simp

lemma page_bounded_no_crossing:
  "bv_offset bv + bv_len bv \<le> 4096 \<Longrightarrow> page_crossings bv = 0"
  by (auto simp: page_crossings_def)

text \<open>What the iterator documents: its segments make up \<open>bi_size\<close> bytes. Since multi-page vectors
  it also splits at pages; with blocks of at most a page that is not needed.\<close>

definition wf_bio :: "bio \<Rightarrow> nat \<Rightarrow> bool" where
  "wf_bio b L \<longleftrightarrow> bi_io_vec b \<and> bi_size b = total_len (bi_iter_segs b) \<and> 0 < bi_size b \<and>
     (L \<le> 4096 \<or> (\<forall>ib \<in> set (bi_iter_segs b). bv_offset (snd ib) + bv_len (snd ib) \<le> 4096))"

lemma blocks_le_ceil: "0 < L \<Longrightarrow> (p + t) div L \<le> p div L + (t + L - 1) div (L :: nat)"
proof -
  assume L: "0 < L"
  have "p = p div L * L + p mod L" "p mod L < L" using L by simp_all
  then have "p + t \<le> (t + L - 1) + p div L * L" by linarith
  then have "(p + t) div L \<le> ((t + L - 1) + p div L * L) div L" by (rule div_le_mono)
  also have "\<dots> = p div L + (t + L - 1) div L" using L by (rule_tac div_mult_self1) simp
  finally show ?thesis .
qed

lemma chunks_fit:
  assumes L: "0 < L" and b: "wf_bio b L"
  shows "length (segs_chunks L (bi_iter_segs b) (L - p mod L)) \<le>
     2 * ((bi_size b + L - 1) div L + length (bi_iter_segs b))"
proof -
  let ?segs = "bi_iter_segs b"
  have count: "length (segs_chunks L ?segs (L - p mod L)) \<le>
      length ?segs + sum_list (map (page_crossings \<circ> snd) ?segs) + (bi_size b + L - 1) div L"
    using segs_chunks_spec [OF L, of p ?segs] blocks_le_ceil [OF L, of p "total_len ?segs"] b
    by (auto simp: wf_bio_def)
  show ?thesis
  proof (cases "L \<le> 4096")
    case True
    have "bi_size b div 4096 \<le> (bi_size b + L - 1) div L"
      using div_le_ceil_div [OF L True] by (simp add: ceil_div_def)
    then show ?thesis using count page_crossings_sum [of ?segs] b by (simp add: wf_bio_def)
  next
    case False
    then have "sum_list (map (page_crossings \<circ> snd) ?segs) = 0"
      using b by (auto simp: wf_bio_def page_bounded_no_crossing)
    then have "length (segs_chunks L ?segs (L - p mod L)) \<le>
        length ?segs + 0 + (bi_size b + L - 1) div L"
      using count by (simp only:)
    then show ?thesis by simp
  qed
qed

lemma seg_chunks_small:
  assumes L: "0 < L" and r: "0 < r"
  shows "n \<le> r \<longrightarrow> (\<forall>r'. n \<le> r' \<longrightarrow> 0 < r' \<longrightarrow>
     fst (seg_chunks L page q n r) = fst (seg_chunks L page q n r') \<and>
     (n < r \<longrightarrow> snd (seg_chunks L page q n r) = r - n))"
  using L r
proof (induction rule: seg_chunks_induct [where q = q and n = n and r = r])
  case (Cut q n r)
  show ?case
  proof (intro impI allI)
    fix r' assume n: "n \<le> r" "n \<le> r'" "0 < r'"
    have same: "piece q n r' = piece q n r" using n by (simp add: piece_def)
    let ?m = "piece q n r"
    have b: "0 < ?m" "?m \<le> n" using piece_bounds [OF Cut(1,2), of q] by auto
    show "fst (seg_chunks L page q n r) = fst (seg_chunks L page q n r') \<and>
       (n < r \<longrightarrow> snd (seg_chunks L page q n r) = r - n)"
    proof (cases "?m = n")
      case True
      then show ?thesis using n Cut.hyps same by (simp add: seg_chunks_step)
    next
      case False
      then have m: "?m < n" "?m \<noteq> r" "?m \<noteq> r'" using b n by auto
      have c: "n - ?m \<le> r - ?m" "n - ?m \<le> r' - ?m" "0 < r' - ?m"
        and i: "(if ?m = r then L else r - ?m) = r - ?m" and d: "r - ?m - (n - ?m) = r - n"
        "n < r \<Longrightarrow> n - ?m < r - ?m"
        using m n by auto
      note IH = Cut.IH [unfolded i, THEN mp, OF c(1), THEN spec, THEN mp, OF c(2), THEN mp, OF c(3)]
      show ?thesis
        unfolding seg_chunks_cut [OF Cut.hyps refl m(2)] seg_chunks_cut [OF Cut.hyps(1) n(3) same m(3)]
        using IH [unfolded d(1)] d(2) by simp
    qed
  qed
qed simp

lemma segs_chunks_small:
  assumes L: "0 < L"
  shows "0 < r \<Longrightarrow> 0 < r' \<Longrightarrow> total_len segs \<le> r \<Longrightarrow> total_len segs \<le> r' \<Longrightarrow>
    segs_chunks L segs r = segs_chunks L segs r'"
proof (induction segs arbitrary: r r')
  case (Cons ib segs)
  obtain idx bv where ib: "ib = (idx, bv)" by (cases ib)
  let ?s = "\<lambda>r. snd (seg_chunks L (bv_page bv) (bv_offset bv) (bv_len bv) r)"
  have le: "bv_len bv \<le> r" "bv_len bv \<le> r'" using Cons.prems ib by auto
  have rest: "0 < ?s x \<and> total_len segs \<le> ?s x" if "0 < x" "bv_len bv + total_len segs \<le> x" for x
    using seg_chunks_small [OF L that(1), of "bv_len bv" "bv_page bv" "bv_offset bv"] that
      seg_chunks_remained [OF L that(1), of "bv_page bv" "bv_offset bv" "bv_len bv"]
    by (cases "bv_len bv < x") auto
  have "segs_chunks L segs (?s r) = segs_chunks L segs (?s r')"
    using rest [of r] rest [of r'] Cons.prems ib by (intro Cons.IH) auto
  moreover have "fst (seg_chunks L (bv_page bv) (bv_offset bv) (bv_len bv) r) =
      fst (seg_chunks L (bv_page bv) (bv_offset bv) (bv_len bv) r')"
    using seg_chunks_small [OF L Cons.prems(1)] le Cons.prems(2) by blast
  ultimately show ?case by (simp add: ib case_prod_beta)
qed simp

end
