(* ===== verification/Bio_Mapping.thy ===== *)
theory Bio_Mapping
  imports Bio_Convert
begin

text \<open>
  Correctness of \<open>shannon_convert_bio\<close> when no bounce pages are used: the table describes exactly the
  bytes of the bio, it never overflows, and no entry crosses a page or a logical block. The last
  section is about the \<open>has_hole\<close> flag.
\<close>

section \<open>The size of the first block\<close>

lemma sector_offset:
  assumes "k \<le> 32"
  shows "unat (push_bit 9 sector AND (of_nat (2 ^ k) - 1) :: u64) = (unat sector * 512) mod 2 ^ k"
proof -
  have "of_nat (2 ^ k) - 1 = (mask k :: u64)" by (simp add: mask_eq_exp_minus_1)
  then have "push_bit 9 sector AND (of_nat (2 ^ k) - 1) = (take_bit k (push_bit 9 sector) :: u64)"
    by (simp add: take_bit_eq_mask)
  moreover have "unat (push_bit 9 sector) = (unat sector * 512) mod 2 ^ 64"
    by (simp add: push_bit_eq_mult unat_word_ariths)
  ultimately have "unat (push_bit 9 sector AND (of_nat (2 ^ k) - 1)) = (unat sector * 512) mod 2 ^ 64 mod 2 ^ k"
    by (simp only: unsigned_take_bit_eq) (simp add: take_bit_eq_mod)
  also have "\<dots> = (unat sector * 512) mod 2 ^ k"
    using assms by (intro mod_mod_cancel le_imp_power_dvd) simp
  finally show ?thesis .
qed

lemma first_size_of_eq:
  assumes "L = 2 ^ k" "k \<le> 32"
  shows "first_size_of sector n L = min n ((L - unat sector * 512 mod L) mod L)"
  using sector_offset [OF assms(2), of sector] by (simp add: first_size_of_def Let_def assms(1))

text \<open>Starting with the first size is starting with what is left of the block of the first byte.\<close>

lemma first_chunks:
  assumes "L = 2 ^ k" "k \<le> 32" and "n = total_len segs"
  shows "segs_chunks L segs (if first_size_of sector n L \<noteq> 0 then first_size_of sector n L else L) =
         segs_chunks L segs (L - unat sector * 512 mod L)"
proof -
  define d where "d = unat sector * 512 mod L"
  have L: "0 < L" using assms(1) by simp
  then have d: "d < L" by (simp add: d_def)
  let ?f = "first_size_of sector n L"
  have f: "?f = min n (if d = 0 then 0 else L - d)"
    unfolding first_size_of_eq [OF assms(1,2)] d_def [symmetric] using d by simp
  show ?thesis
  proof (cases "d = 0 \<or> L - d \<le> n")
    case True
    then have "(if ?f \<noteq> 0 then ?f else L) = L - d" using d f by (auto simp: min_def)
    then show ?thesis by (simp add: d_def)
  next
    case False
    then have "?f = n" using f by (auto simp: min_def)
    then show ?thesis
      unfolding d_def [symmetric] assms(3) [symmetric] using False assms(3) L d
      by (intro segs_chunks_small) (auto simp del: sum_list_eq_0_iff)
  qed
qed

section \<open>The table\<close>

lemma mark_end_chunks:
  assumes "cursor_repr c cs" "cs \<noteq> []"
  shows "\<exists>t. shannon_sg_mark_end (cur_table c) (cur_sg c) = Some t \<and> length t = length (cur_table c) \<and>
     map chunk_of (take (length cs) t) = cs \<and>
     (\<forall>i < length cs. sge_end (t ! i) \<longleftrightarrow> Suc i = length cs)"
proof -
  let ?t = "cur_table c" and ?i = "length cs - 1"
  have fresh: "sg_fresh ?t" and le: "length cs \<le> length ?t" and cs: "map chunk_of (take (length cs) ?t) = cs"
    and sg: "cur_sg c = Some ?i"
    using assms by (auto simp: cursor_repr_def)
  have i: "?i < length cs" "?i < length ?t" using assms(2) le by (auto simp: Suc_le_eq length_greater_0_conv [symmetric] simp del: length_greater_0_conv)
  let ?t' = "?t[?i := (?t ! ?i)\<lparr>sge_end := True\<rparr>]"
  have "shannon_sg_mark_end ?t (cur_sg c) = Some ?t'"
    using i by (simp add: shannon_sg_mark_end_def sg_store_def sg)
  moreover have "map chunk_of (take (length cs) ?t') = map chunk_of (take (length cs) ?t)"
    by (rule nth_equalityI) (use i le in \<open>auto simp: nth_list_update chunk_of_def\<close>)
  moreover have "\<forall>i < length cs. sge_end (?t' ! i) \<longleftrightarrow> Suc i = length cs"
    using fresh i le by (auto simp: sg_fresh_def nth_list_update)
  ultimately show ?thesis using cs by simp
qed

lemma convert_old_fashion_ok:
  assumes L: "L = 2 ^ k" "k \<le> 32" and b: "wf_bio b L"
    and t: "sg_fresh t" "length t = 2 * ((bi_size b + L - 1) div L + length (bi_iter_segs b))"
    and fs: "sb_first_size sb = first_size_of (bi_sector b) (bi_size b) L"
  shows "\<exists>sb' t'. convert_old_fashion sb b L t = Some sb' \<and> sb_sg sb' = Some t' \<and>
    sb_used_sg_count sb' \<le> length t \<and> length t' = length t \<and>
    map chunk_of (take (sb_used_sg_count sb') t') =
      segs_chunks L (bi_iter_segs b) (L - unat (bi_sector b) * 512 mod L) \<and>
    (\<forall>i < sb_used_sg_count sb'. sge_end (t' ! i) \<longleftrightarrow> Suc i = sb_used_sg_count sb') \<and>
    sb_sg_count sb' = sb_sg_count sb \<and> sb_need_bounce sb' = False \<and>
    sb_is_valloc sb' = sb_is_valloc sb \<and> sb_first_size sb' = sb_first_size sb \<and>
    sb_bio_size sb' = sb_bio_size sb \<and>
    (sb_has_hole sb' \<longleftrightarrow> sb_need_bounce sb \<or>
       (\<exists>ib \<in> set (bi_iter_segs b). hole_at (bi_idx b) (sb_segments sb) ib))"
proof -
  let ?segs = "bi_iter_segs b" and ?p = "unat (bi_sector b) * 512"
  define r where "r = (if sb_first_size sb \<noteq> 0 then sb_first_size sb else L)"
  define cs where "cs = segs_chunks L ?segs (L - ?p mod L)"
  have L0: "0 < L" using L by simp
  have n: "bi_size b = total_len ?segs" "0 < bi_size b" using b by (auto simp: wf_bio_def)
  have r: "0 < r" using L0 by (simp add: r_def)
  have cs: "segs_chunks L ?segs r = cs"
    unfolding cs_def r_def fs by (rule first_chunks [OF L n(1)])
  have fit: "length cs \<le> length t" unfolding cs_def t(2) by (rule chunks_fit [OF L0 b])
  have "concat (map chunk_bytes cs) = concat (map (seg_bytes \<circ> snd) ?segs)"
    using segs_chunks_spec [OF L0, of ?p ?segs] by (simp add: cs_def)
  moreover have "\<exists>ib \<in> set ?segs. seg_bytes (snd ib) \<noteq> []"
  proof (rule ccontr)
    assume "\<not> ?thesis"
    then have "total_len ?segs = 0" by (auto simp: seg_bytes_def)
    with n show False by simp
  qed
  ultimately have ne: "cs \<noteq> []" by fastforce
  let ?c = "\<lparr>cur_table = t, cur_sg = None, cur_used = 0\<rparr>"
  obtain c' where c': "fold_opt (\<lambda>ch c. sg_append_chunk c ch) cs ?c = Some c'" "cursor_repr c' cs"
      "length (cur_table c') = length t"
    using sgw.append_all [OF cursor_repr_Nil [OF t(1)], of cs] fit by auto
  obtain s where s: "fold_opt (\<lambda>(_, bv) s. map_segment (bv_len bv + 1) L bv 0 s) ?segs
      \<lparr>cv_cur = ?c, cv_remained = r\<rparr> = Some s" "cv_cur s = c'"
    using map_segments_chunks [OF L0 r, of ?segs ?c] cs c'(1) by auto
  obtain t' where t': "shannon_sg_mark_end (cur_table c') (cur_sg c') = Some t'" "length t' = length t"
      "map chunk_of (take (length cs) t') = cs"
      "\<forall>i < length cs. sge_end (t' ! i) \<longleftrightarrow> Suc i = length cs"
    using mark_end_chunks [OF c'(2) ne] c'(3) by auto
  have used: "cur_used c' = length cs" using c'(2) by (simp add: cursor_repr_def)
  have hole: "fold (\<lambda>ib h. if hole_at i0 ns ib then True else h) xs h \<longleftrightarrow>
      h \<or> (\<exists>ib \<in> set xs. hole_at i0 ns ib)" for xs h i0 ns
    by (induction xs arbitrary: h) auto
  show ?thesis
    using s t' used fit by (simp add: convert_old_fashion_def Let_def r_def hole cs_def)
qed

section \<open>Properties\<close>

text \<open>The allocators give memory: the first try, or the second.\<close>

definition sg_memory_available :: "kenv \<Rightarrow> nat \<Rightarrow> bool" where
  "sg_memory_available k n \<longleftrightarrow>
     (n \<le> SIZE_MAX div sizeof_scatterlist \<and> k_kzalloc k (sizeof_scatterlist * n)
        (if sizeof_scatterlist * n > PAGE_SIZE then k_GFP_SHANNON k OR k_GFP_NOWARN k else k_GFP_SHANNON k)) \<or>
     k_vzalloc k (sizeof_scatterlist * n)"

definition bio_sg_count :: "bio \<Rightarrow> nat \<Rightarrow> nat" where
  "bio_sg_count b L = 2 * ((bi_size b + L - 1) div L + length (bi_iter_segs b))"

lemma convert_bio_direct:
  assumes L: "L = 2 ^ n" "n \<le> 32" and b: "wf_bio b L" and nb: "\<not> needs_bounce b" "\<not> sb_need_bounce sb"
    and mem: "sg_memory_available k (bio_sg_count b L)"
  shows "\<exists>sb' t. convert_bio_body k m sb b L = Some (0, sb', m, []) \<and> sb_sg sb' = Some t \<and>
    sb_used_sg_count sb' \<le> sb_sg_count sb' \<and> length t = sb_sg_count sb' \<and>
    map chunk_of (take (sb_used_sg_count sb') t) =
      segs_chunks L (bi_iter_segs b) (L - unat (bi_sector b) * 512 mod L) \<and>
    (\<forall>i < sb_used_sg_count sb'. sge_end (t ! i) \<longleftrightarrow> Suc i = sb_used_sg_count sb') \<and>
    (sb_has_hole sb' \<longleftrightarrow>
      (\<exists>ib \<in> set (bi_iter_segs b). hole_at (bi_idx b) (length (bi_iter_segs b)) ib))"
proof -
  let ?n = "bio_sg_count b L"
  have pos: "0 < ?n" using b by (auto simp: wf_bio_def bio_sg_count_def)
  obtain t where t: "shannon_sg_init_table (replicate ?n zero_sge) ?n = Some t" "sg_fresh t" "length t = ?n"
    using sg_init_table_fresh [OF pos] by auto
  define sb1 where "sb1 = sb\<lparr>sb_bio_size := bi_size b, sb_segments := length (bi_iter_segs b), sb_sg_count := ?n\<rparr>"
  define sb2 where "sb2 = (if shannon_sg_alloc (k_kzalloc k) (k_GFP_NOWARN k) ?n (k_GFP_SHANNON k) = None
      then sb1\<lparr>sb_is_valloc := True\<rparr> else sb1)\<lparr>sb_sg := Some t, sb_start_sector := bi_sector b,
        sb_first_size := first_size_of (bi_sector b) (bi_size b) L\<rparr>"
  have body: "convert_bio_body k m sb b L = map_option (\<lambda>sb'. (0, sb', m, [])) (convert_old_fashion sb2 b L t)"
    using mem nb t(1)
    by (auto simp: convert_bio_body_def Let_def sb1_def sb2_def bio_sg_count_def get_bi_size_def
        shannon_bio_segments_def get_bi_sector_def sg_memory_available_def shannon_sg_alloc_def
        shannon_sg_vzalloc_def)
  have "sb_first_size sb2 = first_size_of (bi_sector b) (bi_size b) L" "\<not> sb_need_bounce sb2"
    "sb_segments sb2 = length (bi_iter_segs b)" "sb_sg_count sb2 = ?n"
    using nb by (simp_all add: sb2_def sb1_def)
  then show ?thesis
    using convert_old_fashion_ok [OF L b t(2), of sb2] t(3) body
    by (auto simp: bio_sg_count_def)
qed

text \<open>C1 (functional). For every logical block size that is a power of two, every well-formed bio with
  aligned segments and memory for the table, \<open>shannon_convert_bio\<close> returns 0 without
  overrunning the table, and the used entries list exactly the bytes of the bio in order, each entry
  non-empty, inside one page and inside one logical block of the device (counted from the
  bio's start sector); the end marker is on the last used entry and on no earlier one.\<close>

theorem convert_bio_correct:
  assumes "L = 2 ^ n" "n \<le> 32" and "wf_bio b L" and "\<not> needs_bounce b" "\<not> sb_need_bounce sb"
    and "sg_memory_available k (bio_sg_count b L)"
  shows "\<exists>sb' t. shannon_convert_bio k m sb b L = Some (0, sb', m, []) \<and> sb_sg sb' = Some t \<and>
    sb_used_sg_count sb' \<le> sb_sg_count sb' \<and> length t = sb_sg_count sb' \<and>
    (let cs = map chunk_of (take (sb_used_sg_count sb') t)
     in concat (map chunk_bytes cs) = concat (map (seg_bytes \<circ> snd) (bi_iter_segs b)) \<and>
        aligned L (unat (bi_sector b) * 512) cs) \<and>
    (\<forall>i < sb_used_sg_count sb'. sge_end (t ! i) \<longleftrightarrow> Suc i = sb_used_sg_count sb')"
proof -
  have L: "0 < L" using assms(1) by simp
  then have "shannon_convert_bio k m sb b L = convert_bio_body k m sb b L"
    using assms(3) by (simp add: shannon_convert_bio_def wf_bio_def)
  then show ?thesis
    using convert_bio_direct [OF assms(1,2,3,4,5,6), of m]
      segs_chunks_spec [OF L, of "unat (bi_sector b) * 512" "bi_iter_segs b"]
    by (auto simp: Let_def simp del: map_map)
qed

definition sample_bio :: bio where
  "sample_bio = \<lparr>bi_io_vec = True,
     bi_iter_segs = [(0, \<lparr>bv_page = 7, bv_offset = 1024, bv_len = 3072\<rparr>),
                     (1, \<lparr>bv_page = 9, bv_offset = 0, bv_len = 4096\<rparr>)],
     bi_idx = 0, bi_size = 7168, bi_sector = 5\<rparr>"

definition sample_sbio :: shannon_bio where
  "sample_sbio = \<lparr>sb_dma_dir = SHANNON_DMA_TODEVICE, sb_start_sector = 0, sb_bio_size = 0,
     sb_first_size = 0, sb_has_hole = False, sb_segments = 0, sb_is_valloc = False, sb_sg_count = 0,
     sb_used_sg_count = 0, sb_sg = None, sb_need_bounce = False\<rparr>"

definition sample_kenv :: kenv where
  "sample_kenv = \<lparr>k_kzalloc = (\<lambda>_ _. True), k_vzalloc = (\<lambda>_. True), k_alloc_page = (\<lambda>i. Some (100 + i)),
     k_GFP_SHANNON = 0xc00, k_GFP_NOWARN = 0x2000\<rparr>"

theorem convert_bio_correct_witness:
  "\<exists>sb' t. shannon_convert_bio sample_kenv (\<lambda>_. 0) sample_sbio sample_bio (2 ^ 12) =
     Some (0, sb', (\<lambda>_. 0), []) \<and> sb_sg sb' = Some t \<and>
     aligned (2 ^ 12) 2560 (map chunk_of (take (sb_used_sg_count sb') t))"
proof -
  have wf: "wf_bio sample_bio (2 ^ 12)" by (simp add: wf_bio_def sample_bio_def)
  have nb: "\<not> needs_bounce sample_bio" by (simp add: needs_bounce_def sample_bio_def)
  have sb: "\<not> sb_need_bounce sample_sbio" by (simp add: sample_sbio_def)
  have mem: "sg_memory_available sample_kenv (bio_sg_count sample_bio (2 ^ 12))"
    by (simp add: sg_memory_available_def sample_kenv_def)
  have sec: "unat (bi_sector sample_bio) * 512 = 2560" by (simp add: sample_bio_def)
  show ?thesis
    using convert_bio_correct [of "2 ^ 12" 12, OF refl _ wf nb sb mem, of "\<lambda>_. 0"]
    unfolding sec by (auto simp: Let_def)
qed

section \<open>The hole flag\<close>

text \<open>A bio has no hole when at every seam between two segments the first one ends at a page end and
  the second one starts at a page start.\<close>

definition gap_free :: "bvec list \<Rightarrow> bool" where
  "gap_free bvs \<longleftrightarrow> (\<forall>i. Suc i < length bvs \<longrightarrow>
     bv_offset (bvs ! i) + bv_len (bvs ! i) = 4096 \<and> bv_offset (bvs ! Suc i) = 0)"

lemma hole_at_seams:
  assumes "segs = zip [0 ..< length bvs] bvs"
  shows "(\<exists>ib \<in> set segs. hole_at 0 (length bvs) ib) \<longleftrightarrow> \<not> gap_free bvs"
proof -
  have "(\<exists>ib \<in> set segs. hole_at 0 (length bvs) ib) \<longleftrightarrow>
      (\<exists>i < length bvs. hole_at 0 (length bvs) (i, bvs ! i))"
  proof
    assume "\<exists>ib \<in> set segs. hole_at 0 (length bvs) ib"
    then show "\<exists>i < length bvs. hole_at 0 (length bvs) (i, bvs ! i)"
      by (auto simp: assms set_zip)
  next
    assume "\<exists>i < length bvs. hole_at 0 (length bvs) (i, bvs ! i)"
    then obtain i where i: "i < length bvs" "hole_at 0 (length bvs) (i, bvs ! i)" by blast
    then have "(i, bvs ! i) \<in> set segs" by (auto simp: assms set_zip intro!: exI [of _ i])
    with i(2) show "\<exists>ib \<in> set segs. hole_at 0 (length bvs) ib" by blast
  qed
  also have "\<dots> \<longleftrightarrow> \<not> gap_free bvs"
  proof
    assume "\<exists>i < length bvs. hole_at 0 (length bvs) (i, bvs ! i)"
    then obtain i where i: "i < length bvs" "hole_at 0 (length bvs) (i, bvs ! i)" by blast
    have last: "int i \<noteq> int (length bvs) - 1 \<longleftrightarrow> Suc i < length bvs" using i(1) by linarith
    consider j where "i = Suc j" "bv_offset (bvs ! i) \<noteq> 0"
      | "Suc i < length bvs" "bv_offset (bvs ! i) + bv_len (bvs ! i) \<noteq> 4096"
      using i(2) unfolding hole_at_def prod.case last by (metis not0_implies_Suc)
    then show "\<not> gap_free bvs" using i(1) by cases (auto simp: gap_free_def)
  next
    assume "\<not> gap_free bvs"
    then obtain i where i: "Suc i < length bvs"
        "bv_offset (bvs ! i) + bv_len (bvs ! i) \<noteq> 4096 \<or> bv_offset (bvs ! Suc i) \<noteq> 0"
      by (auto simp: gap_free_def)
    then have "hole_at 0 (length bvs) (i, bvs ! i) \<or> hole_at 0 (length bvs) (Suc i, bvs ! Suc i)"
      by (auto simp: hole_at_def)
    then show "\<exists>i < length bvs. hole_at 0 (length bvs) (i, bvs ! i)" using i(1) by (meson Suc_lessD)
  qed
  finally show ?thesis .
qed

text \<open>For a bio that has not been advanced or split (its vector starts at index 0 and
  the iterator counts one index per segment) \<open>has_hole\<close> is set exactly when some seam between two
  segments is not at a page boundary on both sides.\<close>

theorem convert_bio_hole_flag:
  assumes "L = 2 ^ n" "n \<le> 32" and "wf_bio b L" and "\<not> needs_bounce b" "\<not> sb_need_bounce sb"
    and "sg_memory_available k (bio_sg_count b L)"
    and "bi_idx b = 0" and "bi_iter_segs b = zip [0 ..< length bvs] bvs"
  shows "\<exists>sb'. shannon_convert_bio k m sb b L = Some (0, sb', m, []) \<and>
    sb_has_hole sb' = (\<not> gap_free bvs)"
proof -
  have "shannon_convert_bio k m sb b L = convert_bio_body k m sb b L"
    using assms(1,3) by (simp add: shannon_convert_bio_def wf_bio_def)
  moreover have "length (bi_iter_segs b) = length bvs" by (simp add: assms(8))
  ultimately show ?thesis
    using convert_bio_direct [OF assms(1-6), of m] hole_at_seams [OF assms(8)] assms(7) by auto
qed

theorem convert_bio_hole_flag_witness:
  "\<exists>sb'. shannon_convert_bio sample_kenv (\<lambda>_. 0) sample_sbio sample_bio (2 ^ 12) =
     Some (0, sb', (\<lambda>_. 0), []) \<and> \<not> sb_has_hole sb'"
proof -
  let ?bvs = "[\<lparr>bv_page = 7, bv_offset = 1024, bv_len = 3072\<rparr>, \<lparr>bv_page = 9, bv_offset = 0, bv_len = 4096\<rparr>]"
  have wf: "wf_bio sample_bio (2 ^ 12)" by (simp add: wf_bio_def sample_bio_def)
  have nb: "\<not> needs_bounce sample_bio" by (simp add: needs_bounce_def sample_bio_def)
  have sb: "\<not> sb_need_bounce sample_sbio" by (simp add: sample_sbio_def)
  have mem: "sg_memory_available sample_kenv (bio_sg_count sample_bio (2 ^ 12))"
    by (simp add: sg_memory_available_def sample_kenv_def)
  have "bi_idx sample_bio = 0" "bi_iter_segs sample_bio = zip [0 ..< length ?bvs] ?bvs"
    by (simp_all add: sample_bio_def upt_rec)
  moreover have "gap_free ?bvs" by (auto simp: gap_free_def less_Suc_eq)
  ultimately show ?thesis
    using convert_bio_hole_flag [of "2 ^ 12" 12, OF refl _ wf nb sb mem, of ?bvs "\<lambda>_. 0"] by simp
qed

text \<open>The test for the last segment compares the iterator's absolute index with the number
  of segments, so for a bio that starts at index 1 of its vector (the tail of a split) a
  hole goes unnoticed: here the middle segment ends at 2048.\<close>

theorem hole_missed_after_split:
  "let bvs = [\<lparr>bv_page = 1, bv_offset = 0, bv_len = 4096\<rparr>, \<lparr>bv_page = 2, bv_offset = 0, bv_len = 2048\<rparr>,
              \<lparr>bv_page = 3, bv_offset = 0, bv_len = 4096\<rparr>];
       b = \<lparr>bi_io_vec = True, bi_iter_segs = zip [1, 2, 3] bvs, bi_idx = 1, bi_size = 10240, bi_sector = 0\<rparr>
   in \<not> gap_free bvs \<and> (\<exists>sb'. shannon_convert_bio sample_kenv (\<lambda>_. 0) sample_sbio b 4096 =
        Some (0, sb', (\<lambda>_. 0), []) \<and> \<not> sb_has_hole sb')"
proof -
  let ?bvs = "[\<lparr>bv_page = 1, bv_offset = 0, bv_len = 4096\<rparr>, \<lparr>bv_page = 2, bv_offset = 0, bv_len = 2048\<rparr>,
              \<lparr>bv_page = 3, bv_offset = 0, bv_len = 4096\<rparr>]"
  let ?b = "\<lparr>bi_io_vec = True, bi_iter_segs = zip [1, 2, 3] ?bvs, bi_idx = 1, bi_size = 10240, bi_sector = 0\<rparr>"
  have wf: "wf_bio ?b (2 ^ 12)" and nb: "\<not> needs_bounce ?b"
    by (simp_all add: wf_bio_def needs_bounce_def)
  have sb: "\<not> sb_need_bounce sample_sbio" by (simp add: sample_sbio_def)
  have mem: "sg_memory_available sample_kenv (bio_sg_count ?b (2 ^ 12))"
    by (simp add: sg_memory_available_def sample_kenv_def)
  have "\<not> (\<exists>ib \<in> set (bi_iter_segs ?b). hole_at (bi_idx ?b) (length (bi_iter_segs ?b)) ib)"
    by (simp add: hole_at_def)
  moreover have "\<not> gap_free ?bvs"
    unfolding gap_free_def by (auto intro!: exI [of _ 1])
  moreover have "shannon_convert_bio sample_kenv (\<lambda>_. 0) sample_sbio ?b 4096 =
      convert_bio_body sample_kenv (\<lambda>_. 0) sample_sbio ?b (2 ^ 12)"
    by (simp add: shannon_convert_bio_def)
  ultimately show ?thesis
    using convert_bio_direct [OF refl _ wf nb sb mem, of "\<lambda>_. 0"] by (auto simp: Let_def)
qed

section \<open>The width of the integers\<close>

text \<open>The model counts bytes with natural numbers where the code has \<open>int\<close> and \<open>unsigned int\<close>. What is left of a block never
  exceeds the block, a piece neither the page, the segment nor the block, and the size of the table stays below
  \<open>2\<^sup>3\<^sup>1\<close>; so for blocks from 512 bytes to \<open>2\<^sup>3\<^sup>0\<close> no variable of the loop leaves its type.\<close>

lemma map_step_fits:
  assumes "map_step L bv off s = Some (m, s')" "cv_remained s \<le> L"
  shows "m \<le> 4096 \<and> m \<le> bv_len bv - off \<and> m \<le> L \<and> cv_remained s' \<le> L"
proof -
  have "m = (let p = 4096 - (bv_offset bv + off AND 4095); q = (if p > bv_len bv - off then bv_len bv - off else p)
      in if q < cv_remained s then q else cv_remained s) \<and>
    cv_remained s' = (if cv_remained s - m = 0 then L else cv_remained s - m)"
    using assms(1) by (auto simp: map_step_def Let_def PAGE_SIZE_def split: option.splits)
  then show ?thesis using assms(2) by (auto simp: Let_def split: if_splits)
qed

lemma map_segment_fits:
  "map_segment k L bv off s = Some s' \<Longrightarrow> cv_remained s \<le> L \<Longrightarrow> cv_remained s' \<le> L"
proof (induction k arbitrary: off s)
  case (Suc k)
  show ?case
  proof (cases "off < bv_len bv")
    case True
    then obtain m s1 where s1: "map_step L bv off s = Some (m, s1)" "map_segment k L bv (off + m) s1 = Some s'"
      using Suc.prems(1) by (auto split: option.splits)
    then show ?thesis using Suc.IH map_step_fits [OF s1(1) Suc.prems(2)] by blast
  next
    case False
    then show ?thesis using Suc.prems by simp
  qed
qed simp

lemma bio_sg_count_fits:
  assumes "512 \<le> L" "bi_size b + L \<le> 2 ^ 31" "length (bi_iter_segs b) \<le> 2 ^ 20"
  shows "bio_sg_count b L < 2 ^ 31"
proof -
  have "(bi_size b + L - 1) div L \<le> (bi_size b + L - 1) div 512" using assms(1) by (intro div_le_mono2) simp_all
  also have "\<dots> \<le> 2 ^ 31 div 512" using assms(2) by (intro div_le_mono) simp
  finally show ?thesis using assms(3) by (simp add: bio_sg_count_def)
qed

end
