(* ===== verification/Bio_Bounce.thy ===== *)
theory Bio_Bounce
  imports Bio_Mapping
begin

text \<open>
  Correctness of the bounce pages: what \<open>shannon_alloc_bounce_pages\<close> puts into the table, that it gives
  every page back when it runs out of memory, and that \<open>shannon_copy_bounce_pages\<close> moves exactly the
  bytes of the bio and walks off neither the table nor the bio.
\<close>

section \<open>Allocation\<close>

text \<open>Length and offset of the \<open>j\<close>-th bounce page, and their number.\<close>

definition bounce_count :: "nat \<Rightarrow> nat \<Rightarrow> nat" where
  "bounce_count fs tot = (if fs \<noteq> 0 then 1 else 0) + (tot - fs) div 4096 +
     (if (tot - fs) mod 4096 \<noteq> 0 then 1 else 0)"

definition bounce_entry :: "nat \<Rightarrow> int \<Rightarrow> nat \<Rightarrow> nat \<Rightarrow> nat \<Rightarrow> nat \<times> nat" where
  "bounce_entry fs fo ll cnt j =
    (if j = 0 \<and> fo \<noteq> 0 then (fs, nat (fo mod 2 ^ 32))
     else if j = cnt - 1 \<and> ll \<noteq> 0 then (ll, 0) else (4096, 0))"

lemma chunk_of_eq [simp]:
  "chunk_of (e\<lparr>sge_page := p, sge_offset := off, sge_length := l\<rparr>) = (p, l, off)"
  by (simp add: chunk_of_def)

lemma bounce_loop_spec:
  "sg_fresh t \<Longrightarrow> i + k = cnt \<Longrightarrow> cnt < length t \<Longrightarrow>
   \<exists>f t'. i \<le> f \<and> f \<le> cnt \<and>
     bounce_loop pg fs fo ll cnt k i t (Some i) = Some (t', Some f, f, f = cnt) \<and>
     (\<forall>j. i \<le> j \<and> j < f \<longrightarrow> pg j \<noteq> None) \<and> (f < cnt \<longrightarrow> pg f = None) \<and>
     sg_fresh t' \<and> length t' = length t \<and>
     (\<forall>j < length t. chunk_of (t' ! j) =
        (if i \<le> j \<and> j < f then (the (pg j), bounce_entry fs fo ll cnt j) else chunk_of (t ! j)))"
proof (induction k arbitrary: i t)
  case 0
  then show ?case by (intro exI [of _ i] exI [of _ t]) auto
next
  case (Suc k)
  show ?case
  proof (cases "pg i")
    case None
    then show ?thesis using Suc.prems by (intro exI [of _ i] exI [of _ t]) auto
  next
    case (Some page)
    obtain l off where e: "bounce_entry fs fo ll cnt i = (l, off)" by fastforce
    let ?f = "\<lambda>e. e\<lparr>sge_page := page, sge_offset := off, sge_length := l\<rparr>"
    let ?t = "t[i := ?f (t ! i)]"
    have i: "i < length t" "Suc i < length t" using Suc.prems by auto
    have fresh: "sg_fresh ?t" by (rule sg_fresh_update [OF Suc.prems(1)]) simp
    have nxt: "shannon_sg_next ?t (Some i) = Some (Some (Suc i))"
      using Suc.prems(1) i by (auto simp: shannon_sg_next_def sg_deref_def sg_fresh_def)
    have step: "bounce_loop pg fs fo ll cnt (Suc k) i t (Some i) =
        bounce_loop pg fs fo ll cnt k (Suc i) ?t (Some (Suc i))"
      using Some e i nxt
      by (auto simp: bounce_entry_def shannon_sg_set_page_def sg_store_def PAGE_SIZE_def
          split: if_splits)
    obtain f t' where IH: "Suc i \<le> f" "f \<le> cnt"
      "bounce_loop pg fs fo ll cnt k (Suc i) ?t (Some (Suc i)) = Some (t', Some f, f, f = cnt)"
      "\<forall>j. Suc i \<le> j \<and> j < f \<longrightarrow> pg j \<noteq> None" "f < cnt \<longrightarrow> pg f = None" "sg_fresh t'"
      "length t' = length t"
      "\<forall>j < length t. chunk_of (t' ! j) = (if Suc i \<le> j \<and> j < f
          then (the (pg j), bounce_entry fs fo ll cnt j) else chunk_of (?t ! j))"
      using Suc.IH [OF fresh, of "Suc i"] Suc.prems by auto
    have "chunk_of (t' ! j) = (if i \<le> j \<and> j < f then (the (pg j), bounce_entry fs fo ll cnt j)
        else chunk_of (t ! j))" if "j < length t" for j
      using IH(1,8) that Some e i by (cases "j = i") (auto simp: nth_list_update)
    moreover have "\<forall>j. i \<le> j \<and> j < f \<longrightarrow> pg j \<noteq> None"
      using IH(4) Some by (metis le_antisym not_less_eq_eq option.distinct(1))
    ultimately show ?thesis
      using IH step by (intro exI [of _ f] exI [of _ t']) auto
  qed
qed

text \<open>The pages of the data after the first partial one.\<close>

lemma bounce_lengths:
  assumes "fs < 4096" "fs \<le> tot"
    and fo: "fo = (if fs \<noteq> 0 then 4096 - int fs else 0)" and ll: "ll = (tot - fs) mod 4096"
    and cnt: "cnt = bounce_count fs tot"
  shows "sum_list (map (fst \<circ> bounce_entry fs fo ll cnt) [0 ..< cnt]) = tot"
    and "j < cnt \<Longrightarrow> 0 < fst (bounce_entry fs fo ll cnt j) \<and>
           fst (bounce_entry fs fo ll cnt j) + snd (bounce_entry fs fo ll cnt j) \<le> 4096 \<and>
           (0 < j \<longrightarrow> snd (bounce_entry fs fo ll cnt j) = 0) \<and>
           (Suc j < cnt \<longrightarrow> fst (bounce_entry fs fo ll cnt j) + snd (bounce_entry fs fo ll cnt j) = 4096)"
proof -
  define n0 q where "n0 = (if fs \<noteq> 0 then 1 else 0 :: nat)" and "q = (tot - fs) div 4096"
  have c: "cnt = n0 + q + (if ll \<noteq> 0 then 1 else 0)"
    by (simp add: cnt bounce_count_def n0_def q_def ll)
  let ?e = "bounce_entry fs fo ll cnt"
  have len: "fst (?e j) = (if j < n0 then fs else if j < n0 + q then 4096 else ll)" if "j < cnt" for j
    using that assms(1) by (auto simp: bounce_entry_def c n0_def fo split: if_splits)
  have "[0 ..< cnt] = [0 ..< n0] @ [n0 ..< n0 + q] @ [n0 + q ..< cnt]"
    using upt_add_eq_append [of 0 n0 "q + (if ll \<noteq> 0 then 1 else 0)"]
      upt_add_eq_append [of n0 "n0 + q" "if ll \<noteq> 0 then 1 else 0"]
    unfolding c add.assoc by (metis le0 le_add1 add.assoc)
  then have "map (fst \<circ> ?e) [0 ..< cnt] =
      map (fst \<circ> ?e) [0 ..< n0] @ map (fst \<circ> ?e) [n0 ..< n0 + q] @ map (fst \<circ> ?e) [n0 + q ..< cnt]"
    by (metis map_append)
  also have "map (fst \<circ> ?e) [0 ..< n0] = replicate n0 fs"
    by (rule nth_equalityI) (use len c in auto)
  also have "map (fst \<circ> ?e) [n0 ..< n0 + q] = replicate q 4096"
    by (rule nth_equalityI) (use len c in auto)
  also have "map (fst \<circ> ?e) [n0 + q ..< cnt] = (if ll \<noteq> 0 then [ll] else [])"
    by (rule nth_equalityI) (use len c in auto)
  finally have "sum_list (map (fst \<circ> ?e) [0 ..< cnt]) = n0 * fs + q * 4096 + ll"
    by (simp only: sum_list_replicate sum_list_append) simp
  also have "\<dots> = tot" using assms(2) by (simp add: n0_def q_def ll)
  finally show "sum_list (map (fst \<circ> ?e) [0 ..< cnt]) = tot" .
  have "ll < 4096" by (simp add: ll)
  then show "j < cnt \<Longrightarrow> 0 < fst (?e j) \<and> fst (?e j) + snd (?e j) \<le> 4096 \<and>
      (0 < j \<longrightarrow> snd (?e j) = 0) \<and> (Suc j < cnt \<longrightarrow> fst (?e j) + snd (?e j) = 4096)"
    using assms(1) by (auto simp: bounce_entry_def fo)
qed

lemma for_each_sg_fresh:
  "sg_fresh t \<Longrightarrow> n < length t \<Longrightarrow> for_each_sg t (Some 0) n = Some (take n t)"
  using for_each_sg_prefix [of 0 n t] by (auto simp: sg_fresh_def)

text \<open>The table after a successful allocation: \<open>cnt\<close> entries, then the end marker.\<close>

definition bounce_table :: "sg_table \<Rightarrow> nat \<Rightarrow> nat \<Rightarrow> (nat \<Rightarrow> ptr) \<Rightarrow> bool" where
  "bounce_table t fs tot pages \<longleftrightarrow>
    (let cnt = bounce_count fs tot; cs = map chunk_of (take cnt t) in
      cnt < length t \<and> (\<forall>j < cnt. \<not> sge_end (t ! j)) \<and> sge_end (t ! cnt) \<and>
      map fst cs = map pages [0 ..< cnt] \<and> sum_list (map (fst \<circ> snd) cs) = tot \<and>
      (\<forall>j < cnt. 0 < fst (snd (cs ! j)) \<and> fst (snd (cs ! j)) + snd (snd (cs ! j)) \<le> 4096 \<and>
         (0 < j \<longrightarrow> snd (snd (cs ! j)) = 0) \<and>
         (Suc j < cnt \<longrightarrow> fst (snd (cs ! j)) + snd (snd (cs ! j)) = 4096)))"

lemma alloc_bounce_cases:
  assumes t: "sg_fresh t" "bounce_count fs tot < length t" and fs: "fs < 4096" "fs \<le> tot"
  shows "if \<forall>j < bounce_count fs tot. pg j \<noteq> None
    then \<exists>t'. shannon_alloc_bounce_pages pg t fs tot = Some (int (bounce_count fs tot), t', []) \<and>
           length t' = length t \<and> bounce_table t' fs tot (the \<circ> pg)
    else \<exists>t' f. f < bounce_count fs tot \<and> pg f = None \<and> (\<forall>j < f. pg j \<noteq> None) \<and> sg_fresh t' \<and>
           length t' = length t \<and>
           shannon_alloc_bounce_pages pg t fs tot = Some (- ENOMEM, t', map (the \<circ> pg) [0 ..< f])"
proof -
  define cnt where "cnt = bounce_count fs tot"
  define fo where "fo = (if fs \<noteq> 0 then 4096 - int fs else 0)"
  define ll where "ll = (tot - fs) mod 4096"
  let ?e = "bounce_entry fs fo ll cnt"
  note lens = bounce_lengths [OF fs fo_def ll_def cnt_def]
  obtain f t' where loop: "f \<le> cnt"
    "bounce_loop pg fs fo ll cnt cnt 0 t (Some 0) = Some (t', Some f, f, f = cnt)"
    "\<forall>j < f. pg j \<noteq> None" "f < cnt \<longrightarrow> pg f = None" "sg_fresh t'" "length t' = length t"
    "\<forall>j < length t. chunk_of (t' ! j) = (if j < f then (the (pg j), ?e j) else chunk_of (t ! j))"
    using bounce_loop_spec [OF t(1), of 0 cnt cnt pg fs fo ll] t(2) by (auto simp: cnt_def)
  have alloc: "shannon_alloc_bounce_pages pg t fs tot =
     (if f = cnt
      then map_option (\<lambda>t2. (int cnt, t2, [])) (shannon_sg_mark_end t' (Some f))
      else map_option (\<lambda>es. (- ENOMEM, t', map sge_page es)) (for_each_sg t' (Some 0) f))"
  proof -
    have cnt': "(if ll \<noteq> 0 then (if fs \<noteq> 0 then 1 else 0) + (tot - fs) div 4096 + 1
        else (if fs \<noteq> 0 then 1 else 0) + (tot - fs) div 4096) = cnt"
      by (simp add: cnt_def bounce_count_def ll_def)
    have fo': "(if fs \<noteq> 0 then int 4096 - int fs else 0) = fo" by (simp add: fo_def)
    show ?thesis
      unfolding shannon_alloc_bounce_pages_def Let_def PAGE_SIZE_def fo' ll_def [symmetric] cnt' loop(2)
      by (cases "f = cnt") (simp_all add: map_option_case)
  qed
  have cs: "map chunk_of (take f t') = map (\<lambda>j. (the (pg j), ?e j)) [0 ..< f]"
    by (rule nth_equalityI) (use loop(1,6,7) t(2) in \<open>auto simp: cnt_def\<close>)
  show ?thesis
  proof (cases "f = cnt")
    case True
    let ?t2 = "t'[cnt := (t' ! cnt)\<lparr>sge_end := True\<rparr>]"
    have c: "cnt < length t'" using t(2) loop(6) by (simp add: cnt_def)
    have mark: "shannon_sg_mark_end t' (Some f) = Some ?t2"
      using c True by (simp add: shannon_sg_mark_end_def sg_store_def)
    have take2: "map chunk_of (take cnt ?t2) = map (\<lambda>j. (the (pg j), ?e j)) [0 ..< cnt]"
      using cs True by simp
    have "\<forall>j < cnt. \<not> sge_end (?t2 ! j)" "sge_end (?t2 ! cnt)"
      using loop(5) c by (auto simp: sg_fresh_def)
    then have "bounce_table ?t2 fs tot (the \<circ> pg)"
      unfolding bounce_table_def Let_def cnt_def [symmetric] take2
      using c lens by (simp add: comp_def)
    then show ?thesis using alloc mark True loop(3) c loop(6) unfolding cnt_def [symmetric] by auto
  next
    case False
    then have f: "f < cnt" "f < length t'" using loop(1,6) t(2) by (auto simp: cnt_def)
    have "for_each_sg t' (Some 0) f = Some (take f t')" by (rule for_each_sg_fresh [OF loop(5) f(2)])
    moreover have "map sge_page (take f t') = map (the \<circ> pg) [0 ..< f]"
      using arg_cong [OF cs, of "map fst"] by (simp add: chunk_of_def comp_def)
    ultimately show ?thesis
      using alloc False f loop(3,4,5,6) unfolding cnt_def [symmetric] by (auto simp: comp_def)
  qed
qed

section \<open>Copying\<close>

text \<open>Ranges of bytes (address, length), and a list of copies (source, destination, length).\<close>

fun range_bytes :: "(nat \<times> nat) list \<Rightarrow> nat list" where
  "range_bytes [] = []"
| "range_bytes ((a, n) # rs) = [a ..< a + n] @ range_bytes rs"

fun run_copies :: "(nat \<times> nat \<times> nat) list \<Rightarrow> memory \<Rightarrow> memory" where
  "run_copies [] m = m"
| "run_copies ((src, dst, n) # cs) m = run_copies cs (memcpy m dst src n)"

fun copy_srcs :: "(nat \<times> nat \<times> nat) list \<Rightarrow> nat list" where
  "copy_srcs [] = []"
| "copy_srcs ((s, d, n) # cs) = [s ..< s + n] @ copy_srcs cs"

fun copy_dsts :: "(nat \<times> nat \<times> nat) list \<Rightarrow> nat list" where
  "copy_dsts [] = []"
| "copy_dsts ((s, d, n) # cs) = [d ..< d + n] @ copy_dsts cs"

lemma copy_append [simp]:
  "copy_srcs (cs @ ds) = copy_srcs cs @ copy_srcs ds"
  "copy_dsts (cs @ ds) = copy_dsts cs @ copy_dsts ds"
  "run_copies (cs @ ds) m = run_copies ds (run_copies cs m)"
  by (induction cs arbitrary: m rule: copy_srcs.induct) auto

lemma run_copies_ok:
  "distinct (copy_dsts cs) \<Longrightarrow> set (copy_dsts cs) \<inter> set (copy_srcs cs) = {} \<Longrightarrow>
   map (run_copies cs m) (copy_dsts cs) = map m (copy_srcs cs) \<and>
   (\<forall>x. x \<notin> set (copy_dsts cs) \<longrightarrow> run_copies cs m x = m x)"
proof (induction cs arbitrary: m)
  case (Cons c cs)
  obtain s d n where c: "c = (s, d, n)" by (cases c)
  let ?m = "memcpy m d s n"
  have dist: "distinct (copy_dsts cs)" "set [d ..< d + n] \<inter> set (copy_dsts cs) = {}"
    and disj: "set (copy_dsts cs) \<inter> set (copy_srcs cs) = {}"
      "set [d ..< d + n] \<inter> set (copy_srcs cs) = {}"
    using Cons.prems by (auto simp: c)
  have here: "map ?m [d ..< d + n] = map m [s ..< s + n]"
    by (rule nth_equalityI) (auto simp: memcpy_def)
  have away: "?m x = m x" if "x \<notin> set [d ..< d + n]" for x using that by (auto simp: memcpy_def)
  note IH = Cons.IH [OF dist(1) disj(1), of ?m]
  have "map ?m (copy_srcs cs) = map m (copy_srcs cs)"
    by (rule map_cong [OF refl], rule away) (use disj(2) in blast)
  moreover have "map (run_copies cs ?m) [d ..< d + n] = map ?m [d ..< d + n]"
    by (rule map_cong [OF refl]) (use IH dist(2) in blast)
  ultimately show ?case using IH here away by (simp add: c)
qed simp

text \<open>One segment of \<open>n\<close> bytes at \<open>b\<close> against the ranges still free in the table: the copies, and what
  is left of the ranges.\<close>

fun eat :: "nat \<Rightarrow> nat \<Rightarrow> (nat \<times> nat) list \<Rightarrow> (nat \<times> nat \<times> nat) list \<times> (nat \<times> nat) list" where
  "eat b n [] = ([], [])"
| "eat b n ((a, l) # R) =
    (if n < l then ([(b, a, n)], (a + n, l - n) # R)
     else if n = l then ([(b, a, n)], R)
     else let (cs, R') = eat (b + l) (n - l) R in ((b, a, l) # cs, R'))"

abbreviation range_len :: "(nat \<times> nat) list \<Rightarrow> nat" where
  "range_len R \<equiv> sum_list (map snd R)"

lemma eat_spec:
  "n \<le> range_len R \<Longrightarrow> copy_srcs (fst (eat b n R)) = [b ..< b + n] \<and>
   range_bytes R = copy_dsts (fst (eat b n R)) @ range_bytes (snd (eat b n R)) \<and>
   range_len R = n + range_len (snd (eat b n R))"
proof (induction b n R rule: eat.induct)
  case (2 b n a l R)
  consider "n < l" | "n = l" | "l < n" by linarith
  then show ?case
  proof cases
    case 1
    then have "[a ..< a + l] = [a ..< a + n] @ [a + n ..< a + l]"
      using upt_add_eq_append [of a "a + n" "l - n"] by simp
    with 1 show ?thesis by simp
  next
    case 3
    then have "[b ..< b + n] = [b ..< b + l] @ [b + l ..< b + n]"
      using upt_add_eq_append [of b "b + l" "n - l"] by simp
    moreover have "n - l \<le> range_len R" using 2(2) 3 by simp
    moreover have "range_len R = n - l + x \<Longrightarrow> l + range_len R = n + x" for x using 3 by simp
    ultimately show ?thesis using 3 2(1) [OF _ _ \<open>n - l \<le> range_len R\<close>] by (simp add: case_prod_beta)
  qed simp
qed simp

text \<open>The ranges the copy position stands for: the rest of the current entry, then the entries after
  it, up to \<open>cnt\<close>; at the end the position is the marked entry.\<close>

definition entry_range :: "sg_entry \<Rightarrow> nat \<times> nat" where
  "entry_range e = (page_address (sge_page e) + sge_offset e, sge_length e)"

definition pos_repr :: "sg_table \<Rightarrow> nat \<Rightarrow> copy_st \<Rightarrow> (nat \<times> nat) list \<Rightarrow> bool" where
  "pos_repr t cnt s R \<longleftrightarrow> (\<exists>i \<le> cnt. cp_sge s = Some i \<and>
     (if i < cnt then 0 < cp_len s \<and>
        R = (page_address (sge_page (t ! i)) + cp_off s, cp_len s) # map entry_range (drop (Suc i) (take cnt t))
      else R = []))"

definition table_ok :: "sg_table \<Rightarrow> nat \<Rightarrow> bool" where
  "table_ok t cnt \<longleftrightarrow> cnt < length t \<and> (\<forall>j < cnt. \<not> sge_end (t ! j) \<and> 0 < sge_length (t ! j))"

lemma pos_repr_entry:
  assumes "table_ok t cnt" "i \<le> cnt" "cp_sge s = Some i" "cp_len s = sge_length (t ! i)"
    "cp_off s = sge_offset (t ! i)"
  shows "pos_repr t cnt s (map entry_range (drop i (take cnt t)))"
proof (cases "i < cnt")
  case True
  then have "drop i (take cnt t) = t ! i # drop (Suc i) (take cnt t)"
    using assms(1) Cons_nth_drop_Suc [of i "take cnt t"] by (simp add: table_ok_def)
  with True assms show ?thesis by (auto simp: pos_repr_def table_ok_def entry_range_def)
qed (use assms in \<open>auto simp: pos_repr_def\<close>)

lemma copy_step_spec:
  assumes t: "table_ok t cnt" and p: "pos_repr t cnt s ((a, l) # R)" and n: "0 < n"
  shows "\<exists>s'. copy_step t to_sg page off n s = Some (min n l, s') \<and>
    cp_mem s' = (if to_sg then memcpy (cp_mem s) a (page_address page + off) (min n l)
                 else memcpy (cp_mem s) (page_address page + off) a (min n l)) \<and>
    pos_repr t cnt s' (if n < l then (a + n, l - n) # R else R)"
proof -
  from p obtain i where i0: "i \<le> cnt" "cp_sge s = Some i"
    "if i < cnt then 0 < cp_len s \<and> (a, l) # R = (page_address (sge_page (t ! i)) + cp_off s, cp_len s) #
       map entry_range (drop (Suc i) (take cnt t)) else (a, l) # R = []"
    unfolding pos_repr_def by blast
  then have ic: "i < cnt" by (rule_tac ccontr) simp
  with i0 have i: "i < cnt" "cp_sge s = Some i" "0 < l" "cp_len s = l"
      "a = page_address (sge_page (t ! i)) + cp_off s" "R = map entry_range (drop (Suc i) (take cnt t))"
    by simp_all
  have len: "i < length t" "Suc i < length t" "\<not> sge_end (t ! i)" using t i(1) by (auto simp: table_ok_def)
  let ?m = "if to_sg then memcpy (cp_mem s) a (page_address page + off) (min n l)
            else memcpy (cp_mem s) (page_address page + off) a (min n l)"
  have cl: "(if l > n then n else l) = min n l" by (simp add: min_def)
  show ?thesis
  proof (cases "n < l")
    case True
    let ?s = "s\<lparr>cp_mem := ?m, cp_off := cp_off s + n, cp_len := l - n\<rparr>"
    have "copy_step t to_sg page off n s = Some (min n l, ?s)"
      using True len i by (simp add: copy_step_def shannon_sg_page_def sg_deref_def Let_def)
    moreover have "pos_repr t cnt ?s ((a + n, l - n) # R)"
      using True i by (auto simp: pos_repr_def)
    ultimately show ?thesis using True by auto
  next
    case False
    let ?e = "t ! Suc i"
    let ?s = "s\<lparr>cp_mem := ?m, cp_sge := Some (Suc i), cp_off := sge_offset ?e, cp_len := sge_length ?e\<rparr>"
    have "copy_step t to_sg page off n s = Some (min n l, ?s)"
      using False len i
      by (simp add: copy_step_def shannon_sg_page_def sg_deref_def shannon_sg_next_def Let_def min_def)
    moreover have "pos_repr t cnt ?s R"
      unfolding i(6) by (rule pos_repr_entry [OF t]) (use i in auto)
    ultimately show ?thesis using False by auto
  qed
qed

text \<open>The copies of the loop go from the bio to the table; the other direction swaps the two.\<close>

fun turn :: "(nat \<times> nat \<times> nat) list \<Rightarrow> (nat \<times> nat \<times> nat) list" where
  "turn [] = []"
| "turn ((s, d, n) # cs) = (d, s, n) # turn cs"

lemma turn_simps [simp]:
  "turn (cs @ ds) = turn cs @ turn ds" "copy_srcs (turn cs) = copy_dsts cs" "copy_dsts (turn cs) = copy_srcs cs"
  by (induction cs rule: turn.induct) auto

definition directed :: "bool \<Rightarrow> (nat \<times> nat \<times> nat) list \<Rightarrow> (nat \<times> nat \<times> nat) list" where
  "directed to_sg cs = (if to_sg then cs else turn cs)"

lemma directed_simps [simp]:
  "directed to_sg [] = []"
  "directed to_sg (cs @ ds) = directed to_sg cs @ directed to_sg ds"
  "run_copies (directed to_sg ((b, a, n) # cs)) m =
     run_copies (directed to_sg cs) (if to_sg then memcpy m a b n else memcpy m b a n)"
  by (simp_all add: directed_def)

lemma copy_segment_spec:
  assumes t: "table_ok t cnt"
  shows "pos_repr t cnt s R \<Longrightarrow> 0 < n \<Longrightarrow> n \<le> range_len R \<Longrightarrow> n < k \<Longrightarrow>
    \<exists>s'. copy_segment k t to_sg page off n s = Some s' \<and>
      cp_mem s' = run_copies (directed to_sg (fst (eat (page_address page + off) n R))) (cp_mem s) \<and>
      pos_repr t cnt s' (snd (eat (page_address page + off) n R))"
proof (induction k arbitrary: s R off n)
  case (Suc k)
  obtain a l R' where R: "R = (a, l) # R'" using Suc.prems(2,3) by (cases R) auto
  have l: "0 < l" using Suc.prems(1) by (auto simp: R pos_repr_def split: if_splits)
  let ?b = "page_address page + off"
  obtain s1 where s1: "copy_step t to_sg page off n s = Some (min n l, s1)"
      "cp_mem s1 = (if to_sg then memcpy (cp_mem s) a ?b (min n l) else memcpy (cp_mem s) ?b a (min n l))"
      "pos_repr t cnt s1 (if n < l then (a + n, l - n) # R' else R')"
    using copy_step_spec [OF t Suc.prems(1) [unfolded R] Suc.prems(2)] by metis
  show ?case
  proof (cases "n \<le> l")
    case True
    then show ?thesis using s1 by (auto simp: R min_def)
  next
    case False
    then have rec: "\<exists>s'. copy_segment k t to_sg page (off + l) (n - l) s1 = Some s' \<and>
        cp_mem s' = run_copies (directed to_sg (fst (eat (page_address page + (off + l)) (n - l) R'))) (cp_mem s1) \<and>
        pos_repr t cnt s' (snd (eat (page_address page + (off + l)) (n - l) R'))"
      using s1(3) Suc.prems l by (intro Suc.IH) (auto simp: R)
    then show ?thesis using s1 False l by (auto simp: R min_def case_prod_beta add.assoc)
  qed
qed simp

fun eats :: "(nat \<times> nat) list \<Rightarrow> (nat \<times> nat) list \<Rightarrow> (nat \<times> nat \<times> nat) list \<times> (nat \<times> nat) list" where
  "eats [] R = ([], R)"
| "eats ((b, n) # bs) R =
    (let (cs, R1) = eat b n R; (ds, R2) = eats bs R1 in (cs @ ds, R2))"

lemma eats_spec:
  "range_len bs \<le> range_len R \<Longrightarrow> copy_srcs (fst (eats bs R)) = range_bytes bs \<and>
   range_bytes R = copy_dsts (fst (eats bs R)) @ range_bytes (snd (eats bs R)) \<and>
   range_len R = range_len bs + range_len (snd (eats bs R))"
proof (induction bs R rule: eats.induct)
  case (2 b n bs R)
  have e: "copy_srcs (fst (eat b n R)) = [b ..< b + n]"
    "range_bytes R = copy_dsts (fst (eat b n R)) @ range_bytes (snd (eat b n R))"
    "range_len R = n + range_len (snd (eat b n R))"
    using eat_spec [of n R b] "2.prems" by auto
  have "range_len bs \<le> range_len (snd (eat b n R))" using e(3) "2.prems" by simp
  from "2.IH" [OF refl prod.collapse this] e show ?case by (simp add: case_prod_beta)
qed simp

definition bvec_range :: "bvec \<Rightarrow> nat \<times> nat" where
  "bvec_range bv = (page_address (bv_page bv) + bv_offset bv, bv_len bv)"

lemma copy_segments_spec:
  assumes t: "table_ok t cnt"
  shows "pos_repr t cnt s R \<Longrightarrow> (\<forall>ib \<in> set segs. 0 < bv_len (snd ib)) \<Longrightarrow>
    range_len (map (bvec_range \<circ> snd) segs) \<le> range_len R \<Longrightarrow>
    \<exists>s'. fold_opt (\<lambda>(_, bv) s. copy_segment (bv_len bv + 1) t to_sg (bv_page bv) (bv_offset bv) (bv_len bv) s)
           segs s = Some s' \<and>
         cp_mem s' = run_copies (directed to_sg (fst (eats (map (bvec_range \<circ> snd) segs) R))) (cp_mem s)"
proof (induction segs arbitrary: s R)
  case (Cons ib segs)
  obtain idx bv where ib: "ib = (idx, bv)" by (cases ib)
  let ?e = "eat (page_address (bv_page bv) + bv_offset bv) (bv_len bv) R"
  have n: "0 < bv_len bv" "bv_len bv \<le> range_len R" using Cons.prems(2,3) by (auto simp: ib bvec_range_def [of bv])
  obtain s1 where s1: "copy_segment (bv_len bv + 1) t to_sg (bv_page bv) (bv_offset bv) (bv_len bv) s = Some s1"
      "cp_mem s1 = run_copies (directed to_sg (fst ?e)) (cp_mem s)" "pos_repr t cnt s1 (snd ?e)"
    using copy_segment_spec [OF t Cons.prems(1) n, of "bv_len bv + 1" to_sg "bv_page bv" "bv_offset bv"] by auto
  have "range_len (map (bvec_range \<circ> snd) segs) \<le> range_len (snd ?e)"
    using eat_spec [OF n(2), of "page_address (bv_page bv) + bv_offset bv"] Cons.prems(3)
    by (simp add: ib bvec_range_def [of bv] comp_def)
  from Cons.IH [OF s1(3) _ this] Cons.prems(2) s1 show ?case
    by (auto simp: ib case_prod_beta bvec_range_def [of bv] comp_def simp del: copy_segment.simps)
qed simp

section \<open>Properties\<close>

text \<open>C4 (safety). \<open>shannon_alloc_bounce_pages\<close> neither leaks nor overruns. When every page is available
  it returns their number and the table holds them in order: the lengths add up to the
  requested size, no entry leaves its page, all but the first start at offset 0 and all but the
  last end at the page end, and the end marker sits on the entry after the last one. When a page
  is missing it returns \<open>-ENOMEM\<close> and gives back exactly the pages it got.\<close>

theorem alloc_bounce_pages_correct:
  assumes "sg_fresh t" "bounce_count fs tot < length t" "fs < 4096" "fs \<le> tot"
  shows "if \<forall>j < bounce_count fs tot. pg j \<noteq> None
    then \<exists>t'. shannon_alloc_bounce_pages pg t fs tot = Some (int (bounce_count fs tot), t', []) \<and>
           bounce_table t' fs tot (the \<circ> pg)
    else \<exists>t' f. f < bounce_count fs tot \<and> pg f = None \<and> (\<forall>j < f. pg j \<noteq> None) \<and>
           shannon_alloc_bounce_pages pg t fs tot = Some (- ENOMEM, t', map (the \<circ> pg) [0 ..< f])"
  using alloc_bounce_cases [OF assms, of pg] by (auto split: if_splits)

definition sample_table :: sg_table where
  "sample_table = [zero_sge, zero_sge, zero_sge, zero_sge, zero_sge\<lparr>sge_end := True\<rparr>]"

lemma sample_table_fresh: "sg_fresh sample_table" "length sample_table = 5"
  by (auto simp: sample_table_def sg_fresh_def zero_sge_def less_Suc_eq nth_Cons')

lemma sample_bounce_count: "bounce_count 1536 6000 = 3"
  by (simp add: bounce_count_def)

theorem alloc_bounce_pages_correct_witness:
  "(\<exists>t'. shannon_alloc_bounce_pages (\<lambda>i. Some (100 + i)) sample_table 1536 6000 = Some (3, t', []) \<and>
      bounce_table t' 1536 6000 (\<lambda>i. 100 + i)) \<and>
   (\<exists>t'. shannon_alloc_bounce_pages (\<lambda>i. if i < 2 then Some (100 + i) else None) sample_table 1536 6000 =
      Some (- 12, t', [100, 101]))"
proof
  show "\<exists>t'. shannon_alloc_bounce_pages (\<lambda>i. Some (100 + i)) sample_table 1536 6000 = Some (3, t', []) \<and>
      bounce_table t' 1536 6000 (\<lambda>i. 100 + i)"
    using alloc_bounce_pages_correct [OF sample_table_fresh(1), of 1536 6000 "\<lambda>i. Some (100 + i)"]
    by (simp add: sample_table_fresh sample_bounce_count comp_def)
  let ?pg = "\<lambda>i. if i < 2 then Some (100 + i) else None"
  have miss: "\<not> (\<forall>j < bounce_count 1536 6000. ?pg j \<noteq> None)"
    by (auto simp: sample_bounce_count intro!: exI [of _ 2])
  have "\<exists>t' f. f < bounce_count 1536 6000 \<and> ?pg f = None \<and> (\<forall>j < f. ?pg j \<noteq> None) \<and>
      shannon_alloc_bounce_pages ?pg sample_table 1536 6000 = Some (- ENOMEM, t', map (the \<circ> ?pg) [0 ..< f])"
    using alloc_bounce_pages_correct [OF sample_table_fresh(1), of 1536 6000 ?pg]
    unfolding if_not_P [OF miss] by (simp add: sample_table_fresh sample_bounce_count)
  then obtain t' f where f: "f < 3" "?pg f = None" "\<forall>j < f. ?pg j \<noteq> None"
      "shannon_alloc_bounce_pages ?pg sample_table 1536 6000 = Some (- ENOMEM, t', map (the \<circ> ?pg) [0 ..< f])"
    unfolding sample_bounce_count by blast
  then have "f = 2" by (auto split: if_splits)
  with f(4) show "\<exists>t'. shannon_alloc_bounce_pages ?pg sample_table 1536 6000 = Some (- 12, t', [100, 101])"
    by (auto simp: ENOMEM_def upt_rec)
qed

text \<open>The bytes of a bio and of the first \<open>cnt\<close> entries of a table.\<close>

definition bio_bytes :: "bio \<Rightarrow> nat list" where
  "bio_bytes b = range_bytes (map (bvec_range \<circ> snd) (bi_iter_segs b))"

definition table_bytes :: "sg_table \<Rightarrow> nat \<Rightarrow> nat list" where
  "table_bytes t cnt = range_bytes (map entry_range (take cnt t))"

lemma range_bytes_empty: "range_len R = 0 \<Longrightarrow> range_bytes R = []"
  by (induction R rule: range_bytes.induct) auto

text \<open>The copy always ends, and it is the list of block copies that pairs the bytes of the bio with those
  of the table.\<close>

lemma copy_bounce_runs:
  assumes t: "table_ok t cnt" "0 < cnt" and b: "\<forall>ib \<in> set (bi_iter_segs b). 0 < bv_len (snd ib)"
    and len: "total_len (bi_iter_segs b) = sum_list (map sge_length (take cnt t))"
  shows "\<exists>cs. copy_srcs cs = bio_bytes b \<and> copy_dsts cs = table_bytes t cnt \<and>
    shannon_copy_bounce_pages m b t to_sg = Some (run_copies (directed to_sg cs) m)"
proof -
  let ?R = "map entry_range (take cnt t)" and ?bs = "map (bvec_range \<circ> snd) (bi_iter_segs b)"
  let ?cs = "fst (eats ?bs ?R)"
  have e: "sg_deref t (Some 0) = Some (t ! 0)" using t by (auto simp: sg_deref_def table_ok_def)
  let ?s = "\<lparr>cp_mem = m, cp_sge = Some 0, cp_len = sge_length (t ! 0), cp_off = sge_offset (t ! 0)\<rparr>"
  have pos: "pos_repr t cnt ?s ?R" using pos_repr_entry [OF t(1), of 0 ?s] by simp
  have lens: "range_len ?bs = range_len ?R"
    using len by (simp add: bvec_range_def entry_range_def comp_def)
  have eats: "copy_srcs ?cs = bio_bytes b" "copy_dsts ?cs = table_bytes t cnt"
    using eats_spec [of ?bs ?R] lens range_bytes_empty [of "snd (eats ?bs ?R)"]
    by (auto simp: bio_bytes_def table_bytes_def)
  obtain s' where s': "fold_opt (\<lambda>(_, bv) s. copy_segment (bv_len bv + 1) t to_sg (bv_page bv) (bv_offset bv)
      (bv_len bv) s) (bi_iter_segs b) ?s = Some s'" "cp_mem s' = run_copies (directed to_sg ?cs) m"
    using copy_segments_spec [OF t(1) pos b, of to_sg] lens by auto
  have "shannon_copy_bounce_pages m b t to_sg = Some (run_copies (directed to_sg ?cs) m)"
    using e s' by (simp add: shannon_copy_bounce_pages_def del: copy_segment.simps)
  with eats show ?thesis by blast
qed

lemma copy_bounce_both:
  assumes t: "table_ok t cnt" "0 < cnt" and b: "\<forall>ib \<in> set (bi_iter_segs b). 0 < bv_len (snd ib)"
    and len: "total_len (bi_iter_segs b) = sum_list (map sge_length (take cnt t))"
    and dist: "distinct (if to_sg then table_bytes t cnt else bio_bytes b)"
    and disj: "set (bio_bytes b) \<inter> set (table_bytes t cnt) = {}"
  shows "\<exists>m'. shannon_copy_bounce_pages m b t to_sg = Some m' \<and>
    (let src = if to_sg then bio_bytes b else table_bytes t cnt;
         dst = if to_sg then table_bytes t cnt else bio_bytes b
     in map m' dst = map m src \<and> (\<forall>x. x \<notin> set dst \<longrightarrow> m' x = m x))"
proof -
  obtain cs where cs: "copy_srcs cs = bio_bytes b" "copy_dsts cs = table_bytes t cnt"
      "shannon_copy_bounce_pages m b t to_sg = Some (run_copies (directed to_sg cs) m)"
    using copy_bounce_runs [OF t b len] by blast
  show ?thesis
  proof (cases to_sg)
    case True
    then show ?thesis
      using cs run_copies_ok [of cs m] dist disj by (auto simp: directed_def Int_commute)
  next
    case False
    then show ?thesis
      using cs run_copies_ok [of "turn cs" m] dist disj by (auto simp: directed_def)
  qed
qed

lemma sum_take_lengths:
  "sum_list (map (fst \<circ> snd) (map chunk_of es)) = sum_list (map sge_length es)"
  by (simp add: comp_def chunk_of_def)

lemma bounce_table_ok: "bounce_table t fs tot pages \<Longrightarrow> table_ok t (bounce_count fs tot)"
proof -
  assume b: "bounce_table t fs tot pages"
  have "0 < sge_length (t ! j)" if "j < bounce_count fs tot" for j
  proof -
    have "0 < fst (snd (map chunk_of (take (bounce_count fs tot) t) ! j))"
      "bounce_count fs tot < length t"
      using b that by (auto simp: bounce_table_def Let_def)
    then show ?thesis using that by (simp add: chunk_of_def)
  qed
  with b show ?thesis by (auto simp: bounce_table_def table_ok_def Let_def)
qed

lemma bounce_count_pos: "0 < tot \<Longrightarrow> fs \<le> tot \<Longrightarrow> 0 < bounce_count fs tot"
  by (auto simp: bounce_count_def)

text \<open>C6 (roundtrip). Over a table of bounce pages of the same total size, distinct from the bio's
  pages, \<open>shannon_copy_bounce_pages\<close> ends without leaving the table; towards the device the bounce
  pages then hold the bio's bytes in order, from the device the bio holds the bytes of the bounce
  pages, and no other byte of memory changes.\<close>

theorem copy_bounce_pages_correct:
  assumes "bounce_table t fs (total_len (bi_iter_segs b)) pages"
    and "0 < total_len (bi_iter_segs b)" "fs \<le> total_len (bi_iter_segs b)"
    and "\<forall>ib \<in> set (bi_iter_segs b). 0 < bv_len (snd ib)"
    and "cnt = bounce_count fs (total_len (bi_iter_segs b))"
    and "distinct (bio_bytes b @ table_bytes t cnt)"
  shows "\<exists>m1 m2. shannon_copy_bounce_pages m b t True = Some m1 \<and>
    map m1 (table_bytes t cnt) = map m (bio_bytes b) \<and>
    (\<forall>x. x \<notin> set (table_bytes t cnt) \<longrightarrow> m1 x = m x) \<and>
    shannon_copy_bounce_pages m b t False = Some m2 \<and>
    map m2 (bio_bytes b) = map m (table_bytes t cnt) \<and>
    (\<forall>x. x \<notin> set (bio_bytes b) \<longrightarrow> m2 x = m x)"
proof -
  let ?tot = "total_len (bi_iter_segs b)"
  have t: "table_ok t cnt" "0 < cnt"
    using bounce_table_ok [OF assms(1)] bounce_count_pos assms(2,3,5) by auto
  have "sum_list (map (fst \<circ> snd) (map chunk_of (take cnt t))) = ?tot"
    using assms(1) by (simp only: bounce_table_def Let_def assms(5) [symmetric])
  then have len: "?tot = sum_list (map sge_length (take cnt t))"
    by (simp only: sum_take_lengths)
  show ?thesis
    using copy_bounce_both [OF t assms(4) len, of True m] copy_bounce_both [OF t assms(4) len, of False m]
      assms(6) by (auto simp: Let_def)
qed

definition sample_bounced :: sg_table where
  "sample_bounced = [zero_sge\<lparr>sge_page := 100, sge_offset := 4095, sge_length := 1\<rparr>,
     zero_sge\<lparr>sge_page := 101, sge_length := 1\<rparr>, zero_sge\<lparr>sge_end := True\<rparr>]"

definition odd_bio :: bio where
  "odd_bio = \<lparr>bi_io_vec = True, bi_iter_segs = [(0, \<lparr>bv_page = 7, bv_offset = 1, bv_len = 2\<rparr>)],
     bi_idx = 0, bi_size = 2, bi_sector = 0\<rparr>"

lemma bounce_count_1_2: "bounce_count 1 2 = 2"
  by (simp add: bounce_count_def)

lemma sample_bounced_ok: "bounce_table sample_bounced 1 (total_len (bi_iter_segs odd_bio)) (\<lambda>i. 100 + i)"
proof -
  have "total_len (bi_iter_segs odd_bio) = 2" by (simp add: odd_bio_def)
  moreover have "take 2 sample_bounced = [zero_sge\<lparr>sge_page := 100, sge_offset := 4095, sge_length := 1\<rparr>,
     zero_sge\<lparr>sge_page := 101, sge_length := 1\<rparr>]" by (simp add: sample_bounced_def)
  ultimately show ?thesis
    unfolding bounce_table_def Let_def
    by (simp only: bounce_count_1_2)
       (simp add: sample_bounced_def zero_sge_def chunk_of_def less_Suc_eq numeral_2_eq_2)
qed

theorem copy_bounce_pages_correct_witness:
  "\<exists>m1. shannon_copy_bounce_pages (\<lambda>a. of_nat a) odd_bio sample_bounced True = Some m1 \<and>
     map m1 [413695, 413696] = [1 + of_nat 28672, 2 + of_nat 28672 :: u8]"
proof -
  have tot: "total_len (bi_iter_segs odd_bio) = 2" by (simp add: odd_bio_def)
  have bytes: "bio_bytes odd_bio = [28673, 28674]" "table_bytes sample_bounced 2 = [413695, 413696]"
    by (simp_all add: bio_bytes_def table_bytes_def odd_bio_def sample_bounced_def bvec_range_def
        entry_range_def page_address_def PAGE_SIZE_def zero_sge_def upt_conv_Cons)
  have hyps: "0 < total_len (bi_iter_segs odd_bio)" "1 \<le> total_len (bi_iter_segs odd_bio)"
    "\<forall>ib \<in> set (bi_iter_segs odd_bio). 0 < bv_len (snd ib)"
    "2 = bounce_count 1 (total_len (bi_iter_segs odd_bio))"
    "distinct (bio_bytes odd_bio @ table_bytes sample_bounced 2)"
    by (simp_all only: tot bytes bounce_count_1_2) (simp_all add: odd_bio_def)
  obtain m1 where "shannon_copy_bounce_pages (\<lambda>a. of_nat a) odd_bio sample_bounced True = Some m1"
      "map m1 (table_bytes sample_bounced 2) = map (\<lambda>a. of_nat a) (bio_bytes odd_bio)"
    using copy_bounce_pages_correct [OF sample_bounced_ok hyps, of "\<lambda>a. of_nat a"] by blast
  then show ?thesis unfolding bytes by auto
qed

section \<open>The whole conversion with bounce pages\<close>

lemma bounce_count_fits:
  assumes L: "0 < L" "L \<le> 4096" and T: "0 < (tot :: nat)" and n: "0 < n"
  shows "bounce_count fs tot < 2 * ((tot + L - 1) div L + n)"
proof -
  have "bounce_count fs tot \<le> (tot - fs) div 4096 + 2" by (simp add: bounce_count_def)
  also have "(tot - fs) div 4096 \<le> tot div 4096" by (intro div_le_mono) simp
  also have "tot div 4096 \<le> (tot + L - 1) div L"
    using div_le_ceil_div [OF L] by (simp add: ceil_div_def)
  finally have "bounce_count fs tot \<le> (tot + L - 1) div L + 2" by simp
  moreover have "1 \<le> (tot + L - 1) div L"
    using L(1) T div_le_mono [of L "tot + L - 1" L] by simp
  moreover have "x \<le> c + 2 \<Longrightarrow> 1 \<le> c \<Longrightarrow> x < 2 * (c + n)" for x c :: nat using n by presburger
  ultimately show ?thesis by blast
qed

text \<open>The state when the bounce pages are requested.\<close>

lemma convert_bio_to_bounce:
  assumes L: "0 < L" and b: "wf_bio b L" "needs_bounce b"
    and mem: "sg_memory_available k (bio_sg_count b L)"
  shows "\<exists>t sb1. sg_fresh t \<and> length t = bio_sg_count b L \<and> sb_sg_count sb1 = bio_sg_count b L \<and>
    sb_first_size sb1 = first_size_of (bi_sector b) (bi_size b) L \<and> sb_need_bounce sb1 \<and>
    sb_bio_size sb1 = bi_size b \<and> sb_dma_dir sb1 = sb_dma_dir sb \<and>
    convert_bio_body k m sb b L =
      (case shannon_alloc_bounce_pages (k_alloc_page k) t (sb_first_size sb1) (bi_size b) of
         None \<Rightarrow> None
       | Some (ret, t', freed) \<Rightarrow>
          if ret \<le> 0 then map_option (\<lambda>sb'. (0, sb', m, freed))
            (convert_old_fashion (sb1\<lparr>sb_has_hole := False, sb_sg := Some t'\<rparr>) b L t')
          else let sb2 = sb1\<lparr>sb_has_hole := False, sb_sg := Some t', sb_used_sg_count := nat ret\<rparr>
               in if sb_dma_dir sb = SHANNON_DMA_TODEVICE
                  then map_option (\<lambda>m'. (0, sb2, m', freed)) (shannon_copy_bounce_pages m b t' True)
                  else Some (0, sb2, m, freed))"
proof -
  let ?n = "bio_sg_count b L"
  have pos: "0 < ?n" using b(1) by (auto simp: wf_bio_def bio_sg_count_def)
  obtain t where t: "shannon_sg_init_table (replicate ?n zero_sge) ?n = Some t" "sg_fresh t" "length t = ?n"
    using sg_init_table_fresh [OF pos] by auto
  define sb0 where
    "sb0 = sb\<lparr>sb_bio_size := bi_size b, sb_segments := length (bi_iter_segs b), sb_sg_count := ?n\<rparr>"
  define sb1 where "sb1 = (if shannon_sg_alloc (k_kzalloc k) (k_GFP_NOWARN k) ?n (k_GFP_SHANNON k) = None
      then sb0\<lparr>sb_is_valloc := True\<rparr> else sb0)\<lparr>sb_sg := Some t, sb_start_sector := bi_sector b,
        sb_first_size := first_size_of (bi_sector b) (bi_size b) L, sb_need_bounce := True\<rparr>"
  have "convert_bio_body k m sb b L =
      (case shannon_alloc_bounce_pages (k_alloc_page k) t (sb_first_size sb1) (bi_size b) of
         None \<Rightarrow> None
       | Some (ret, t', freed) \<Rightarrow>
          if ret \<le> 0 then map_option (\<lambda>sb'. (0, sb', m, freed))
            (convert_old_fashion (sb1\<lparr>sb_has_hole := False, sb_sg := Some t'\<rparr>) b L t')
          else let sb2 = sb1\<lparr>sb_has_hole := False, sb_sg := Some t', sb_used_sg_count := nat ret\<rparr>
               in if sb_dma_dir sb = SHANNON_DMA_TODEVICE
                  then map_option (\<lambda>m'. (0, sb2, m', freed)) (shannon_copy_bounce_pages m b t' True)
                  else Some (0, sb2, m, freed))"
    using mem b(2) t(1)
    by (auto simp: convert_bio_body_def Let_def sb1_def sb0_def bio_sg_count_def get_bi_size_def
        shannon_bio_segments_def get_bi_sector_def sg_memory_available_def shannon_sg_alloc_def
        shannon_sg_vzalloc_def split: option.splits)
  then show ?thesis using t(2,3)
    by (intro exI [of _ t] exI [of _ sb1]) (simp add: sb1_def sb0_def)
qed

text \<open>What the page allocator promises: the pages it hands out are different from one another and from
  the pages of the bio. Nothing is asked of a request that fails.\<close>

definition fresh_pages :: "(nat \<Rightarrow> ptr option) \<Rightarrow> nat \<Rightarrow> nat list \<Rightarrow> bool" where
  "fresh_pages pg cnt bytes \<longleftrightarrow> (\<forall>j < cnt. case pg j of None \<Rightarrow> True
     | Some p \<Rightarrow> (\<forall>i < j. pg i \<noteq> Some p) \<and> (\<forall>x \<in> set bytes. x div 4096 \<noteq> p))"

lemma fresh_pages_all:
  assumes "fresh_pages pg cnt bytes" "\<forall>j < cnt. pg j \<noteq> None"
  shows "distinct (map (the \<circ> pg) [0 ..< cnt]) \<and> (\<forall>j < cnt. \<forall>x \<in> set bytes. x div 4096 \<noteq> (the \<circ> pg) j)"
proof -
  have "the (pg i) \<noteq> the (pg j)" if "i < j" "j < cnt" for i j
  proof -
    have "pg i \<noteq> None" "pg j \<noteq> None" using assms(2) that by simp_all
    then obtain p q where pq: "pg j = Some p" "pg i = Some q" by blast
    then have "pg i \<noteq> Some p" using assms(1) that by (auto simp: fresh_pages_def)
    with pq show ?thesis by simp
  qed
  then have "inj_on (the \<circ> pg) {0 ..< cnt}"
    by (intro linorder_inj_onI) auto
  moreover have "x div 4096 \<noteq> the (pg j)" if "j < cnt" "x \<in> set bytes" for j x
    using assms that by (fastforce simp: fresh_pages_def)
  ultimately show ?thesis by (simp add: distinct_map)
qed

text \<open>An allocator that is out of memory, and one that fails from some request on, keep the promise.\<close>

lemma fresh_pages_none: "fresh_pages (\<lambda>_. None) cnt bytes"
  by (simp add: fresh_pages_def)

lemma range_bytes_concat: "range_bytes rs = concat (map (\<lambda>r. [fst r ..< fst r + snd r]) rs)"
  by (induction rs rule: range_bytes.induct) auto

lemma distinct_ranges:
  assumes "distinct (map (\<lambda>r. fst r div 4096) rs)"
    and "\<And>r. r \<in> set rs \<Longrightarrow> fst r mod 4096 + snd r \<le> (4096 :: nat)"
  shows "distinct (range_bytes rs) \<and> (\<forall>x \<in> set (range_bytes rs). x div 4096 \<in> (\<lambda>r. fst r div 4096) ` set rs)"
  using assms
proof (induction rs rule: range_bytes.induct)
  case (2 a n rs)
  have page: "x div 4096 = a div 4096" if "x \<in> set [a ..< a + n]" for x
  proof -
    define p r where "p = a div 4096" and "r = a mod 4096"
    have "r + n \<le> 4096" using "2.prems"(2) [of "(a, n)"] by (simp add: r_def)
    moreover have "a = p * 4096 + r" by (simp add: p_def r_def)
    moreover have "a \<le> x" "x < a + n" using that by auto
    ultimately have "p * 4096 \<le> x" "x < p * 4096 + 4096" by linarith+
    then have "4096 * p \<le> x" "x < 4096 * Suc p" by (simp_all add: mult.commute)
    then show ?thesis unfolding p_def [symmetric] by (rule div_nat_eqI)
  qed
  have IH: "distinct (range_bytes rs)"
    "\<forall>x \<in> set (range_bytes rs). x div 4096 \<in> (\<lambda>r. fst r div 4096) ` set rs"
    using "2.IH" "2.prems" by auto
  have "a div 4096 \<notin> (\<lambda>r. fst r div 4096) ` set rs" using "2.prems"(1) by auto
  then have disj: "set [a ..< a + n] \<inter> set (range_bytes rs) = {}"
    using page IH(2) unfolding disjoint_iff by metis
  have "x div 4096 \<in> (\<lambda>r. fst r div 4096) ` set ((a, n) # rs)"
    if "x \<in> set (range_bytes ((a, n) # rs))" for x
  proof (cases "x \<in> set [a ..< a + n]")
    case True
    from page [OF True] show ?thesis by simp
  next
    case False
    with that have "x \<in> set (range_bytes rs)" by auto
    with IH(2) show ?thesis by auto
  qed
  moreover have "distinct (range_bytes ((a, n) # rs))" using IH(1) disj by simp
  ultimately show ?case by blast
qed simp

lemma bounce_bytes_distinct:
  assumes t: "bounce_table t fs tot (the \<circ> pg)" and f: "fresh_pages pg (bounce_count fs tot) (bio_bytes b)"
    and all: "\<forall>j < bounce_count fs tot. pg j \<noteq> None"
  shows "distinct (table_bytes t (bounce_count fs tot)) \<and>
    set (bio_bytes b) \<inter> set (table_bytes t (bounce_count fs tot)) = {}"
proof -
  let ?cnt = "bounce_count fs tot" let ?R = "map entry_range (take ?cnt t)" and ?pages = "the \<circ> pg"
  note f = fresh_pages_all [OF f all]
  have len: "?cnt < length t" using t by (simp add: bounce_table_def Let_def)
  have pg: "map sge_page (take ?cnt t) = map ?pages [0 ..< ?cnt]"
    using t by (auto simp: bounce_table_def Let_def chunk_of_def comp_def)
  have inside: "sge_offset (t ! j) + sge_length (t ! j) \<le> 4096" "0 < sge_length (t ! j)" if "j < ?cnt" for j
  proof -
    have "0 < fst (snd (map chunk_of (take ?cnt t) ! j))"
      "fst (snd (map chunk_of (take ?cnt t) ! j)) + snd (snd (map chunk_of (take ?cnt t) ! j)) \<le> 4096"
      using t that by (auto simp: bounce_table_def Let_def)
    then show "sge_offset (t ! j) + sge_length (t ! j) \<le> 4096" "0 < sge_length (t ! j)"
      using that len by (simp_all add: chunk_of_def)
  qed
  have R: "fst (entry_range (t ! j)) div 4096 = sge_page (t ! j)"
      "fst (entry_range (t ! j)) mod 4096 + snd (entry_range (t ! j)) \<le> 4096" if "j < ?cnt" for j
  proof -
    have "sge_offset (t ! j) < 4096" using inside [OF that] by linarith
    then show "fst (entry_range (t ! j)) div 4096 = sge_page (t ! j)"
      "fst (entry_range (t ! j)) mod 4096 + snd (entry_range (t ! j)) \<le> 4096"
      using inside(1) [OF that] by (simp_all add: entry_range_def page_address_def PAGE_SIZE_def)
  qed
  have pages_R: "map (\<lambda>r. fst r div 4096) ?R = map ?pages [0 ..< ?cnt]"
    unfolding pg [symmetric] by (rule nth_equalityI) (use R(1) len in simp_all)
  have "distinct (map (\<lambda>r. fst r div 4096) ?R)"
    using f unfolding pages_R by blast
  moreover have "fst r mod 4096 + snd r \<le> 4096" if "r \<in> set ?R" for r
    using that R(2) len by (auto simp: in_set_conv_nth)
  ultimately have D: "distinct (range_bytes ?R)"
      "\<forall>x \<in> set (range_bytes ?R). x div 4096 \<in> (\<lambda>r. fst r div 4096) ` set ?R"
    using distinct_ranges by blast+
  have "x \<notin> set (bio_bytes b)" if "x \<in> set (range_bytes ?R)" for x
  proof
    assume x: "x \<in> set (bio_bytes b)"
    have "x div 4096 \<in> set (map ?pages [0 ..< ?cnt])" using D(2) that pages_R by (metis set_map)
    then show False using f x by auto
  qed
  then show ?thesis using D(1) by (auto simp: table_bytes_def)
qed

lemma first_size_small: "L = 2 ^ n \<Longrightarrow> n \<le> 12 \<Longrightarrow> first_size_of s tot L < 4096 \<and> first_size_of s tot L \<le> tot"
proof -
  assume L: "L = 2 ^ n" "n \<le> 12"
  have "L \<le> 2 ^ 12" unfolding L(1) by (rule power_increasing) (use L(2) in auto)
  moreover have "0 < L" using L(1) by simp
  ultimately have "(L - unat s * 512 mod L) mod L < 4096"
    by (intro less_le_trans [OF mod_less_divisor [of L]]) simp_all
  then show ?thesis using L by (auto simp: first_size_of_eq)
qed

lemma convert_bio_bounce_cases:
  assumes L: "L = 2 ^ n" "n \<le> 12" and b: "wf_bio b L" "needs_bounce b"
    and seg: "\<forall>ib \<in> set (bi_iter_segs b). 0 < bv_len (snd ib)"
    and mem: "sg_memory_available k (bio_sg_count b L)"
    and fs: "fs = first_size_of (bi_sector b) (bi_size b) L" and cnt: "cnt = bounce_count fs (bi_size b)"
  shows "if \<forall>j < cnt. k_alloc_page k j \<noteq> None
    then \<exists>sb' t m'. shannon_convert_bio k m sb b L = Some (0, sb', m', []) \<and> sb_sg sb' = Some t \<and>
      sb_need_bounce sb' \<and> \<not> sb_has_hole sb' \<and> sb_used_sg_count sb' = cnt \<and>
      bounce_table t fs (bi_size b) (the \<circ> k_alloc_page k) \<and>
      (if sb_dma_dir sb = SHANNON_DMA_TODEVICE
       then fresh_pages (k_alloc_page k) cnt (bio_bytes b) \<longrightarrow>
            map m' (table_bytes t cnt) = map m (bio_bytes b) \<and>
            (\<forall>x. x \<notin> set (table_bytes t cnt) \<longrightarrow> m' x = m x)
       else m' = m)
    else \<exists>sb' t f. k_alloc_page k f = None \<and> (\<forall>j < f. k_alloc_page k j \<noteq> None) \<and>
      shannon_convert_bio k m sb b L = Some (0, sb', m, map (the \<circ> k_alloc_page k) [0 ..< f]) \<and>
      sb_sg sb' = Some t \<and> \<not> sb_need_bounce sb' \<and> sb_has_hole sb' \<and>
      map chunk_of (take (sb_used_sg_count sb') t) =
        segs_chunks L (bi_iter_segs b) (L - unat (bi_sector b) * 512 mod L)"
proof -
  let ?pg = "k_alloc_page k"
  have L0: "0 < L" "n \<le> 32" using L by simp_all
  have "L \<le> 2 ^ 12" unfolding L(1) by (rule power_increasing) (use L(2) in auto)
  then have L12: "L \<le> 4096" by simp
  have tot: "bi_size b = total_len (bi_iter_segs b)" "0 < bi_size b" and io: "bi_io_vec b"
    using b(1) by (auto simp: wf_bio_def)
  then have segs: "0 < length (bi_iter_segs b)" by auto
  have small: "fs < 4096" "fs \<le> bi_size b" using first_size_small [OF L] fs by simp_all
  obtain t sb1 where t: "sg_fresh t" "length t = bio_sg_count b L" "sb_first_size sb1 = fs" "sb_need_bounce sb1"
    and body: "convert_bio_body k m sb b L =
      (case shannon_alloc_bounce_pages ?pg t (sb_first_size sb1) (bi_size b) of None \<Rightarrow> None
       | Some (ret, t', freed) \<Rightarrow>
          if ret \<le> 0 then map_option (\<lambda>sb'. (0, sb', m, freed))
            (convert_old_fashion (sb1\<lparr>sb_has_hole := False, sb_sg := Some t'\<rparr>) b L t')
          else let sb2 = sb1\<lparr>sb_has_hole := False, sb_sg := Some t', sb_used_sg_count := nat ret\<rparr>
               in if sb_dma_dir sb = SHANNON_DMA_TODEVICE
                  then map_option (\<lambda>m'. (0, sb2, m', freed)) (shannon_copy_bounce_pages m b t' True)
                  else Some (0, sb2, m, freed))"
    using convert_bio_to_bounce [OF L0(1) b mem, of sb m] fs by auto
  have conv: "shannon_convert_bio k m sb b L = convert_bio_body k m sb b L"
    using L0 io by (simp add: shannon_convert_bio_def)
  have fits: "bounce_count fs (bi_size b) < length t"
    using bounce_count_fits [OF L0(1) L12 tot(2) segs] t(2) by (simp add: bio_sg_count_def)
  note alloc = alloc_bounce_cases [OF t(1) fits small, of ?pg]
  show ?thesis
  proof (cases "\<forall>j < cnt. ?pg j \<noteq> None")
    case True
    then obtain t' where t': "shannon_alloc_bounce_pages ?pg t fs (bi_size b) = Some (int cnt, t', [])"
        "bounce_table t' fs (bi_size b) (the \<circ> ?pg)"
      using alloc unfolding cnt by auto
    have cpos: "0 < cnt" using bounce_count_pos [OF tot(2) small(2)] cnt by simp
    have ok: "table_ok t' cnt" using bounce_table_ok [OF t'(2)] cnt by simp
    have "sum_list (map (fst \<circ> snd) (map chunk_of (take cnt t'))) = bi_size b"
      using t'(2) by (simp only: bounce_table_def Let_def cnt [symmetric])
    then have len: "total_len (bi_iter_segs b) = sum_list (map sge_length (take cnt t'))"
      unfolding sum_take_lengths tot(1) by (rule sym)
    obtain m1 where m1: "shannon_copy_bounce_pages m b t' True = Some m1"
      using copy_bounce_runs [OF ok cpos seg len] by blast
    have d: "map m1 (table_bytes t' cnt) = map m (bio_bytes b) \<and> (\<forall>x. x \<notin> set (table_bytes t' cnt) \<longrightarrow> m1 x = m x)"
      if f: "fresh_pages ?pg cnt (bio_bytes b)"
      using bounce_bytes_distinct [OF t'(2)] f True cnt m1 copy_bounce_both [OF ok cpos seg len, of True m]
      by (auto simp: Let_def)
    show ?thesis
      using conv body t'(1) m1 d cpos True t'(2) t(3,4) by (auto simp: Let_def)
  next
    case False
    obtain t' f where f: "?pg f = None" "\<forall>j < f. ?pg j \<noteq> None" "sg_fresh t'" "length t' = length t"
        "shannon_alloc_bounce_pages ?pg t fs (bi_size b) = Some (- ENOMEM, t', map (the \<circ> ?pg) [0 ..< f])"
      using alloc [unfolded if_not_P [OF False [unfolded cnt]]] by blast
    let ?sb = "sb1\<lparr>sb_has_hole := False, sb_sg := Some t'\<rparr>"
    have "sb_first_size ?sb = first_size_of (bi_sector b) (bi_size b) L" using t(3) fs by simp
    then obtain sb' t2 where old: "convert_old_fashion ?sb b L t' = Some sb'" "sb_sg sb' = Some t2"
        "map chunk_of (take (sb_used_sg_count sb') t2) =
           segs_chunks L (bi_iter_segs b) (L - unat (bi_sector b) * 512 mod L)"
        "\<not> sb_need_bounce sb'" "sb_has_hole sb'"
      using convert_old_fashion_ok [OF L(1) L0(2) b(1) f(3), of ?sb] f(4) t(2,4) by (auto simp: bio_sg_count_def)
    show ?thesis
      using conv body f old t(3) False by (auto simp: ENOMEM_def)
  qed
qed

text \<open>C3 (functional). A bio with unaligned segments, for blocks of at most a page and memory for the
  table: when the bounce pages are available the conversion returns 0 with \<open>need_bounce\<close> set and no hole,
  the table lists the bounce pages, and for a write they hold the bio's bytes (if the pages handed out
  are not pages of the bio) and no other memory changes; when a page is missing, the first or a later
  one, the conversion still returns 0, gives back exactly the pages it got, clears \<open>need_bounce\<close>, marks
  a hole, leaves memory alone and describes the bio's own bytes, cut at page and block boundaries.\<close>

theorem convert_bio_bounced:
  assumes L: "L = 2 ^ n" "n \<le> 12" and b: "wf_bio b L" "needs_bounce b"
    and seg: "\<forall>ib \<in> set (bi_iter_segs b). 0 < bv_len (snd ib)"
    and mem: "sg_memory_available k (bio_sg_count b L)"
    and fs: "fs = first_size_of (bi_sector b) (bi_size b) L" and cnt: "cnt = bounce_count fs (bi_size b)"
  shows "if \<forall>j < cnt. k_alloc_page k j \<noteq> None
    then \<exists>sb' t m'. shannon_convert_bio k m sb b L = Some (0, sb', m', []) \<and> sb_sg sb' = Some t \<and>
      sb_need_bounce sb' \<and> \<not> sb_has_hole sb' \<and> sb_used_sg_count sb' = cnt \<and>
      bounce_table t fs (bi_size b) (the \<circ> k_alloc_page k) \<and>
      (if sb_dma_dir sb = SHANNON_DMA_TODEVICE
       then fresh_pages (k_alloc_page k) cnt (bio_bytes b) \<longrightarrow>
            map m' (table_bytes t cnt) = map m (bio_bytes b) \<and>
            (\<forall>x. x \<notin> set (table_bytes t cnt) \<longrightarrow> m' x = m x)
       else m' = m)
    else \<exists>sb' t f. k_alloc_page k f = None \<and> (\<forall>j < f. k_alloc_page k j \<noteq> None) \<and>
      shannon_convert_bio k m sb b L = Some (0, sb', m, map (the \<circ> k_alloc_page k) [0 ..< f]) \<and>
      sb_sg sb' = Some t \<and> \<not> sb_need_bounce sb' \<and> sb_has_hole sb' \<and>
      map chunk_of (take (sb_used_sg_count sb') t) =
        segs_chunks L (bi_iter_segs b) (L - unat (bi_sector b) * 512 mod L)"
  using assms by (rule convert_bio_bounce_cases)

definition oom_kenv :: kenv where
  "oom_kenv = sample_kenv\<lparr>k_alloc_page := \<lambda>_. None\<rparr>"

lemma odd_bio_bytes: "bio_bytes odd_bio = [28673, 28674]"
  by (simp add: bio_bytes_def odd_bio_def bvec_range_def page_address_def PAGE_SIZE_def upt_conv_Cons)

lemma odd_bio_count: "bounce_count (first_size_of (bi_sector odd_bio) (bi_size odd_bio) (2 ^ 12)) (bi_size odd_bio) = 1"
proof -
  have "first_size_of (bi_sector odd_bio) (bi_size odd_bio) (2 ^ 12) = 0"
    by (simp add: odd_bio_def first_size_of_def)
  then show ?thesis by (simp only:) (simp add: odd_bio_def bounce_count_def)
qed

lemma odd_bio_hyps: "wf_bio odd_bio (2 ^ 12)" "needs_bounce odd_bio"
    "\<forall>ib \<in> set (bi_iter_segs odd_bio). 0 < bv_len (snd ib)"
    "sg_memory_available sample_kenv (bio_sg_count odd_bio (2 ^ 12))"
    "sg_memory_available oom_kenv (bio_sg_count odd_bio (2 ^ 12))"
  by (simp_all add: wf_bio_def needs_bounce_def odd_bio_def sg_memory_available_def sample_kenv_def oom_kenv_def)

theorem convert_bio_bounced_witness:
  "(\<exists>sb' t m'. shannon_convert_bio sample_kenv (\<lambda>a. of_nat a) sample_sbio odd_bio (2 ^ 12) =
      Some (0, sb', m', []) \<and> sb_sg sb' = Some t \<and> sb_need_bounce sb' \<and> sb_used_sg_count sb' = 1 \<and>
      map m' (table_bytes t 1) = [1, 2]) \<and>
   (\<exists>sb' t. shannon_convert_bio oom_kenv (\<lambda>a. of_nat a) sample_sbio odd_bio (2 ^ 12) =
      Some (0, sb', \<lambda>a. of_nat a, []) \<and> sb_sg sb' = Some t \<and> \<not> sb_need_bounce sb' \<and> sb_has_hole sb' \<and>
      map chunk_of (take (sb_used_sg_count sb') t) = [(7, 2, 1)])"
proof
  have pages: "k_alloc_page sample_kenv j = Some (100 + j)" for j by (simp add: sample_kenv_def)
  have fresh: "fresh_pages (k_alloc_page sample_kenv) 1 [28673, 28674]"
    by (simp add: fresh_pages_def pages)
  have dir: "sb_dma_dir sample_sbio = SHANNON_DMA_TODEVICE" by (simp add: sample_sbio_def)
  have words: "map (\<lambda>a. of_nat a :: u8) [28673, 28674] = [1, 2]" by simp
  have n: "(12 :: nat) \<le> 12" by simp
  show "\<exists>sb' t m'. shannon_convert_bio sample_kenv (\<lambda>a. of_nat a) sample_sbio odd_bio (2 ^ 12) =
      Some (0, sb', m', []) \<and> sb_sg sb' = Some t \<and> sb_need_bounce sb' \<and> sb_used_sg_count sb' = 1 \<and>
      map m' (table_bytes t 1) = [1, 2]"
    using convert_bio_bounced [OF refl n odd_bio_hyps(1-4) refl refl, of "\<lambda>a. of_nat a" sample_sbio] fresh
    unfolding odd_bio_count odd_bio_bytes words dir by (auto simp: pages)
  have chunks: "segs_chunks (2 ^ 12) (bi_iter_segs odd_bio) (2 ^ 12 - unat (bi_sector odd_bio) * 512 mod 2 ^ 12) = [(7, 2, 1)]"
    by (simp add: odd_bio_def seg_chunks.simps piece_def)
  have miss: "\<not> (\<forall>j < 1. k_alloc_page oom_kenv j \<noteq> None)" by (simp add: oom_kenv_def)
  show "\<exists>sb' t. shannon_convert_bio oom_kenv (\<lambda>a. of_nat a) sample_sbio odd_bio (2 ^ 12) =
      Some (0, sb', \<lambda>a. of_nat a, []) \<and> sb_sg sb' = Some t \<and> \<not> sb_need_bounce sb' \<and> sb_has_hole sb' \<and>
      map chunk_of (take (sb_used_sg_count sb') t) = [(7, 2, 1)]"
    using convert_bio_bounced [OF refl n odd_bio_hyps(1-3,5) refl refl, of "\<lambda>a. of_nat a" sample_sbio]
    unfolding odd_bio_count chunks if_not_P [OF miss] by (auto simp: oom_kenv_def) (metis neq0_conv)
qed

end
