(* ===== verification/Request_Convert.thy ===== *)
theory Request_Convert
  imports Bio_Mapping
begin

text \<open>
  The two other converters into a scatter-gather table: \<open>shannon_convert_lreq\<close> for a block-layer
  request (\<^verbatim>\<open>shannon_block.c\<close>) and \<open>shannon_convert_scsi_scmd\<close> for a SCSI command
  (\<^verbatim>\<open>shannon_scsi.c\<close>). Their loops differ from the one for a bio in the table size, in the
  treatment of page boundaries and, for SCSI, in a guard on the number of entries that is followed by an
  assertion. Both are shown to compute the same pieces as the bio converter.
\<close>

section \<open>Requests\<close>

text \<open>\<open>rq_segs\<close> is what \<open>rq_for_each_segment\<close> yields, \<open>rq_bio_segments\<close> the segment count of each bio.\<close>

record request =
  rq_segs :: "bvec list"
  rq_bio_segments :: "nat list"
  rq_bytes :: nat
  rq_pos :: u64

definition shannon_blk_rq_pos :: "request \<Rightarrow> u64" where "shannon_blk_rq_pos rq = rq_pos rq"

definition shannon_blk_rq_bytes :: "request \<Rightarrow> nat" where "shannon_blk_rq_bytes rq = rq_bytes rq"

definition shannon_lreq_segments :: "request \<Rightarrow> nat" where
  "shannon_lreq_segments rq = fold (\<lambda>n acc. acc + n) (rq_bio_segments rq) 0"

definition lreq_step :: "nat \<Rightarrow> bvec \<Rightarrow> nat \<Rightarrow> conv_st \<Rightarrow> (nat \<times> conv_st) option" where
  "lreq_step logicb_size bv offset s =
    (let map_size = (if bv_len bv - offset < cv_remained s then bv_len bv - offset else cv_remained s);
         remained = cv_remained s - map_size;
         remained = (if remained = 0 then logicb_size else remained)
     in case sg_append (cv_cur s) (bv_page bv) map_size (bv_offset bv + offset) of None \<Rightarrow> None
        | Some c \<Rightarrow> Some (map_size, \<lparr>cv_cur = c, cv_remained = remained\<rparr>))"

fun lreq_segment :: "nat \<Rightarrow> nat \<Rightarrow> bvec \<Rightarrow> nat \<Rightarrow> conv_st \<Rightarrow> conv_st option" where
  "lreq_segment 0 logicb_size bv offset s = None"
| "lreq_segment (Suc k) logicb_size bv offset s =
    (if offset < bv_len bv then
       (case lreq_step logicb_size bv offset s of None \<Rightarrow> None
        | Some (map_size, s') \<Rightarrow> lreq_segment k logicb_size bv (offset + map_size) s')
     else Some s)"

text \<open>\<open>i\<close> counts the segments; \<open>hole_at 0\<close> is the pair of tests with that counter.\<close>

definition shannon_convert_lreq ::
    "kenv \<Rightarrow> nat \<Rightarrow> shannon_bio \<Rightarrow> request \<Rightarrow> (int \<times> shannon_bio) option" where
  "shannon_convert_lreq k logicb_size sbio rq =
    (let sbio = sbio\<lparr>sb_segments := shannon_lreq_segments rq\<rparr>;
         sbio = sbio\<lparr>sb_sg_count := 2 * sb_segments sbio + 1\<rparr>;
         sbio = sbio\<lparr>sb_sg := shannon_sg_alloc (k_kzalloc k) (k_GFP_NOWARN k) (sb_sg_count sbio) (k_GFP_SHANNON k)\<rparr>
     in case sb_sg sbio of None \<Rightarrow> Some (- ENOMEM, sbio)
        | Some t0 \<Rightarrow>
           (case shannon_sg_init_table t0 (sb_sg_count sbio) of None \<Rightarrow> None
            | Some t \<Rightarrow>
               let sbio = sbio\<lparr>sb_bio_size := shannon_blk_rq_bytes rq, sb_start_sector := shannon_blk_rq_pos rq\<rparr>;
                   sbio = sbio\<lparr>sb_first_size := first_size_of (sb_start_sector sbio) (sb_bio_size sbio) logicb_size\<rparr>;
                   remained = (if sb_first_size sbio \<noteq> 0 then sb_first_size sbio else logicb_size);
                   hole = fold (\<lambda>ib h. if hole_at 0 (sb_segments sbio) ib then True else h)
                            (zip [0 ..< length (rq_segs rq)] (rq_segs rq)) False
               in case fold_opt (\<lambda>bv s. lreq_segment (bv_len bv + 1) logicb_size bv 0 s) (rq_segs rq)
                        \<lparr>cv_cur = \<lparr>cur_table = t, cur_sg = None, cur_used = 0\<rparr>, cv_remained = remained\<rparr> of
                    None \<Rightarrow> None
                  | Some s \<Rightarrow>
                     (case shannon_sg_mark_end (cur_table (cv_cur s)) (cur_sg (cv_cur s)) of None \<Rightarrow> None
                      | Some t' \<Rightarrow> Some (0, sbio\<lparr>sb_sg := Some t', sb_used_sg_count := cur_used (cv_cur s),
                                                 sb_has_hole := hole\<rparr>))))"

section \<open>SCSI commands\<close>

record scsi_cmd =
  sc_segs :: "bvec list"      \<comment> \<open>the entries of \<open>sdb->table\<close>\<close>
  sc_length :: nat            \<comment> \<open>\<open>sdb->length\<close>\<close>
  sc_dir :: "dma_dir option"  \<comment> \<open>\<open>None\<close>: neither to nor from the device\<close>

definition scsi_step :: "nat \<Rightarrow> bvec \<Rightarrow> nat \<Rightarrow> conv_st \<Rightarrow> (nat \<times> conv_st) option" where
  "scsi_step logicb_size sge offset s =
    (let space_in_page = PAGE_SIZE - (bv_offset sge + offset) mod PAGE_SIZE;
         map_size =
           (if space_in_page < cv_remained s
            then (if bv_len sge - offset < space_in_page then bv_len sge - offset else space_in_page)
            else (if bv_len sge - offset < cv_remained s then bv_len sge - offset else cv_remained s));
         remained = cv_remained s - map_size;
         remained = (if remained = 0 then logicb_size else remained)
     in case sg_append (cv_cur s) (bv_page sge + (bv_offset sge + offset) div PAGE_SIZE) map_size
               ((bv_offset sge + offset) mod PAGE_SIZE) of None \<Rightarrow> None
        | Some c \<Rightarrow> Some (map_size, \<lparr>cv_cur = c, cv_remained = remained\<rparr>))"

text \<open>The loop with its guard; after it \<open>SHN_BUG_ON(offset < sge->length)\<close>, a crash.\<close>

fun scsi_segment :: "nat \<Rightarrow> nat \<Rightarrow> nat \<Rightarrow> bvec \<Rightarrow> nat \<Rightarrow> conv_st \<Rightarrow> conv_st option" where
  "scsi_segment 0 logicb_size count sge offset s = None"
| "scsi_segment (Suc k) logicb_size count sge offset s =
    (if offset < bv_len sge \<and> cur_used (cv_cur s) < count then
       (case scsi_step logicb_size sge offset s of None \<Rightarrow> None
        | Some (map_size, s') \<Rightarrow> scsi_segment k logicb_size count sge (offset + map_size) s')
     else if offset < bv_len sge then None
     else Some s)"

definition scsi_hole_at :: "nat \<Rightarrow> nat \<times> bvec \<Rightarrow> bool" where
  "scsi_hole_at nents ib = (case ib of (i, sge) \<Rightarrow>
     (i \<noteq> 0 \<and> bv_offset sge \<noteq> 0) \<or>
     (int i \<noteq> int nents - 1 \<and> (bv_offset sge + bv_len sge) AND 0xfff \<noteq> 0))"

definition shannon_convert_scsi_scmd ::
    "kenv \<Rightarrow> u32 \<Rightarrow> shannon_bio \<Rightarrow> scsi_cmd \<Rightarrow> nat \<Rightarrow> (int \<times> shannon_bio) option" where
  "shannon_convert_scsi_scmd k GFP_ATOMIC sbio cmd logicb_size =
    (let sbio = sbio\<lparr>sb_bio_size := sc_length cmd\<rparr>;
         sbio = (case sc_dir cmd of Some d \<Rightarrow> sbio\<lparr>sb_dma_dir := d\<rparr> | None \<Rightarrow> sbio);
         sbio = sbio\<lparr>sb_segments := length (sc_segs cmd)\<rparr>;
         sbio = sbio\<lparr>sb_sg_count := 2 * ((sb_bio_size sbio + logicb_size - 1) div logicb_size) + sb_segments sbio\<rparr>;
         sbio = sbio\<lparr>sb_sg := shannon_sg_alloc (k_kzalloc k) (k_GFP_NOWARN k) (sb_sg_count sbio) GFP_ATOMIC\<rparr>
     in case sb_sg sbio of None \<Rightarrow> Some (- ENOMEM, sbio)
        | Some t0 \<Rightarrow>
           (case shannon_sg_init_table t0 (sb_sg_count sbio) of None \<Rightarrow> None
            | Some t \<Rightarrow>
               let sbio = sbio\<lparr>sb_first_size := first_size_of (sb_start_sector sbio) (sb_bio_size sbio) logicb_size\<rparr>;
                   remained = (if sb_first_size sbio \<noteq> 0 then sb_first_size sbio else logicb_size);
                   hole = fold (\<lambda>ib h. if scsi_hole_at (length (sc_segs cmd)) ib then True else h)
                            (zip [0 ..< length (sc_segs cmd)] (sc_segs cmd)) False
               in case fold_opt (\<lambda>sge s. scsi_segment (bv_len sge + 1) logicb_size (sb_sg_count sbio) sge 0 s)
                        (sc_segs cmd)
                        \<lparr>cv_cur = \<lparr>cur_table = t, cur_sg = None, cur_used = 0\<rparr>, cv_remained = remained\<rparr> of
                    None \<Rightarrow> None
                  | Some s \<Rightarrow> Some (0, sbio\<lparr>sb_sg := Some (cur_table (cv_cur s)),
                                           sb_used_sg_count := cur_used (cv_cur s), sb_has_hole := hole\<rparr>)))"

section \<open>The loops agree with the bio loop\<close>

lemma lreq_step_map_step:
  assumes "bv_offset bv + bv_len bv \<le> 4096" "offset < bv_len bv"
  shows "lreq_step L bv offset s = map_step L bv offset s"
proof -
  have q: "bv_offset bv + offset < 4096" using assms by linarith
  have len: "bv_len bv - offset \<le> 4096 - (bv_offset bv + offset)" using assms by linarith
  have m: "(if 4096 - (bv_offset bv + offset) > bv_len bv - offset then bv_len bv - offset
      else 4096 - (bv_offset bv + offset)) = bv_len bv - offset" using len by auto
  have d: "(bv_offset bv + offset) div 4096 = 0" "(bv_offset bv + offset) mod 4096 = bv_offset bv + offset"
    using q by simp_all
  show ?thesis
    unfolding lreq_step_def map_step_def Let_def and_page_mask
    unfolding PAGE_SIZE_def d m by simp
qed

lemma lreq_segment_map_segment:
  "bv_offset bv + bv_len bv \<le> 4096 \<Longrightarrow> lreq_segment k L bv offset s = map_segment k L bv offset s"
  by (induction k arbitrary: offset s) (auto simp: lreq_step_map_step split: option.split)

lemma scsi_step_map_step: "scsi_step L sge offset s = map_step L sge offset s"
proof -
  have "(if sp < r then (if n < sp then n else sp) else (if n < r then n else r)) =
      (if (if sp > n then n else sp) < r then (if sp > n then n else sp) else r)" for sp n r :: nat
    by auto
  then show ?thesis
    unfolding scsi_step_def map_step_def Let_def and_page_mask
    unfolding PAGE_SIZE_def by (simp only:)
qed

lemma sg_append_used: "sg_append c p l off = Some c' \<Longrightarrow> cur_used c' = cur_used c + 1"
  by (auto simp: sg_append_def Let_def split: option.splits)

lemma map_step_used: "map_step L bv offset s = Some (m, s') \<Longrightarrow> cur_used (cv_cur s') = cur_used (cv_cur s) + 1"
  by (auto simp: map_step_def Let_def split: option.splits dest!: sg_append_used)

lemma map_segment_used:
  "map_segment k L bv offset s = Some s' \<Longrightarrow> cur_used (cv_cur s) \<le> cur_used (cv_cur s')"
  by (induction k arbitrary: offset s) (fastforce split: if_splits option.splits dest!: map_step_used)+

text \<open>As long as the bio loop would stay inside the table, the guard changes nothing.\<close>

lemma scsi_segment_map_segment:
  "map_segment k L sge offset s = Some s' \<Longrightarrow> cur_used (cv_cur s') \<le> count \<Longrightarrow>
   scsi_segment k L count sge offset s = Some s'"
proof (induction k arbitrary: offset s)
  case (Suc k)
  show ?case
  proof (cases "offset < bv_len sge")
    case True
    then obtain m s1 where step: "map_step L sge offset s = Some (m, s1)"
        "map_segment k L sge (offset + m) s1 = Some s'"
      using Suc.prems(1) by (auto split: option.splits)
    then have "cur_used (cv_cur s) < count"
      using map_segment_used [OF step(2)] map_step_used [OF step(1)] Suc.prems(2) by linarith
    then show ?thesis using True step Suc.IH [OF step(2) Suc.prems(2)] by (simp add: scsi_step_map_step)
  qed (use Suc.prems in simp)
qed simp

abbreviation tagged :: "bvec list \<Rightarrow> (nat \<times> bvec) list" where
  "tagged bvs \<equiv> map (\<lambda>bv. (0, bv)) bvs"

lemma fold_opt_tagged: "fold_opt f bvs s = fold_opt (\<lambda>(_, bv). f bv) (tagged bvs) s"
  by (induction bvs arbitrary: s) (auto split: option.split)

lemma map_all_segments:
  assumes "0 < L" "0 < r" "sg_fresh t" "length (segs_chunks L segs r) \<le> length t"
  shows "\<exists>s. fold_opt (\<lambda>(_, bv) s. map_segment (bv_len bv + 1) L bv 0 s) segs
      \<lparr>cv_cur = \<lparr>cur_table = t, cur_sg = None, cur_used = 0\<rparr>, cv_remained = r\<rparr> = Some s \<and>
    cursor_repr (cv_cur s) (segs_chunks L segs r) \<and> length (cur_table (cv_cur s)) = length t"
proof -
  let ?c = "\<lparr>cur_table = t, cur_sg = None, cur_used = 0\<rparr>"
  obtain c' where c': "fold_opt (\<lambda>ch c. sg_append_chunk c ch) (segs_chunks L segs r) ?c = Some c'"
      "cursor_repr c' (segs_chunks L segs r)" "length (cur_table c') = length t"
    using sgw.append_all [OF cursor_repr_Nil [OF assms(3)], of "segs_chunks L segs r"] assms(4) by auto
  then show ?thesis using map_segments_chunks [OF assms(1,2), of segs ?c] by auto
qed

lemma fold_lreq_segments:
  "\<forall>bv \<in> set bvs. bv_offset bv + bv_len bv \<le> 4096 \<Longrightarrow>
   fold_opt (\<lambda>bv s. lreq_segment (bv_len bv + 1) L bv 0 s) bvs s =
   fold_opt (\<lambda>bv s. map_segment (bv_len bv + 1) L bv 0 s) bvs s"
  by (induction bvs arbitrary: s)
     (auto simp: lreq_segment_map_segment simp del: lreq_segment.simps map_segment.simps split: option.split)

lemma fold_used_mono:
  "fold_opt (\<lambda>bv s. map_segment (bv_len bv + 1) L bv 0 s) bvs s = Some s' \<Longrightarrow>
   cur_used (cv_cur s) \<le> cur_used (cv_cur s')"
proof (induction bvs arbitrary: s)
  case (Cons bv bvs)
  then obtain s1 where s1: "map_segment (bv_len bv + 1) L bv 0 s = Some s1"
      "fold_opt (\<lambda>bv s. map_segment (bv_len bv + 1) L bv 0 s) bvs s1 = Some s'"
    by (auto simp del: map_segment.simps split: option.splits)
  then show ?case using map_segment_used [OF s1(1)] Cons.IH [OF s1(2)] by linarith
qed simp

lemma fold_scsi_segments:
  "fold_opt (\<lambda>bv s. map_segment (bv_len bv + 1) L bv 0 s) bvs s = Some s' \<Longrightarrow> cur_used (cv_cur s') \<le> count \<Longrightarrow>
   fold_opt (\<lambda>bv s. scsi_segment (bv_len bv + 1) L count bv 0 s) bvs s = Some s'"
proof (induction bvs arbitrary: s)
  case (Cons bv bvs)
  then obtain s1 where s1: "map_segment (bv_len bv + 1) L bv 0 s = Some s1"
      "fold_opt (\<lambda>bv s. map_segment (bv_len bv + 1) L bv 0 s) bvs s1 = Some s'"
    by (auto simp del: map_segment.simps split: option.splits)
  have "cur_used (cv_cur s1) \<le> count" using fold_used_mono [OF s1(2)] Cons.prems(2) by linarith
  then show ?case
    using scsi_segment_map_segment [OF s1(1)] Cons.IH [OF s1(2) Cons.prems(2)]
    by (simp del: scsi_segment.simps)
qed simp

text \<open>Segments inside a page: at most one piece per segment and one per block.\<close>

lemma bounded_count:
  assumes L: "0 < L" and b: "\<forall>bv \<in> set bvs. bv_offset bv + bv_len bv \<le> 4096"
  shows "length (segs_chunks L (tagged bvs) (L - p mod L)) \<le>
    length bvs + (sum_list (map bv_len bvs) + L - 1) div L"
proof -
  have "sum_list (map (page_crossings \<circ> snd) (tagged bvs)) = 0"
    using b by (auto simp: page_bounded_no_crossing comp_def)
  then show ?thesis
    using segs_chunks_spec [OF L, of p "tagged bvs"] blocks_le_ceil [OF L, of p "sum_list (map bv_len bvs)"]
    by (simp only: comp_def map_map length_map snd_conv) linarith
qed

lemma small_segments_ceil:
  assumes L: "0 < (L :: nat)" and b: "\<forall>bv \<in> set bvs. bv_len bv \<le> L"
  shows "(sum_list (map bv_len bvs) + L - 1) div L \<le> length bvs"
proof -
  have "sum_list (map bv_len bvs) \<le> length bvs * L"
    using b by (induction bvs) auto
  then have "sum_list (map bv_len bvs) + L - 1 \<le> length bvs * L + (L - 1)" by linarith
  then have "(sum_list (map bv_len bvs) + L - 1) div L \<le> (length bvs * L + (L - 1)) div L"
    by (rule div_le_mono)
  also have "\<dots> = length bvs" using L by (subst div_mult_self3) auto
  finally show ?thesis .
qed

section \<open>Properties\<close>

text \<open>A request whose segments lie inside pages and are not longer than a logical block.\<close>

definition wf_request :: "request \<Rightarrow> nat \<Rightarrow> bool" where
  "wf_request rq L \<longleftrightarrow> sum_list (rq_bio_segments rq) = length (rq_segs rq) \<and>
     rq_bytes rq = sum_list (map bv_len (rq_segs rq)) \<and> 0 < rq_bytes rq \<and>
     (\<forall>bv \<in> set (rq_segs rq). bv_offset bv + bv_len bv \<le> 4096 \<and> bv_len bv \<le> L)"

definition kzalloc_available :: "kenv \<Rightarrow> nat \<Rightarrow> bool" where
  "kzalloc_available k n \<longleftrightarrow> n \<le> SIZE_MAX div sizeof_scatterlist \<and>
     (\<forall>g. k_kzalloc k (sizeof_scatterlist * n) g)"

lemma lreq_segments_sum: "shannon_lreq_segments rq = sum_list (rq_bio_segments rq)"
proof -
  have "fold (\<lambda>n acc. acc + n) xs a = a + sum_list xs" for xs and a :: nat
    by (induction xs arbitrary: a) auto
  then show ?thesis by (simp add: shannon_lreq_segments_def)
qed

lemma fold_or: "fold (\<lambda>ib h. if Q ib then True else h) xs h \<longleftrightarrow> h \<or> (\<exists>ib \<in> set xs. Q ib)"
  by (induction xs arbitrary: h) auto

lemma chunks_nonempty:
  assumes "0 < L" "0 < sum_list (map bv_len bvs)"
  shows "segs_chunks L (tagged bvs) (L - p mod L) \<noteq> []"
proof
  assume "segs_chunks L (tagged bvs) (L - p mod L) = []"
  then have "concat (map seg_bytes bvs) = []"
    using segs_chunks_spec [OF assms(1), of p "tagged bvs"] by (simp add: comp_def)
  then have "\<forall>bv \<in> set bvs. bv_len bv = 0" by (auto simp: seg_bytes_def)
  then have "sum_list (map bv_len bvs) = 0" by auto
  with assms(2) show False by simp
qed

lemma convert_lreq_ok:
  assumes L: "L = 2 ^ n" "n \<le> 32" and rq: "wf_request rq L"
    and mem: "kzalloc_available k (2 * length (rq_segs rq) + 1)"
  shows "\<exists>sb' t. shannon_convert_lreq k L sb rq = Some (0, sb') \<and> sb_sg sb' = Some t \<and>
    sb_used_sg_count sb' \<le> sb_sg_count sb' \<and> length t = sb_sg_count sb' \<and>
    (let cs = map chunk_of (take (sb_used_sg_count sb') t)
     in concat (map chunk_bytes cs) = concat (map seg_bytes (rq_segs rq)) \<and>
        aligned L (unat (rq_pos rq) * 512) cs) \<and>
    (\<forall>i < sb_used_sg_count sb'. sge_end (t ! i) \<longleftrightarrow> Suc i = sb_used_sg_count sb') \<and>
    sb_has_hole sb' = (\<not> gap_free (rq_segs rq))"
proof -
  let ?bvs = "rq_segs rq" and ?p = "unat (rq_pos rq) * 512"
  have L0: "0 < L" using L by simp
  have segs: "shannon_lreq_segments rq = length ?bvs" and bytes: "rq_bytes rq = sum_list (map bv_len ?bvs)"
      "0 < rq_bytes rq" and bnd: "\<forall>bv \<in> set ?bvs. bv_offset bv + bv_len bv \<le> 4096" "\<forall>bv \<in> set ?bvs. bv_len bv \<le> L"
    using rq by (auto simp: wf_request_def lreq_segments_sum)
  define cs where "cs = segs_chunks L (tagged ?bvs) (L - ?p mod L)"
  define r where "r = (if first_size_of (rq_pos rq) (rq_bytes rq) L \<noteq> 0
      then first_size_of (rq_pos rq) (rq_bytes rq) L else L)"
  have r: "0 < r" using L0 by (simp add: r_def)
  have "rq_bytes rq = total_len (tagged ?bvs)" using bytes(1) by (simp add: comp_def)
  then have cs_r: "segs_chunks L (tagged ?bvs) r = cs"
    unfolding cs_def r_def by (rule first_chunks [OF L])
  have fit: "length cs \<le> 2 * length ?bvs + 1"
    using bounded_count [OF L0 bnd(1), of ?p] small_segments_ceil [OF L0 bnd(2)] by (simp add: cs_def)
  have ne: "cs \<noteq> []" unfolding cs_def by (rule chunks_nonempty [OF L0]) (use bytes in simp)
  let ?n = "2 * length ?bvs + 1"
  have n0: "0 < ?n" by simp
  obtain t where t: "shannon_sg_init_table (replicate ?n zero_sge) ?n = Some t" "sg_fresh t" "length t = ?n"
    using sg_init_table_fresh [OF n0] by blast
  obtain s where s: "fold_opt (\<lambda>bv s. lreq_segment (bv_len bv + 1) L bv 0 s) ?bvs
      \<lparr>cv_cur = \<lparr>cur_table = t, cur_sg = None, cur_used = 0\<rparr>, cv_remained = r\<rparr> = Some s"
      "cursor_repr (cv_cur s) cs" "length (cur_table (cv_cur s)) = ?n"
    using map_all_segments [OF L0 r t(2), of "tagged ?bvs"] cs_r fit t(3)
    unfolding fold_lreq_segments [OF bnd(1)] fold_opt_tagged [of _ ?bvs] by (auto simp del: map_segment.simps)
  obtain t' where t': "shannon_sg_mark_end (cur_table (cv_cur s)) (cur_sg (cv_cur s)) = Some t'"
      "length t' = ?n" "map chunk_of (take (length cs) t') = cs"
      "\<forall>i < length cs. sge_end (t' ! i) \<longleftrightarrow> Suc i = length cs"
    using mark_end_chunks [OF s(2) ne] s(3) by auto
  have used: "cur_used (cv_cur s) = length cs" using s(2) by (simp add: cursor_repr_def)
  have alloc: "shannon_sg_alloc (k_kzalloc k) (k_GFP_NOWARN k) ?n (k_GFP_SHANNON k) = Some (replicate ?n zero_sge)"
    using mem by (simp add: shannon_sg_alloc_def kzalloc_available_def Let_def)
  define sb1 where "sb1 = sb\<lparr>sb_segments := length ?bvs, sb_sg_count := ?n, sb_sg := Some (replicate ?n zero_sge),
      sb_bio_size := rq_bytes rq, sb_start_sector := rq_pos rq,
      sb_first_size := first_size_of (rq_pos rq) (rq_bytes rq) L\<rparr>"
  have conv: "shannon_convert_lreq k L sb rq = Some (0, sb1\<lparr>sb_sg := Some t', sb_used_sg_count := length cs,
      sb_has_hole := (\<not> gap_free ?bvs)\<rparr>)"
    using s(1) t(1) t'(1) alloc used hole_at_seams [OF refl, of ?bvs]
    by (simp add: shannon_convert_lreq_def Let_def segs sb1_def shannon_blk_rq_bytes_def
        shannon_blk_rq_pos_def r_def fold_or del: lreq_segment.simps cong: if_cong split del: if_split)
  have spec: "concat (map chunk_bytes cs) = concat (map seg_bytes ?bvs)" "aligned L ?p cs"
    using segs_chunks_spec [OF L0, of ?p "tagged ?bvs"] by (simp_all add: cs_def comp_def)
  show ?thesis
    using conv t' fit spec by (auto simp: sb1_def Let_def simp del: map_map)
qed

text \<open>C24 (functional). \<open>shannon_convert_lreq\<close> never overruns its table of \<open>2 * segments + 1\<close> entries when
  no segment is longer than a logical block, and the table lists exactly the bytes of the request,
  cut at block boundaries; \<open>has_hole\<close> is set exactly when a seam is not page aligned.\<close>

theorem convert_lreq_correct:
  assumes L: "L = 2 ^ n" "n \<le> 32" and rq: "wf_request rq L"
    and mem: "kzalloc_available k (2 * length (rq_segs rq) + 1)"
  shows "\<exists>sb' t. shannon_convert_lreq k L sb rq = Some (0, sb') \<and> sb_sg sb' = Some t \<and>
    sb_used_sg_count sb' \<le> sb_sg_count sb' \<and> length t = sb_sg_count sb' \<and>
    (let cs = map chunk_of (take (sb_used_sg_count sb') t)
     in concat (map chunk_bytes cs) = concat (map seg_bytes (rq_segs rq)) \<and>
        aligned L (unat (rq_pos rq) * 512) cs) \<and>
    (\<forall>i < sb_used_sg_count sb'. sge_end (t ! i) \<longleftrightarrow> Suc i = sb_used_sg_count sb') \<and>
    sb_has_hole sb' = (\<not> gap_free (rq_segs rq))"
  using assms by (rule convert_lreq_ok)

definition sample_request :: request where
  "sample_request = \<lparr>rq_segs = [\<lparr>bv_page = 3, bv_offset = 512, bv_len = 3584\<rparr>,
     \<lparr>bv_page = 4, bv_offset = 0, bv_len = 4096\<rparr>], rq_bio_segments = [1, 1], rq_bytes = 7680, rq_pos = 9\<rparr>"

theorem convert_lreq_correct_witness:
  "\<exists>sb' t. shannon_convert_lreq sample_kenv 4096 sample_sbio sample_request = Some (0, sb') \<and>
     sb_sg sb' = Some t \<and> sb_used_sg_count sb' \<le> 5 \<and> \<not> sb_has_hole sb'"
proof -
  have "wf_request sample_request 4096" by (simp add: wf_request_def sample_request_def)
  moreover have "kzalloc_available sample_kenv (2 * length (rq_segs sample_request) + 1)"
    by (simp add: kzalloc_available_def sample_kenv_def sample_request_def SIZE_MAX_def sizeof_scatterlist_def)
  moreover have "gap_free (rq_segs sample_request)"
    by (auto simp: gap_free_def sample_request_def less_Suc_eq)
  moreover have "sb_sg_count sb' = 5" if "shannon_convert_lreq sample_kenv 4096 sample_sbio sample_request = Some (0, sb')"
    for sb'
    using that
    by (auto simp: shannon_convert_lreq_def Let_def shannon_lreq_segments_def sample_request_def ENOMEM_def
        simp del: lreq_segment.simps split: option.splits)
  ultimately show ?thesis
    using convert_lreq_correct [of 4096 12 sample_request sample_kenv sample_sbio] by force
qed

text \<open>The SCSI mid layer is told (\<open>dma_boundary\<close>, no clustering) that an entry must not cross a page.\<close>

definition wf_scsi_cmd :: "scsi_cmd \<Rightarrow> bool" where
  "wf_scsi_cmd cmd \<longleftrightarrow> sc_length cmd = sum_list (map bv_len (sc_segs cmd)) \<and> 0 < sc_length cmd \<and>
     (\<forall>sge \<in> set (sc_segs cmd). bv_offset sge + bv_len sge \<le> 4096)"

definition scsi_sg_count :: "scsi_cmd \<Rightarrow> nat \<Rightarrow> nat" where
  "scsi_sg_count cmd L = 2 * ((sc_length cmd + L - 1) div L) + length (sc_segs cmd)"

text \<open>C27 (safety). For a command whose entries lie inside pages the assertion of
  \<open>shannon_convert_scsi_scmd\<close> never fires: the guard on the table size does not cut the mapping short,
  the table lists exactly the bytes of the command, and every entry stays inside one page and
  one logical block.\<close>

theorem convert_scsi_correct:
  assumes L: "L = 2 ^ n" "n \<le> 32" and cmd: "wf_scsi_cmd cmd"
    and mem: "kzalloc_available k (scsi_sg_count cmd L)"
  shows "\<exists>sb' t. shannon_convert_scsi_scmd k g sb cmd L = Some (0, sb') \<and> sb_sg sb' = Some t \<and>
    sb_used_sg_count sb' \<le> sb_sg_count sb' \<and> length t = sb_sg_count sb' \<and>
    (let cs = map chunk_of (take (sb_used_sg_count sb') t)
     in concat (map chunk_bytes cs) = concat (map seg_bytes (sc_segs cmd)) \<and>
        aligned L (unat (sb_start_sector sb) * 512) cs)"
proof -
  let ?bvs = "sc_segs cmd" and ?p = "unat (sb_start_sector sb) * 512" and ?n = "scsi_sg_count cmd L"
  have L0: "0 < L" using L by simp
  have bytes: "sc_length cmd = sum_list (map bv_len ?bvs)" "0 < sc_length cmd"
      and bnd: "\<forall>bv \<in> set ?bvs. bv_offset bv + bv_len bv \<le> 4096"
    using cmd by (auto simp: wf_scsi_cmd_def)
  define cs where "cs = segs_chunks L (tagged ?bvs) (L - ?p mod L)"
  define fs where "fs = first_size_of (sb_start_sector sb) (sc_length cmd) L"
  define r where "r = (if fs \<noteq> 0 then fs else L)"
  have r: "0 < r" using L0 by (simp add: r_def)
  have "sc_length cmd = total_len (tagged ?bvs)" using bytes(1) by (simp add: comp_def)
  then have cs_r: "segs_chunks L (tagged ?bvs) r = cs"
    unfolding cs_def r_def fs_def by (rule first_chunks [OF L])
  have fit: "length cs \<le> ?n"
    using bounded_count [OF L0 bnd, of ?p] bytes(1) by (simp add: cs_def scsi_sg_count_def)
  have "cs \<noteq> []" unfolding cs_def by (rule chunks_nonempty [OF L0]) (use bytes in simp)
  then have n0: "0 < ?n" using fit by (cases cs) auto
  obtain t where t: "shannon_sg_init_table (replicate ?n zero_sge) ?n = Some t" "sg_fresh t" "length t = ?n"
    using sg_init_table_fresh [OF n0] by blast
  let ?s0 = "\<lparr>cv_cur = \<lparr>cur_table = t, cur_sg = None, cur_used = 0\<rparr>, cv_remained = r\<rparr>"
  obtain s where s0: "fold_opt (\<lambda>bv s. map_segment (bv_len bv + 1) L bv 0 s) ?bvs ?s0 = Some s"
      and s: "cursor_repr (cv_cur s) cs" "length (cur_table (cv_cur s)) = ?n"
    using map_all_segments [OF L0 r t(2), of "tagged ?bvs"] cs_r fit t(3)
    unfolding fold_opt_tagged [of _ ?bvs] by (auto simp del: map_segment.simps)
  have used: "cur_used (cv_cur s) = length cs" using s(1) by (simp add: cursor_repr_def)
  have loop: "fold_opt (\<lambda>bv s. scsi_segment (bv_len bv + 1) L ?n bv 0 s) ?bvs ?s0 = Some s"
    by (rule fold_scsi_segments [OF s0]) (use used fit in simp)
  have alloc: "shannon_sg_alloc (k_kzalloc k) (k_GFP_NOWARN k) ?n g = Some (replicate ?n zero_sge)"
    using mem by (simp add: shannon_sg_alloc_def kzalloc_available_def Let_def)
  have conv: "\<exists>sb'. shannon_convert_scsi_scmd k g sb cmd L = Some (0, sb') \<and>
      sb_sg sb' = Some (cur_table (cv_cur s)) \<and> sb_used_sg_count sb' = length cs \<and> sb_sg_count sb' = ?n"
  proof -
    have n: "2 * ((sc_length cmd + L - Suc 0) div L) + length ?bvs = ?n" by (simp add: scsi_sg_count_def)
    show ?thesis
      using loop t(1) alloc used unfolding shannon_convert_scsi_scmd_def Let_def
      by (cases "sc_dir cmd")
         (simp_all add: fs_def [symmetric] r_def n del: scsi_segment.simps cong: if_cong split del: if_split)
  qed
  have spec: "concat (map chunk_bytes cs) = concat (map seg_bytes ?bvs)" "aligned L ?p cs"
    using segs_chunks_spec [OF L0, of ?p "tagged ?bvs"] by (simp_all add: cs_def comp_def)
  have "map chunk_of (take (length cs) (cur_table (cv_cur s))) = cs"
    using s(1) by (simp add: cursor_repr_def)
  then show ?thesis using conv fit spec s(2) by (auto simp: Let_def simp del: map_map)
qed

definition sample_scsi :: scsi_cmd where
  "sample_scsi = \<lparr>sc_segs = [\<lparr>bv_page = 3, bv_offset = 0, bv_len = 4096\<rparr>], sc_length = 4096,
     sc_dir = Some SHANNON_DMA_FROMDEVICE\<rparr>"

theorem convert_scsi_correct_witness:
  "\<exists>sb' t. shannon_convert_scsi_scmd sample_kenv 0x820 sample_sbio sample_scsi 512 = Some (0, sb') \<and>
     sb_sg sb' = Some t \<and> aligned 512 0 (map chunk_of (take (sb_used_sg_count sb') t))"
proof -
  have "wf_scsi_cmd sample_scsi" by (simp add: wf_scsi_cmd_def sample_scsi_def)
  moreover have "kzalloc_available sample_kenv (scsi_sg_count sample_scsi 512)"
    by (simp add: kzalloc_available_def sample_kenv_def sample_scsi_def scsi_sg_count_def SIZE_MAX_def
        sizeof_scatterlist_def)
  moreover have "unat (sb_start_sector sample_sbio) * 512 = 0" by (simp add: sample_sbio_def)
  ultimately show ?thesis
    using convert_scsi_correct [of 512 9 sample_scsi sample_kenv "0x820" sample_sbio]
    by (fastforce simp: Let_def)
qed

text \<open>Without the bound on the segment length the request converter overruns its table: with
  512-byte logical blocks one full page needs eight entries, the table has three, and the fourth
  store goes through a NULL pointer.\<close>

theorem convert_lreq_overrun:
  "let rq = \<lparr>rq_segs = [\<lparr>bv_page = 3, bv_offset = 0, bv_len = 4096\<rparr>], rq_bio_segments = [1],
             rq_bytes = 4096, rq_pos = 0\<rparr>
   in shannon_convert_lreq sample_kenv 512 sample_sbio rq = None"
proof -
  let ?bv = "\<lparr>bv_page = 3, bv_offset = 0, bv_len = 4096\<rparr>"
  let ?t = "[zero_sge, zero_sge, zero_sge\<lparr>sge_end := True\<rparr>]"
  have t: "shannon_sg_init_table (replicate 3 zero_sge) 3 = Some ?t"
    by (simp add: shannon_sg_init_table_def shannon_sg_mark_end_def sg_store_def numeral_3_eq_3)
  have alloc: "shannon_sg_alloc (k_kzalloc sample_kenv) g1 3 g2 = Some (replicate 3 zero_sge)" for g1 g2
    by (simp add: shannon_sg_alloc_def sample_kenv_def SIZE_MAX_def sizeof_scatterlist_def)
  have loop: "lreq_segment (Suc (Suc (Suc (Suc k)))) 512 ?bv 0
      \<lparr>cv_cur = \<lparr>cur_table = ?t, cur_sg = None, cur_used = 0\<rparr>, cv_remained = 512\<rparr> = None" for k
    by (simp add: lreq_step_def sg_append_def shannon_sg_set_page_def shannon_sg_next_def sg_deref_def
        sg_store_def zero_sge_def)
  have "lreq_segment 4097 512 ?bv 0
      \<lparr>cv_cur = \<lparr>cur_table = ?t, cur_sg = None, cur_used = 0\<rparr>, cv_remained = 512\<rparr> = None"
    using loop [of 4093] by (simp del: lreq_segment.simps)
  moreover have "first_size_of 0 4096 512 = 0" by (simp add: first_size_of_def)
  ultimately show ?thesis
    using t alloc
    by (simp add: Let_def shannon_convert_lreq_def shannon_lreq_segments_def shannon_blk_rq_bytes_def
        shannon_blk_rq_pos_def del: lreq_segment.simps)
qed

section \<open>The width of the integers\<close>

text \<open>As in the conversion of a bio, a piece never exceeds the segment or the block, and what is left of a block not the block, so
  that the \<open>int\<close> and \<open>unsigned int\<close> variables of both loops hold the numbers of the model.\<close>

lemma lreq_step_fits:
  assumes "lreq_step L bv off s = Some (m, s')" "cv_remained s \<le> L"
  shows "m \<le> bv_len bv - off \<and> m \<le> L \<and> cv_remained s' \<le> L"
proof -
  have "m = (if bv_len bv - off < cv_remained s then bv_len bv - off else cv_remained s) \<and>
    cv_remained s' = (if cv_remained s - m = 0 then L else cv_remained s - m)"
    using assms(1) by (auto simp: lreq_step_def Let_def split: option.splits)
  then show ?thesis using assms(2) by (auto split: if_splits)
qed

lemma scsi_step_fits:
  assumes "scsi_step L sge off s = Some (m, s')" "cv_remained s \<le> L"
  shows "m \<le> 4096 \<and> m \<le> bv_len sge - off \<and> m \<le> L \<and> cv_remained s' \<le> L"
proof -
  define room where "room = 4096 - (bv_offset sge + off) mod 4096"
  define M where "M = (if room < cv_remained s then (if bv_len sge - off < room then bv_len sge - off else room)
      else (if bv_len sge - off < cv_remained s then bv_len sge - off else cv_remained s))"
  have step: "scsi_step L sge off s =
    (case sg_append (cv_cur s) (bv_page sge + (bv_offset sge + off) div 4096) M ((bv_offset sge + off) mod 4096) of None \<Rightarrow> None
     | Some c \<Rightarrow> Some (M, \<lparr>cv_cur = c, cv_remained = (if cv_remained s - M = 0 then L else cv_remained s - M)\<rparr>))"
    by (simp only: scsi_step_def Let_def PAGE_SIZE_def room_def M_def)
  have M: "M \<le> room" "M \<le> bv_len sge - off" "M \<le> cv_remained s" by (simp_all add: M_def)
  moreover have "room \<le> 4096" by (simp add: room_def)
  moreover have "m = M" "cv_remained s' = (if cv_remained s - M = 0 then L else cv_remained s - M)"
    using assms(1) unfolding step by (auto split: option.splits)
  ultimately show ?thesis using assms(2) by (auto split: if_splits)
qed

end
