(* ===== verification/Block_IO.thy ===== *)
theory Block_IO
  imports Bio_Bounce Request_Convert
begin

text \<open>
  The request paths of \<^verbatim>\<open>shannon_block.c\<close>: \<open>shannon_make_request\<close> and its namespace variant, the work
  functions that submit on a per-CPU work queue, the completion \<open>shannon_complete_fs_io\<close>, and the
  request-queue path \<open>shannon_disk_xfer_request\<close> / \<open>shannon_disk_request\<close>. Each function returns the trace of
  its calls that acquire or release something or complete the I/O. The precompiled core
  (availability, mapping table, submission) and the flags of the device are the record \<open>core\<close>.
\<close>

section \<open>Trace and parameters\<close>

datatype io_event =
    EvAllocSbio
  | EvFreeSbio
  | EvSgAlloc
  | EvSgFree bool                 \<comment> \<open>whether by \<open>vfree\<close>\<close>
  | EvBounce "ptr list"           \<comment> \<open>bounce pages taken\<close>
  | EvFreePages "ptr list"        \<comment> \<open>pages given back by the request path\<close>
  | EvStartAcct
  | EvEndAcct
  | EvQueueWork
  | EvSubmitted
  | EvDiscard u64 u64
  | EvCpumask
  | EvIncPending
  | EvDecPending
  | EvBioEndio u8
  | EvRqEnd bool                  \<comment> \<open>whether the request ended well\<close>
  | EvScsiEnd bool

record core =
  c_present :: bool                        \<comment> \<open>\<open>queuedata\<close> is not NULL\<close>
  c_unavailable :: bool                    \<comment> \<open>\<open>shannon_check_availability\<close>\<close>
  c_readonly :: bool
  c_logicb_size :: nat
  c_logicb_shift :: nat
  c_alloc_sbio :: "shannon_bio option"
  c_alloc_lpmt :: "shannon_bio \<Rightarrow> int"      \<comment> \<open>\<open>check_and_alloc_lpmt\<close>\<close>
  c_submit :: "shannon_bio \<Rightarrow> int"
  c_percpu_wq :: bool
  c_cpumask_set :: bool
  c_pool_used :: u64
  c_pool_cap :: u64
  c_overwrites :: "shannon_bio \<Rightarrow> bool"     \<comment> \<open>\<open>check_sbio_is_overwrited\<close>\<close>

text \<open>A bio with its operation word: the operation is the low byte, bit 0 of it the direction.\<close>

record io_bio =
  ib_bio :: bio
  ib_opf :: u32

definition REQ_OP_DISCARD :: u32 where "REQ_OP_DISCARD = 3"
definition bio_op :: "io_bio \<Rightarrow> u32" where "bio_op b = ib_opf b AND 0xff"

definition shannon_should_trim_bio :: "io_bio \<Rightarrow> bool" where
  "shannon_should_trim_bio b \<longleftrightarrow> ib_opf b \<noteq> 0 \<and> bio_op b = REQ_OP_DISCARD"

definition shannon_bio_data_dir :: "io_bio \<Rightarrow> bool" where
  "shannon_bio_data_dir b \<longleftrightarrow> bio_op b AND 1 \<noteq> 0"

text \<open>Since 4.13 the error number is stored in the 8-bit \<open>bi_status\<close>.\<close>

definition shannon_bio_endio :: "int \<Rightarrow> io_event" where
  "shannon_bio_endio error = EvBioEndio (word_of_int error)"

definition LREQ_IO_GOOD :: int where [simp]: "LREQ_IO_GOOD = 1"
definition LREQ_IO_ERROR :: int where [simp]: "LREQ_IO_ERROR = 0"

text \<open>\<open>blk_mq_end_request(rq, error ? BLK_STS_OK : BLK_STS_IOERR)\<close>: the argument is one of the two
  constants above, not an error number.\<close>

definition shannon_end_request :: "int \<Rightarrow> io_event" where
  [simp]: "shannon_end_request error = EvRqEnd (error \<noteq> 0)"

text \<open>\<open>bi_flags\<close> holds \<open>bits\<close> flags on this kernel.\<close>

definition shannon_bio_flagged :: "nat \<Rightarrow> nat \<Rightarrow> nat \<Rightarrow> bool" where
  "shannon_bio_flagged bits bi_flags flag = (if flag \<ge> bits then False else bit bi_flags flag)"

section \<open>Discard ranges\<close>

definition ALIGN_UP :: "u64 \<Rightarrow> u64 \<Rightarrow> u64" where
  "ALIGN_UP addr sz = (addr + (sz - 1)) AND NOT (sz - 1)"

definition ALIGN_DOWN :: "u64 \<Rightarrow> u64 \<Rightarrow> u64" where
  "ALIGN_DOWN addr sz = addr AND NOT (sz - 1)"

text \<open>The range in logical blocks handed to \<open>shannon_discard\<close>.\<close>

definition trim_range :: "nat \<Rightarrow> nat \<Rightarrow> u64 \<Rightarrow> nat \<Rightarrow> u64 \<times> u64" where
  "trim_range logicb_size logicb_shift sector bytes =
    (let trim_start = sector;
         trim_end = trim_start + of_nat (bytes div 512);
         trim_start = ALIGN_UP trim_start (of_nat (logicb_size div 512));
         trim_end = ALIGN_DOWN trim_end (of_nat (logicb_size div 512));
         trim_start = drop_bit (logicb_shift - 9) trim_start;
         trim_end = drop_bit (logicb_shift - 9) trim_end
     in (trim_start, trim_end))"

section \<open>The bio path\<close>

text \<open>What a successful conversion holds.\<close>

definition bounce_pages_of :: "shannon_bio \<Rightarrow> ptr list" where
  "bounce_pages_of sb = (case sb_sg sb of None \<Rightarrow> [] | Some t \<Rightarrow> map sge_page (take (sb_used_sg_count sb) t))"

definition conversion_events :: "shannon_bio \<Rightarrow> io_event list" where
  "conversion_events sb = EvSgAlloc # (if sb_need_bounce sb then [EvBounce (bounce_pages_of sb)] else [])"

text \<open>The labels \<open>free_sbio\<close>, \<open>free_sg_list\<close> and \<open>end_io_acct\<close> of \<open>shannon_make_request\<close>.\<close>

definition mr_free_sbio :: "int \<Rightarrow> io_event list" where
  "mr_free_sbio ret = [EvFreeSbio, shannon_bio_endio ret]"

definition mr_free_sg_list :: "shannon_bio \<Rightarrow> int \<Rightarrow> io_event list option" where
  "mr_free_sg_list sbio ret =
    (let pages = (if sb_need_bounce sbio
                  then (case sb_sg sbio of None \<Rightarrow> None
                        | Some t \<Rightarrow> map_option (\<lambda>ps. [EvFreePages ps])
                                     (shannon_free_bounce_pages t (sb_used_sg_count sbio)))
                  else Some [])
     in map_option (\<lambda>evs. evs @ (if sb_sg_count sbio \<noteq> 0 then [EvSgFree (sb_is_valloc sbio)] else [])
                           @ mr_free_sbio ret) pages)"

definition mr_end_io_acct :: "shannon_bio \<Rightarrow> int \<Rightarrow> io_event list option" where
  "mr_end_io_acct sbio ret = map_option (Cons EvEndAcct) (mr_free_sg_list sbio ret)"

text \<open>The result: the trace, the memory, and the sbio if it was handed on (queued or submitted).\<close>

type_synonym io_result = "io_event list \<times> memory \<times> shannon_bio option"

definition shannon_make_request ::
    "kenv \<Rightarrow> core \<Rightarrow> memory \<Rightarrow> io_bio option \<Rightarrow> io_result option" where
  "shannon_make_request k c m bio_ptr =
    (case bio_ptr of None \<Rightarrow> None \<comment> \<open>\<open>shannon_bio_endio(NULL)\<close>\<close>
     | Some b \<Rightarrow>
    if \<not> c_present c \<or> c_unavailable c then Some ([shannon_bio_endio (- EIO)], m, None)
    else if shannon_should_trim_bio b then
      (let (s, e) = trim_range (c_logicb_size c) (c_logicb_shift c) (get_bi_sector (ib_bio b)) (get_bi_size (ib_bio b))
       in Some ([EvDiscard s e, shannon_bio_endio 0], m, None))
    else if get_bi_size (ib_bio b) = 0 then Some ([shannon_bio_endio 0], m, None)
    else if c_readonly c \<and> shannon_bio_data_dir b then Some ([shannon_bio_endio (- EIO)], m, None)
    else
      let pre = (if c_cpumask_set c then [EvCpumask] else [])
      in case c_alloc_sbio c of None \<Rightarrow> Some (pre @ [shannon_bio_endio (- ENOMEM)], m, None)
         | Some sbio0 \<Rightarrow>
            let sbio = sbio0\<lparr>sb_dma_dir := (if shannon_bio_data_dir b then SHANNON_DMA_TODEVICE
                                           else SHANNON_DMA_FROMDEVICE)\<rparr>;
                pre = pre @ [EvAllocSbio]
            in case shannon_convert_bio k m sbio (ib_bio b) (c_logicb_size c) of None \<Rightarrow> None
               | Some (ret, sbio, m', _) \<Rightarrow>
                  if ret \<noteq> 0 then Some (pre @ mr_free_sbio ret, m', None)
                  else
                    let pre = pre @ conversion_events sbio
                    in if sb_dma_dir sbio = SHANNON_DMA_TODEVICE \<and> c_alloc_lpmt c sbio \<noteq> 0
                       then map_option (\<lambda>evs. (pre @ evs, m', None)) (mr_free_sg_list sbio (- EIO))
                       else
                         let pre = pre @ [EvStartAcct]
                         in if c_percpu_wq c then Some (pre @ [EvQueueWork], m', Some sbio)
                            else let ret = c_submit c sbio
                                 in if ret \<noteq> 0
                                    then map_option (\<lambda>evs. (pre @ evs, m', None)) (mr_end_io_acct sbio ret)
                                    else Some (pre @ [EvSubmitted], m', Some sbio))"

text \<open>The work function: \<open>shannon_submit_bio\<close> failed or took the sbio.\<close>

definition submit_sbio_task :: "core \<Rightarrow> shannon_bio \<Rightarrow> io_event list \<times> shannon_bio option" where
  "submit_sbio_task c sbio =
    (let ret = c_submit c sbio
     in if ret \<noteq> 0
        then ([EvEndAcct] @ (if sb_sg sbio \<noteq> None then [EvSgFree (sb_is_valloc sbio)] else [])
              @ [shannon_bio_endio ret, EvFreeSbio], None)
        else ([EvSubmitted], Some sbio))"

section \<open>The namespace path\<close>

definition mrn_free_sbio :: "int \<Rightarrow> io_event list" where
  "mrn_free_sbio ret = [EvFreeSbio, shannon_bio_endio ret, EvDecPending]"

definition mrn_free_sg_list :: "shannon_bio \<Rightarrow> int \<Rightarrow> io_event list" where
  "mrn_free_sg_list sbio ret =
     (if sb_sg sbio \<noteq> None then [EvSgFree (sb_is_valloc sbio)] else []) @ mrn_free_sbio ret"

text \<open>\<open>alloc_sbio\<close> is not checked here: its failure is a NULL dereference.\<close>

definition shannon_make_request_ns :: "kenv \<Rightarrow> core \<Rightarrow> memory \<Rightarrow> io_bio \<Rightarrow> io_result option" where
  "shannon_make_request_ns k c m b =
    (if c_unavailable c then Some ([EvIncPending, shannon_bio_endio (- EIO), EvDecPending], m, None)
    else if shannon_should_trim_bio b then
      (let (s, e) = trim_range (c_logicb_size c) (c_logicb_shift c) (get_bi_sector (ib_bio b)) (get_bi_size (ib_bio b))
       in Some ([EvIncPending, EvDiscard s e, shannon_bio_endio 0, EvDecPending], m, None))
    else if get_bi_size (ib_bio b) = 0 then Some ([EvIncPending, shannon_bio_endio 0, EvDecPending], m, None)
    else case c_alloc_sbio c of None \<Rightarrow> None
         | Some sbio0 \<Rightarrow>
            let sbio = sbio0\<lparr>sb_dma_dir := (if shannon_bio_data_dir b then SHANNON_DMA_TODEVICE
                                           else SHANNON_DMA_FROMDEVICE)\<rparr>;
                pre = [EvIncPending, EvAllocSbio]
            in case shannon_convert_bio k m sbio (ib_bio b) (c_logicb_size c) of None \<Rightarrow> None
               | Some (ret, sbio, m', _) \<Rightarrow>
                  if ret \<noteq> 0 then Some (pre @ mrn_free_sbio ret, m', None)
                  else
                    let pre = pre @ conversion_events sbio
                    in if sb_dma_dir sbio = SHANNON_DMA_TODEVICE \<and> c_alloc_lpmt c sbio \<noteq> 0
                       then Some (pre @ mrn_free_sg_list sbio (- EIO), m', None)
                       else if shannon_bio_data_dir b \<and> (c_readonly c \<or>
                               (c_pool_used c > c_pool_cap c div 8 \<and> \<not> c_overwrites c sbio))
                       then Some (pre @ mrn_free_sg_list sbio (- EIO), m', None)
                       else
                         let pre = pre @ [EvStartAcct]
                         in if c_percpu_wq c then Some (pre @ [EvQueueWork], m', Some sbio)
                            else let ret = c_submit c sbio
                                 in if ret \<noteq> 0
                                    then Some (pre @ [EvEndAcct] @ mrn_free_sg_list sbio ret, m', None)
                                    else Some (pre @ [EvSubmitted], m', Some sbio))"

definition submit_sbio_task_ns :: "core \<Rightarrow> shannon_bio \<Rightarrow> io_event list \<times> shannon_bio option" where
  "submit_sbio_task_ns c sbio =
    (let ret = c_submit c sbio
     in if ret \<noteq> 0
        then ([EvEndAcct] @ (if sb_sg sbio \<noteq> None then [EvSgFree (sb_is_valloc sbio)] else [])
              @ [shannon_bio_endio ret, EvFreeSbio, EvDecPending], None)
        else ([EvSubmitted], Some sbio))"

section \<open>Completion\<close>

text \<open>What an sbio was made from; \<open>Orphan\<close> is the case the code calls a BUG.\<close>

datatype origin = FromBio io_bio | FromRequest | FromScsi | Orphan

definition shannon_complete_fs_io ::
    "memory \<Rightarrow> origin \<Rightarrow> int \<Rightarrow> shannon_bio \<Rightarrow> (io_event list \<times> memory) option" where
  "shannon_complete_fs_io m orig status sbio =
    (case orig of
       FromBio b \<Rightarrow>
        (let bounce =
           (if sb_need_bounce sbio then
              (case sb_sg sbio of None \<Rightarrow> None
               | Some t \<Rightarrow>
                  (case (if sb_dma_dir sbio = SHANNON_DMA_FROMDEVICE
                         then shannon_copy_bounce_pages m (ib_bio b) t False else Some m) of None \<Rightarrow> None
                   | Some m' \<Rightarrow> map_option (\<lambda>ps. ([EvFreePages ps], m'))
                                (shannon_free_bounce_pages t (sb_used_sg_count sbio))))
            else Some ([], m))
         in map_option (\<lambda>(evs, m'). (evs @ [EvEndAcct, shannon_bio_endio (if status = 0 then 0 else - EIO)], m'))
              bounce)
     | FromRequest \<Rightarrow> Some ([shannon_end_request (if status \<noteq> 0 then LREQ_IO_ERROR else LREQ_IO_GOOD)], m)
     | FromScsi \<Rightarrow> Some ([EvScsiEnd (status = 0)], m)
     | Orphan \<Rightarrow> None)"

section \<open>The request-queue path\<close>

datatype rq_kind = RqPassthrough | RqDiscard | RqFs

text \<open>The trace and the return value, 0 or \<open>-ENOMEM\<close>, and the sbio handed on.\<close>

definition xfer_fail :: "shannon_bio \<Rightarrow> bool \<Rightarrow> int \<Rightarrow> io_event list \<times> int \<times> shannon_bio option" where
  "xfer_fail sbio free_sg ret =
    ((if free_sg \<and> sb_sg sbio \<noteq> None then [EvSgFree (sb_is_valloc sbio)] else []) @ [EvFreeSbio] @
       (if ret = - ENOMEM then [] else [shannon_end_request LREQ_IO_ERROR]),
     (if ret = - ENOMEM then - ENOMEM else 0), None)"

definition shannon_disk_xfer_request ::
    "kenv \<Rightarrow> core \<Rightarrow> rq_kind \<Rightarrow> bool \<Rightarrow> request \<Rightarrow> (io_event list \<times> int \<times> shannon_bio option) option" where
  "shannon_disk_xfer_request k c kind write rq =
    (if c_unavailable c then Some ([shannon_end_request LREQ_IO_ERROR], 0, None)
     else if kind = RqPassthrough then Some ([shannon_end_request LREQ_IO_ERROR], 0, None)
     else if kind = RqDiscard then
       (let (s, e) = trim_range (c_logicb_size c) (c_logicb_shift c) (shannon_blk_rq_pos rq) (shannon_blk_rq_bytes rq)
        in Some ([EvDiscard s e, shannon_end_request LREQ_IO_GOOD], 0, None))
     else if shannon_blk_rq_bytes rq = 0 then Some ([shannon_end_request LREQ_IO_GOOD], 0, None)
     else if c_readonly c \<and> write then Some ([shannon_end_request LREQ_IO_ERROR], 0, None)
     else case c_alloc_sbio c of None \<Rightarrow> None
          | Some sbio0 \<Rightarrow>
             let sbio = sbio0\<lparr>sb_dma_dir := (if write then SHANNON_DMA_TODEVICE else SHANNON_DMA_FROMDEVICE)\<rparr>
             in case shannon_convert_lreq k (c_logicb_size c) sbio rq of None \<Rightarrow> None
                | Some (ret, sbio) \<Rightarrow>
                   let add = (\<lambda>pre (evs, r, h). (pre @ evs, r, h))
                   in if ret \<noteq> 0 then Some (add [EvAllocSbio] (xfer_fail sbio False ret))
                      else if sb_dma_dir sbio = SHANNON_DMA_TODEVICE \<and> c_alloc_lpmt c sbio \<noteq> 0
                      then Some (add [EvAllocSbio, EvSgAlloc] (xfer_fail sbio True (- EIO)))
                      else let ret = c_submit c sbio
                           in if ret \<noteq> 0 then Some (add [EvAllocSbio, EvSgAlloc] (xfer_fail sbio True ret))
                              else Some ([EvAllocSbio, EvSgAlloc, EvSubmitted], 0, Some sbio))"

datatype blk_status = BLK_STS_OK | BLK_STS_IOERR

definition shannon_disk_request ::
    "kenv \<Rightarrow> core \<Rightarrow> rq_kind \<Rightarrow> bool \<Rightarrow> request \<Rightarrow> (io_event list \<times> blk_status \<times> shannon_bio option) option" where
  "shannon_disk_request k c kind write rq =
     map_option (\<lambda>(evs, result, h). (evs, if result = - ENOMEM then BLK_STS_IOERR else BLK_STS_OK, h))
       (shannon_disk_xfer_request k c kind write rq)"

section \<open>Counting what a trace does\<close>

definition completions :: "io_event list \<Rightarrow> nat" where
  "completions evs = length (filter (\<lambda>e. case e of EvBioEndio _ \<Rightarrow> True | _ \<Rightarrow> False) evs)"

definition sg_frees :: "io_event list \<Rightarrow> nat" where
  "sg_frees evs = length (filter (\<lambda>e. case e of EvSgFree _ \<Rightarrow> True | _ \<Rightarrow> False) evs)"

definition pages_taken :: "io_event list \<Rightarrow> ptr list" where
  "pages_taken evs = concat (map (\<lambda>e. case e of EvBounce ps \<Rightarrow> ps | _ \<Rightarrow> []) evs)"

definition pages_freed :: "io_event list \<Rightarrow> ptr list" where
  "pages_freed evs = concat (map (\<lambda>e. case e of EvFreePages ps \<Rightarrow> ps | _ \<Rightarrow> []) evs)"

lemmas trace_defs = completions_def sg_frees_def pages_taken_def pages_freed_def

text \<open>Everything acquired is released, except by an sbio that was handed on.\<close>

definition accounts_balanced :: "io_event list \<Rightarrow> shannon_bio option \<Rightarrow> bool" where
  "accounts_balanced evs h \<longleftrightarrow>
    (let held = (if h = None then 0 else 1) in
      completions evs + held = 1 \<and>
      count_list evs EvAllocSbio = count_list evs EvFreeSbio + held \<and>
      count_list evs EvSgAlloc = sg_frees evs + held \<and>
      count_list evs EvStartAcct = count_list evs EvEndAcct + held)"

lemma for_each_sg_take: "for_each_sg t (Some k) n = Some es \<Longrightarrow> es = take n (drop k t)"
proof (induction n arbitrary: k es)
  case (Suc n)
  obtain e sg' es' where e: "sg_deref t (Some k) = Some e" "shannon_sg_next t (Some k) = Some sg'"
      "for_each_sg t sg' n = Some es'" "es = e # es'"
    using Suc.prems by (auto split: option.splits)
  have k: "k < length t" "e = t ! k" using e(1) by (auto simp: sg_deref_def split: if_splits)
  then have d: "drop k t = e # drop (Suc k) t" by (simp add: Cons_nth_drop_Suc)
  show ?case
  proof (cases "sge_end e")
    case False
    then have "sg' = Some (Suc k)" using e(1,2) by (simp add: shannon_sg_next_def)
    with e Suc.IH [of "Suc k" es'] d show ?thesis by simp
  next
    case True
    then have "sg' = None" using e(1,2) by (simp add: shannon_sg_next_def)
    with e(3) have "n = 0" "es' = []" by (cases n; simp add: sg_deref_def)+
    with e(4) d show ?thesis by simp
  qed
qed simp

lemma free_bounce_pages_all:
  "sb_sg sb = Some t \<Longrightarrow> shannon_free_bounce_pages t (sb_used_sg_count sb) = Some ps \<Longrightarrow> ps = bounce_pages_of sb"
  by (auto simp: shannon_free_bounce_pages_def bounce_pages_of_def dest: for_each_sg_take)

lemma convert_old_fashion_sg:
  "convert_old_fashion sb b L t = Some sb' \<Longrightarrow>
     sb_sg sb' \<noteq> None \<and> sb_sg_count sb' = sb_sg_count sb \<and> sb_dma_dir sb' = sb_dma_dir sb"
  by (auto simp: convert_old_fashion_def Let_def split: option.splits)

lemma sg_init_table_pos: "shannon_sg_init_table t n = Some t' \<Longrightarrow> n \<noteq> 0"
  by (auto simp: shannon_sg_init_table_def shannon_sg_mark_end_def sg_store_def split: if_splits)

lemma convert_body_sg:
  "convert_bio_body k m sb b L = Some (0, sb', m', fr) \<Longrightarrow>
     sb_sg sb' \<noteq> None \<and> sb_sg_count sb' \<noteq> 0 \<and> sb_dma_dir sb' = sb_dma_dir sb"
  unfolding convert_bio_body_def Let_def
  by (auto split: option.splits if_splits prod.splits dest!: convert_old_fashion_sg sg_init_table_pos
      simp: ENOMEM_def)

lemma convert_bio_sg:
  "shannon_convert_bio k m sb b L = Some (0, sb', m', fr) \<Longrightarrow>
     sb_sg sb' \<noteq> None \<and> sb_sg_count sb' \<noteq> 0 \<and> sb_dma_dir sb' = sb_dma_dir sb"
  by (auto simp: shannon_convert_bio_def EINVAL_def dest: convert_body_sg split: if_splits)

end
