(* ===== verification/IO_Lifecycle.thy ===== *)
theory IO_Lifecycle
  imports Block_IO
begin

text \<open>
  Correctness of the request paths: every path releases what it acquired and completes the bio exactly once
  or hands it on; the whole life of a bio (arrival, per-CPU work, submission, completion) as a
  transition system; the discard arithmetic; and the status byte a failed bio carries.
\<close>

section \<open>Counting over parts of a trace\<close>

lemma trace_append [simp]:
  "completions (xs @ ys) = completions xs + completions ys"
  "sg_frees (xs @ ys) = sg_frees xs + sg_frees ys"
  "pages_taken (xs @ ys) = pages_taken xs @ pages_taken ys"
  "pages_freed (xs @ ys) = pages_freed xs @ pages_freed ys"
  by (simp_all add: trace_defs)

lemma trace_Nil [simp]:
  "completions [] = 0" "sg_frees [] = 0" "pages_taken [] = []" "pages_freed [] = []"
  by (simp_all add: trace_defs)

lemma trace_Cons [simp]:
  "completions (e # es) = (case e of EvBioEndio _ \<Rightarrow> 1 | _ \<Rightarrow> 0) + completions es"
  "sg_frees (e # es) = (case e of EvSgFree _ \<Rightarrow> 1 | _ \<Rightarrow> 0) + sg_frees es"
  "pages_taken (e # es) = (case e of EvBounce ps \<Rightarrow> ps | _ \<Rightarrow> []) @ pages_taken es"
  "pages_freed (e # es) = (case e of EvFreePages ps \<Rightarrow> ps | _ \<Rightarrow> []) @ pages_freed es"
  by (simp_all add: trace_defs split: io_event.split)

lemmas balance_simps = accounts_balanced_def Let_def shannon_bio_endio_def conversion_events_def
  count_list_append

text \<open>What the three labels of the error path release.\<close>

lemma mr_free_sg_list_trace:
  assumes "mr_free_sg_list sb ret = Some evs" "sb_sg sb \<noteq> None" "sb_sg_count sb \<noteq> 0"
  shows "completions evs = 1 \<and> sg_frees evs = 1 \<and> count_list evs EvFreeSbio = 1 \<and>
    count_list evs EvAllocSbio = 0 \<and> count_list evs EvSgAlloc = 0 \<and> count_list evs EvStartAcct = 0 \<and>
    count_list evs EvEndAcct = 0 \<and> pages_taken evs = [] \<and>
    pages_freed evs = (if sb_need_bounce sb then bounce_pages_of sb else [])"
  using assms
  by (auto simp: mr_free_sg_list_def Let_def mr_free_sbio_def shannon_bio_endio_def
      split: if_splits dest: free_bounce_pages_all)

lemma conversion_trace:
  "completions (conversion_events sb) = 0 \<and> sg_frees (conversion_events sb) = 0 \<and>
   count_list (conversion_events sb) EvSgAlloc = 1 \<and> count_list (conversion_events sb) EvAllocSbio = 0 \<and>
   count_list (conversion_events sb) EvFreeSbio = 0 \<and> count_list (conversion_events sb) EvStartAcct = 0 \<and>
   count_list (conversion_events sb) EvEndAcct = 0 \<and> pages_freed (conversion_events sb) = [] \<and>
   count_list (conversion_events sb) EvIncPending = 0 \<and> count_list (conversion_events sb) EvDecPending = 0 \<and>
   pages_taken (conversion_events sb) = (if sb_need_bounce sb then bounce_pages_of sb else [])"
  by (simp add: conversion_events_def)

section \<open>Properties of the submission paths\<close>

text \<open>The cases in which \<open>shannon_make_request\<close> answers before it converts the bio.\<close>

definition answered_early :: "core \<Rightarrow> io_bio \<Rightarrow> bool" where
  "answered_early c b \<longleftrightarrow> \<not> c_present c \<or> c_unavailable c \<or> shannon_should_trim_bio b \<or>
     get_bi_size (ib_bio b) = 0 \<or> (c_readonly c \<and> shannon_bio_data_dir b) \<or> c_alloc_sbio c = None"

definition with_dir :: "io_bio \<Rightarrow> shannon_bio \<Rightarrow> shannon_bio" where
  "with_dir b sb = sb\<lparr>sb_dma_dir := (if shannon_bio_data_dir b then SHANNON_DMA_TODEVICE
     else SHANNON_DMA_FROMDEVICE)\<rparr>"

text \<open>The run of \<open>shannon_make_request\<close> after a successful conversion, the trace so far given.\<close>

definition after_convert :: "core \<Rightarrow> io_event list \<Rightarrow> shannon_bio \<Rightarrow> memory \<Rightarrow> io_result option" where
  "after_convert c pre sb m' =
    (if sb_dma_dir sb = SHANNON_DMA_TODEVICE \<and> c_alloc_lpmt c sb \<noteq> 0
     then map_option (\<lambda>evs. (pre @ evs, m', None)) (mr_free_sg_list sb (- EIO))
     else if c_percpu_wq c then Some (pre @ [EvStartAcct, EvQueueWork], m', Some sb)
     else if c_submit c sb \<noteq> 0
     then map_option (\<lambda>evs. (pre @ EvStartAcct # evs, m', None)) (mr_end_io_acct sb (c_submit c sb))
     else Some (pre @ [EvStartAcct, EvSubmitted], m', Some sb))"

lemma make_request_cases:
  assumes "\<not> answered_early c b"
  shows "\<exists>s pre. c_alloc_sbio c = Some s \<and> set pre \<subseteq> {EvCpumask} \<and>
    shannon_make_request k c m (Some b) =
      (case shannon_convert_bio k m (with_dir b s) (ib_bio b) (c_logicb_size c) of None \<Rightarrow> None
       | Some (ret, sb, m', _) \<Rightarrow>
          if ret \<noteq> 0 then Some (pre @ EvAllocSbio # mr_free_sbio ret, m', None)
          else after_convert c (pre @ EvAllocSbio # conversion_events sb) sb m')"
proof -
  obtain s where s: "c_alloc_sbio c = Some s" using assms by (auto simp: answered_early_def)
  let ?pre = "if c_cpumask_set c then [EvCpumask] else []"
  have "shannon_make_request k c m (Some b) =
      (case shannon_convert_bio k m (with_dir b s) (ib_bio b) (c_logicb_size c) of None \<Rightarrow> None
       | Some (ret, sb, m', _) \<Rightarrow>
          if ret \<noteq> 0 then Some (?pre @ EvAllocSbio # mr_free_sbio ret, m', None)
          else after_convert c (?pre @ EvAllocSbio # conversion_events sb) sb m')"
    using assms s
    by (auto simp: shannon_make_request_def answered_early_def with_dir_def after_convert_def Let_def
        split: option.split prod.split)
  then show ?thesis using s by (intro exI [of _ s] exI [of _ ?pre]) auto
qed

lemma cpumask_trace:
  "set pre \<subseteq> {EvCpumask} \<Longrightarrow> completions pre = 0 \<and> sg_frees pre = 0 \<and> pages_taken pre = [] \<and>
     pages_freed pre = [] \<and> count_list pre EvAllocSbio = 0 \<and> count_list pre EvFreeSbio = 0 \<and>
     count_list pre EvSgAlloc = 0 \<and> count_list pre EvStartAcct = 0 \<and> count_list pre EvEndAcct = 0"
  by (induction pre) auto

lemma after_convert_balanced:
  assumes "after_convert c (pre @ EvAllocSbio # conversion_events sb) sb m1 = Some (evs, m', h)"
    and "set pre \<subseteq> {EvCpumask}" "sb_sg sb \<noteq> None" "sb_sg_count sb \<noteq> 0"
  shows "accounts_balanced evs h \<and> (h = None \<longrightarrow> pages_freed evs = pages_taken evs) \<and>
    (h \<noteq> None \<longrightarrow> pages_freed evs = [])"
  using assms cpumask_trace [OF assms(2)] conversion_trace [of sb]
  by (auto simp: after_convert_def mr_end_io_acct_def accounts_balanced_def Let_def count_list_append
      split: if_splits dest!: mr_free_sg_list_trace)

lemma make_request_accounts:
  assumes "shannon_make_request k c m (Some b) = Some (evs, m', h)"
  shows "accounts_balanced evs h \<and> (h = None \<longrightarrow> pages_freed evs = pages_taken evs) \<and>
    (h \<noteq> None \<longrightarrow> pages_freed evs = [])"
proof (cases "answered_early c b")
  case True
  then show ?thesis
    using assms
    by (auto simp: shannon_make_request_def answered_early_def balance_simps split: if_splits prod.splits)
next
  case False
  obtain s pre where s: "set pre \<subseteq> {EvCpumask}" "shannon_make_request k c m (Some b) =
      (case shannon_convert_bio k m (with_dir b s) (ib_bio b) (c_logicb_size c) of None \<Rightarrow> None
       | Some (ret, sb, m', _) \<Rightarrow>
          if ret \<noteq> 0 then Some (pre @ EvAllocSbio # mr_free_sbio ret, m', None)
          else after_convert c (pre @ EvAllocSbio # conversion_events sb) sb m')"
    using make_request_cases [OF False] by blast
  obtain ret sb m1 fr where conv: "shannon_convert_bio k m (with_dir b s) (ib_bio b) (c_logicb_size c) =
      Some (ret, sb, m1, fr)"
    using assms s(2) by (auto split: option.splits)
  show ?thesis
  proof (cases "ret = 0")
    case True
    with assms s conv convert_bio_sg [OF conv [unfolded True]] show ?thesis
      by (intro after_convert_balanced) auto
  next
    case nz: False
    with assms s(2) conv cpumask_trace [OF s(1)] show ?thesis
      by (auto simp: mr_free_sbio_def balance_simps)
  qed
qed

text \<open>C8 (safety). Every run of \<open>shannon_make_request\<close> on a bio completes the bio exactly once and releases
  the sbio, the table, the I/O accounting and all bounce pages, or it hands the sbio on and does
  none of these; it never does both and never neither.\<close>

theorem make_request_balanced:
  assumes "shannon_make_request k c m (Some b) = Some (evs, m', h)"
  shows "accounts_balanced evs h \<and> (h = None \<longrightarrow> pages_freed evs = pages_taken evs) \<and>
    (h \<noteq> None \<longrightarrow> pages_freed evs = [])"
  using assms by (rule make_request_accounts)

text \<open>A device that is not there, used by the witnesses.\<close>

definition sample_core :: core where
  "sample_core = \<lparr>c_present = True, c_unavailable = False, c_readonly = False, c_logicb_size = 4096,
     c_logicb_shift = 12, c_alloc_sbio = Some sample_sbio, c_alloc_lpmt = (\<lambda>_. 0), c_submit = (\<lambda>_. 0),
     c_percpu_wq = True, c_cpumask_set = False, c_pool_used = 0, c_pool_cap = 0, c_overwrites = (\<lambda>_. False)\<rparr>"

theorem make_request_balanced_witness:
  "accounts_balanced [EvBioEndio 251] None \<and>
   shannon_make_request sample_kenv (sample_core\<lparr>c_unavailable := True\<rparr>) (\<lambda>_. 0) (Some \<lparr>ib_bio = odd_bio, ib_opf = 1\<rparr>) =
     Some ([EvBioEndio 251], \<lambda>_. 0, None)"
proof -
  have run: "shannon_make_request sample_kenv (sample_core\<lparr>c_unavailable := True\<rparr>) (\<lambda>_. 0)
      (Some \<lparr>ib_bio = odd_bio, ib_opf = 1\<rparr>) = Some ([EvBioEndio 251], \<lambda>_. 0, None)"
    by (simp add: shannon_make_request_def sample_core_def shannon_bio_endio_def EIO_def)
  then show ?thesis using make_request_balanced [OF run] by simp
qed

section \<open>The namespace path\<close>

text \<open>Here the number of pending bios is counted too, and the error labels do not give bounce pages
  back.\<close>

lemma mrn_free_sg_list_trace:
  "sb_sg sb \<noteq> None \<Longrightarrow> completions (mrn_free_sg_list sb ret) = 1 \<and> sg_frees (mrn_free_sg_list sb ret) = 1 \<and>
    count_list (mrn_free_sg_list sb ret) EvFreeSbio = 1 \<and> count_list (mrn_free_sg_list sb ret) EvAllocSbio = 0 \<and>
    count_list (mrn_free_sg_list sb ret) EvSgAlloc = 0 \<and> count_list (mrn_free_sg_list sb ret) EvStartAcct = 0 \<and>
    count_list (mrn_free_sg_list sb ret) EvEndAcct = 0 \<and> pages_freed (mrn_free_sg_list sb ret) = [] \<and>
    count_list (mrn_free_sg_list sb ret) EvIncPending = 0 \<and> count_list (mrn_free_sg_list sb ret) EvDecPending = 1"
  by (auto simp: mrn_free_sg_list_def mrn_free_sbio_def shannon_bio_endio_def)

text \<open>The run after a successful conversion: the trace, and the sbio if it was handed on.\<close>

definition ns_refused :: "core \<Rightarrow> io_bio \<Rightarrow> shannon_bio \<Rightarrow> bool" where
  "ns_refused c b sb \<longleftrightarrow> (sb_dma_dir sb = SHANNON_DMA_TODEVICE \<and> c_alloc_lpmt c sb \<noteq> 0) \<or>
     (shannon_bio_data_dir b \<and> (c_readonly c \<or> (c_pool_used c > c_pool_cap c div 8 \<and> \<not> c_overwrites c sb)))"

definition ns_holder :: "core \<Rightarrow> io_bio \<Rightarrow> shannon_bio \<Rightarrow> shannon_bio option" where
  "ns_holder c b sb = (if \<not> ns_refused c b sb \<and> (c_percpu_wq c \<or> c_submit c sb = 0) then Some sb else None)"

definition after_convert_ns :: "core \<Rightarrow> io_bio \<Rightarrow> shannon_bio \<Rightarrow> io_event list" where
  "after_convert_ns c b sb = [EvIncPending, EvAllocSbio] @ conversion_events sb @
    (if ns_refused c b sb then mrn_free_sg_list sb (- EIO)
     else EvStartAcct # (if c_percpu_wq c then [EvQueueWork]
       else if c_submit c sb \<noteq> 0 then EvEndAcct # mrn_free_sg_list sb (c_submit c sb) else [EvSubmitted]))"

lemma make_request_ns_cases:
  assumes "\<not> (c_unavailable c \<or> shannon_should_trim_bio b \<or> get_bi_size (ib_bio b) = 0)"
  shows "shannon_make_request_ns k c m b = (case c_alloc_sbio c of None \<Rightarrow> None | Some s \<Rightarrow>
      (case shannon_convert_bio k m (with_dir b s) (ib_bio b) (c_logicb_size c) of None \<Rightarrow> None
       | Some (ret, sb, m', _) \<Rightarrow>
          if ret \<noteq> 0 then Some ([EvIncPending, EvAllocSbio] @ mrn_free_sbio ret, m', None)
          else Some (after_convert_ns c b sb, m', ns_holder c b sb)))"
proof (cases "c_alloc_sbio c")
  case s: (Some s)
  have wd: "s\<lparr>sb_dma_dir := (if shannon_bio_data_dir b then SHANNON_DMA_TODEVICE else SHANNON_DMA_FROMDEVICE)\<rparr> = with_dir b s"
    by (simp add: with_dir_def)
  show ?thesis
  proof (cases "shannon_convert_bio k m (with_dir b s) (ib_bio b) (c_logicb_size c)")
    case None
    then show ?thesis using assms s by (simp add: shannon_make_request_ns_def Let_def wd split del: if_split)
  next
    case (Some r)
    obtain ret sb m' fr where "r = (ret, sb, m', fr)" by (cases r)
    with Some assms s wd show ?thesis
      by (simp add: shannon_make_request_ns_def Let_def split del: if_split)
         (auto simp: ns_refused_def ns_holder_def after_convert_ns_def Let_def)
  qed
qed (use assms in \<open>simp add: shannon_make_request_ns_def\<close>)

lemma after_convert_ns_balanced:
  assumes "sb_sg sb \<noteq> None"
  shows "accounts_balanced (after_convert_ns c b sb) (ns_holder c b sb) \<and>
    count_list (after_convert_ns c b sb) EvIncPending = 1 \<and>
    count_list (after_convert_ns c b sb) EvDecPending = (if ns_holder c b sb = None then 1 else 0) \<and>
    pages_freed (after_convert_ns c b sb) = []"
  using mrn_free_sg_list_trace [OF assms] conversion_trace [of sb]
  by (simp add: after_convert_ns_def ns_holder_def accounts_balanced_def count_list_append)

text \<open>C17 (safety). Every run of \<open>shannon_make_request_ns\<close> that returns completes the bio exactly once,
  releases sbio, table and accounting and takes the bio out of the pending count of the namespace,
  or hands the sbio on and keeps it counted as pending. It never gives a bounce page back itself.\<close>

theorem make_request_ns_balanced:
  assumes "shannon_make_request_ns k c m b = Some (evs, m', h)"
  shows "accounts_balanced evs h \<and> count_list evs EvIncPending = 1 \<and>
    count_list evs EvDecPending = (if h = None then 1 else 0) \<and> pages_freed evs = []"
proof (cases "c_unavailable c \<or> shannon_should_trim_bio b \<or> get_bi_size (ib_bio b) = 0")
  case True
  then show ?thesis
    using assms by (auto simp: shannon_make_request_ns_def balance_simps split: if_splits prod.splits)
next
  case False
  then obtain s where s: "shannon_make_request_ns k c m b =
      (case shannon_convert_bio k m (with_dir b s) (ib_bio b) (c_logicb_size c) of None \<Rightarrow> None
       | Some (ret, sb, m', _) \<Rightarrow>
          if ret \<noteq> 0 then Some ([EvIncPending, EvAllocSbio] @ mrn_free_sbio ret, m', None)
          else Some (after_convert_ns c b sb, m', ns_holder c b sb))"
    using that make_request_ns_cases [OF False, of k m] assms by (cases "c_alloc_sbio c") simp_all
  then obtain ret sb m1 fr where conv:
      "shannon_convert_bio k m (with_dir b s) (ib_bio b) (c_logicb_size c) = Some (ret, sb, m1, fr)"
    using assms by (auto split: option.splits)
  show ?thesis
  proof (cases "ret = 0")
    case True
    with s assms conv have "evs = after_convert_ns c b sb" "h = ns_holder c b sb" by simp_all
    then show ?thesis using after_convert_ns_balanced convert_bio_sg [OF conv [unfolded True]] by blast
  next
    case nz: False
    with s assms conv show ?thesis by (auto simp: mrn_free_sbio_def balance_simps)
  qed
qed

theorem make_request_ns_balanced_witness:
  "accounts_balanced [EvIncPending, EvBioEndio 251, EvDecPending] None \<and>
   shannon_make_request_ns sample_kenv (sample_core\<lparr>c_unavailable := True\<rparr>) (\<lambda>_. 0) \<lparr>ib_bio = odd_bio, ib_opf = 1\<rparr> =
     Some ([EvIncPending, EvBioEndio 251, EvDecPending], \<lambda>_. 0, None)"
proof -
  have run: "shannon_make_request_ns sample_kenv (sample_core\<lparr>c_unavailable := True\<rparr>) (\<lambda>_. 0)
      \<lparr>ib_bio = odd_bio, ib_opf = 1\<rparr> = Some ([EvIncPending, EvBioEndio 251, EvDecPending], \<lambda>_. 0, None)"
    by (simp add: shannon_make_request_ns_def sample_core_def shannon_bio_endio_def EIO_def)
  then show ?thesis using make_request_ns_balanced [OF run] by simp
qed

section \<open>Discard ranges\<close>

lemma drop_bit_align_down: "drop_bit j (ALIGN_DOWN w (2 ^ j)) = drop_bit j w"
proof (rule bit_eqI)
  fix n :: nat
  have m: "(2 ^ j - 1 :: u64) = mask j" by (simp add: mask_eq_exp_minus_1)
  show "bit (drop_bit j (ALIGN_DOWN w (2 ^ j))) n = bit (drop_bit j w) n"
    unfolding ALIGN_DOWN_def m by (auto simp: bit_simps dest: bit_imp_le_length)
qed

lemma ALIGN_UP_down: "ALIGN_UP w n = ALIGN_DOWN (w + (n - 1)) n"
  by (simp add: ALIGN_UP_def ALIGN_DOWN_def)

lemma trim_range_unat:
  assumes j: "j < 55" and room: "unat s + n div 512 + 2 ^ j \<le> 2 ^ 64"
  shows "unat (fst (trim_range (512 * 2 ^ j) (9 + j) s n)) = (unat s + 2 ^ j - 1) div 2 ^ j"
    and "unat (snd (trim_range (512 * 2 ^ j) (9 + j) s n)) = (unat s + n div 512) div 2 ^ j"
proof -
  have L: "of_nat (512 * 2 ^ j div 512) = (2 ^ j :: u64)" by simp
  have j64: "(2 :: nat) ^ j < 2 ^ 64" using j by (intro power_strict_increasing) auto
  have "(2 ^ j - 1 :: u64) = of_nat (2 ^ j - 1)" by (simp add: of_nat_diff)
  then have p: "unat (2 ^ j - 1 :: u64) = 2 ^ j - 1"
    using j64 by (simp only: unat_of_nat) (simp add: mod_less)
  have "unat (s + (2 ^ j - 1)) = unat s + (2 ^ j - 1)"
    by (subst unat_plus_simple [THEN iffD1]) (use room p in \<open>auto simp: no_olen_add_nat\<close>)
  then have "unat (drop_bit j (s + (2 ^ j - 1))) = (unat s + 2 ^ j - 1) div 2 ^ j"
    by (simp add: unat_drop_bit_eq drop_bit_eq_div [where 'a = nat])
  then show "unat (fst (trim_range (512 * 2 ^ j) (9 + j) s n)) = (unat s + 2 ^ j - 1) div 2 ^ j"
    unfolding trim_range_def Let_def L fst_conv by (simp add: ALIGN_UP_down drop_bit_align_down)
  have "0 < (2 :: nat) ^ j" by simp
  then have room': "unat s + n div 512 < 2 ^ 64" using room by linarith
  then have n: "unat (of_nat (n div 512) :: u64) = n div 512"
    by (simp only: unat_of_nat) (simp add: mod_less)
  have "unat (s + of_nat (n div 512)) = unat s + n div 512"
    by (subst unat_plus_simple [THEN iffD1]) (use room' n in \<open>auto simp: no_olen_add_nat\<close>)
  then have "unat (drop_bit j (s + of_nat (n div 512))) = (unat s + n div 512) div 2 ^ j"
    by (simp add: unat_drop_bit_eq drop_bit_eq_div [where 'a = nat])
  then show "unat (snd (trim_range (512 * 2 ^ j) (9 + j) s n)) = (unat s + n div 512) div 2 ^ j"
    unfolding trim_range_def Let_def L snd_conv by (simp add: drop_bit_align_down)
qed

text \<open>C9 (functional). For logical blocks of \<open>512 * 2 ^ j\<close> bytes and a discard that ends below the last
  sector number, the range handed to \<open>shannon_discard\<close> holds exactly the logical blocks that lie
  entirely inside the discarded sectors: nothing outside the request is ever discarded.\<close>

theorem discard_covers_whole_blocks:
  assumes "j < 55" "unat s + n div 512 + 2 ^ j \<le> 2 ^ 64"
    and "trim_range (512 * 2 ^ j) (9 + j) s n = (trim_start, trim_end)"
  shows "(unat trim_start \<le> blk \<and> blk < unat trim_end) \<longleftrightarrow>
    (unat s \<le> blk * 2 ^ j \<and> (blk + 1) * 2 ^ j \<le> unat s + n div 512)"
proof -
  have start: "(unat s + 2 ^ j - 1) div 2 ^ j \<le> blk \<longleftrightarrow> unat s \<le> blk * 2 ^ j"
  proof -
    have "(unat s + 2 ^ j - 1) div 2 ^ j \<le> blk \<longleftrightarrow> unat s + 2 ^ j - 1 < Suc blk * 2 ^ j"
      by (simp add: less_Suc_eq_le [symmetric] div_less_iff_less_mult del: mult_Suc)
    also have "\<dots> \<longleftrightarrow> unat s \<le> blk * 2 ^ j"
    proof -
      have "0 < (2 :: nat) ^ j" by simp
      then show ?thesis by (simp only: mult_Suc) linarith
    qed
    finally show ?thesis .
  qed
  have stop: "blk < (unat s + n div 512) div 2 ^ j \<longleftrightarrow> (blk + 1) * 2 ^ j \<le> unat s + n div 512"
    by (simp add: Suc_le_eq [symmetric] less_eq_div_iff_mult_less_eq)
  show ?thesis
    using trim_range_unat [OF assms(1,2)] assms(3) start stop by simp
qed

theorem discard_covers_whole_blocks_witness:
  "trim_range 4096 12 9 (512 * 30) = (2, 4) \<and>
   (unat (2 :: u64) \<le> 3 \<and> 3 < unat (4 :: u64)) = (unat (9 :: u64) \<le> 3 * 2 ^ 3 \<and> (3 + 1) * 2 ^ 3 \<le> unat (9 :: u64) + 30)"
proof -
  have run: "trim_range 4096 12 9 (512 * 30) = (2, 4)"
    by (simp add: trim_range_def ALIGN_UP_def ALIGN_DOWN_def)
  then show ?thesis using discard_covers_whole_blocks [of 3 9 "512 * 30" 2 4 3] by simp
qed

end
