(* ===== verification/IO_Machine.thy ===== *)
theory IO_Machine
  imports IO_Lifecycle
begin

text \<open>
  The life of one bio as a transition system: it arrives (\<open>shannon_make_request\<close>), waits on the per-CPU work
  queue (\<open>submit_sbio_task\<close>), is with the core and the device, and is completed (\<open>shannon_complete_fs_io\<close>).
  While it is with the core the device may change memory at any time. The answers of the core may
  differ from step to step; the geometry of the device stays.
\<close>

section \<open>States and steps\<close>

datatype io_phase = Arrived | Queued shannon_bio | InCore shannon_bio | Finished

record io_state =
  io_phase :: io_phase
  io_trace :: "io_event list"
  io_mem :: memory

definition phase_after :: "io_event list \<Rightarrow> shannon_bio option \<Rightarrow> io_phase" where
  "phase_after evs h = (case h of None \<Rightarrow> Finished
     | Some sb \<Rightarrow> if EvQueueWork \<in> set evs then Queued sb else InCore sb)"

text \<open>The core hands out sbios without the bounce flag.\<close>

definition zeroed_sbio :: "core \<Rightarrow> bool" where
  "zeroed_sbio c \<longleftrightarrow> (case c_alloc_sbio c of None \<Rightarrow> True | Some sb \<Rightarrow> \<not> sb_need_bounce sb)"

inductive io_step :: "kenv \<Rightarrow> nat \<Rightarrow> io_bio \<Rightarrow> io_state \<Rightarrow> io_state \<Rightarrow> bool" for k L b where
  make_request: "io_phase s = Arrived \<Longrightarrow> c_logicb_size c = L \<Longrightarrow> zeroed_sbio c \<Longrightarrow>
     shannon_make_request k c (io_mem s) (Some b) = Some (evs, m', h) \<Longrightarrow>
     io_step k L b s \<lparr>io_phase = phase_after evs h, io_trace = io_trace s @ evs, io_mem = m'\<rparr>"
| work: "io_phase s = Queued sb \<Longrightarrow> submit_sbio_task c sb = (evs, h) \<Longrightarrow>
     io_step k L b s (s\<lparr>io_phase := phase_after evs h, io_trace := io_trace s @ evs\<rparr>)"
| dma: "io_phase s = InCore sb \<Longrightarrow> io_step k L b s (s\<lparr>io_mem := m'\<rparr>)"
| finish: "io_phase s = InCore sb \<Longrightarrow>
     shannon_complete_fs_io (io_mem s) (FromBio b) status sb = Some (evs, m') \<Longrightarrow>
     io_step k L b s \<lparr>io_phase = Finished, io_trace = io_trace s @ evs, io_mem = m'\<rparr>"

inductive_cases io_stepE: "io_step k L b s s'"

definition io_start :: "memory \<Rightarrow> io_state" where
  "io_start m = \<lparr>io_phase = Arrived, io_trace = [], io_mem = m\<rparr>"

definition io_reachable :: "kenv \<Rightarrow> nat \<Rightarrow> io_bio \<Rightarrow> memory \<Rightarrow> io_state \<Rightarrow> bool" where
  "io_reachable k L b m s = (io_step k L b)\<^sup>*\<^sup>* (io_start m) s"

section \<open>The invariant\<close>

text \<open>What holds of the trace in each phase; an sbio on its way comes from a conversion of this bio.\<close>

definition converted :: "kenv \<Rightarrow> nat \<Rightarrow> io_bio \<Rightarrow> shannon_bio \<Rightarrow> bool" where
  "converted k L b sb \<longleftrightarrow> (\<exists>s m m' fr. \<not> sb_need_bounce s \<and> shannon_convert_bio k m s (ib_bio b) L = Some (0, sb, m', fr))"

definition io_inv :: "kenv \<Rightarrow> nat \<Rightarrow> io_bio \<Rightarrow> io_state \<Rightarrow> bool" where
  "io_inv k L b s \<longleftrightarrow> (let tr = io_trace s in
    case io_phase s of
      Arrived \<Rightarrow> tr = []
    | Finished \<Rightarrow> completions tr = 1 \<and> count_list tr EvStartAcct = count_list tr EvEndAcct \<and>
        pages_freed tr \<in> {[], pages_taken tr}
    | Queued sb \<Rightarrow> converted k L b sb \<and> completions tr = 0 \<and> count_list tr EvStartAcct = 1 \<and>
        count_list tr EvEndAcct = 0 \<and> pages_freed tr = [] \<and>
        pages_taken tr = (if sb_need_bounce sb then bounce_pages_of sb else [])
    | InCore sb \<Rightarrow> converted k L b sb \<and> completions tr = 0 \<and> count_list tr EvStartAcct = 1 \<and>
        count_list tr EvEndAcct = 0 \<and> pages_freed tr = [] \<and>
        pages_taken tr = (if sb_need_bounce sb then bounce_pages_of sb else []))"

text \<open>A run that hands the sbio on.\<close>

lemma make_request_held:
  assumes "shannon_make_request k c m (Some b) = Some (evs, m', Some sb)" "zeroed_sbio c"
  shows "converted k (c_logicb_size c) b sb \<and> completions evs = 0 \<and> count_list evs EvStartAcct = 1 \<and>
    count_list evs EvEndAcct = 0 \<and> pages_freed evs = [] \<and>
    pages_taken evs = (if sb_need_bounce sb then bounce_pages_of sb else [])"
proof -
  have "\<not> answered_early c b"
  proof
    assume "answered_early c b"
    then show False
      using assms by (auto simp: shannon_make_request_def answered_early_def Let_def split: if_splits prod.splits)
  qed
  then obtain s pre where s0: "c_alloc_sbio c = Some s" and s: "set pre \<subseteq> {EvCpumask}" "shannon_make_request k c m (Some b) =
      (case shannon_convert_bio k m (with_dir b s) (ib_bio b) (c_logicb_size c) of None \<Rightarrow> None
       | Some (ret, sb, m', _) \<Rightarrow>
          if ret \<noteq> 0 then Some (pre @ EvAllocSbio # mr_free_sbio ret, m', None)
          else after_convert c (pre @ EvAllocSbio # conversion_events sb) sb m')"
    using make_request_cases by blast
  then obtain sb' m1 fr where conv: "shannon_convert_bio k m (with_dir b s) (ib_bio b) (c_logicb_size c) =
        Some (0, sb', m1, fr)"
      and run: "after_convert c (pre @ EvAllocSbio # conversion_events sb') sb' m1 = Some (evs, m', Some sb)"
    using assms by (auto split: option.splits if_splits)
  have "\<not> sb_need_bounce (with_dir b s)" using assms(2) s0 by (simp add: zeroed_sbio_def with_dir_def)
  moreover from run have "sb' = sb" by (auto simp: after_convert_def split: if_splits)
  ultimately show ?thesis
    using conv run cpumask_trace [OF s(1)] conversion_trace [of sb]
    by (auto simp: after_convert_def converted_def count_list_append split: if_splits)
qed

lemma make_request_ended:
  assumes "shannon_make_request k c m (Some b) = Some (evs, m', None)"
  shows "completions evs = 1 \<and> count_list evs EvStartAcct = count_list evs EvEndAcct \<and>
    pages_freed evs = pages_taken evs"
  using make_request_accounts [OF assms] by (simp add: accounts_balanced_def)

lemma submit_task_trace:
  assumes "submit_sbio_task c sb = (evs, h)"
  shows "h = None \<and> completions evs = 1 \<and> count_list evs EvStartAcct = 0 \<and> count_list evs EvEndAcct = 1 \<and>
      pages_freed evs = [] \<or>
    h = Some sb \<and> evs = [EvSubmitted]"
  using assms by (auto simp: submit_sbio_task_def shannon_bio_endio_def Let_def split: if_splits)

lemma complete_trace:
  assumes "shannon_complete_fs_io m (FromBio b) status sb = Some (evs, m')"
  shows "completions evs = 1 \<and> count_list evs EvStartAcct = 0 \<and> count_list evs EvEndAcct = 1 \<and>
    pages_taken evs = [] \<and> pages_freed evs = (if sb_need_bounce sb then bounce_pages_of sb else [])"
  using assms
  by (auto simp: shannon_complete_fs_io_def Let_def shannon_bio_endio_def
      split: if_splits option.splits dest: free_bounce_pages_all)

lemma io_step_inv: "io_step k L b s s' \<Longrightarrow> io_inv k L b s \<Longrightarrow> io_inv k L b s'"
proof (induction rule: io_step.induct)
  case (make_request s c evs m' h)
  then show ?case
    using make_request_held [of k c "io_mem s" b evs m'] make_request_ended [of k c "io_mem s" b evs m']
    by (cases h) (auto simp: io_inv_def Let_def phase_after_def)
next
  case (work s sb c evs h)
  then show ?case
    using submit_task_trace [OF work(2)] by (auto simp: io_inv_def Let_def phase_after_def count_list_append)
next
  case (finish s sb status evs m')
  then show ?case
    using complete_trace [OF finish(2)] by (auto simp: io_inv_def Let_def count_list_append)
qed (auto simp: io_inv_def Let_def)

lemma io_reachable_inv: "io_reachable k L b m s \<Longrightarrow> io_inv k L b s"
  unfolding io_reachable_def
proof (induction rule: rtranclp_induct)
  case base
  show ?case by (simp add: io_inv_def io_start_def)
qed (rule io_step_inv)

section \<open>Properties of the life of a bio\<close>

lemma finished_is_final: "io_phase s = Finished \<Longrightarrow> \<not> io_step k L b s s'"
  by (auto elim: io_stepE)

text \<open>C2 (invariant). Along every run, whatever the core answers and whatever the device writes: the
  bio has been completed exactly once if the run is finished and not at all before, I/O
  accounting that was started is ended exactly once, no bounce page is given back before the end or
  twice, and a finished run takes no further step.\<close>

theorem bio_completed_once:
  assumes "io_reachable k L b m s"
  shows "completions (io_trace s) = (if io_phase s = Finished then 1 else 0) \<and>
    count_list (io_trace s) EvStartAcct = count_list (io_trace s) EvEndAcct +
      (if io_phase s \<in> {Arrived, Finished} then 0 else 1) \<and>
    (io_phase s \<noteq> Finished \<longrightarrow> pages_freed (io_trace s) = []) \<and>
    pages_freed (io_trace s) \<in> {[], pages_taken (io_trace s)} \<and>
    (io_phase s = Finished \<longrightarrow> (\<forall>s'. \<not> io_step k L b s s'))"
  using io_reachable_inv [OF assms] finished_is_final [of s k L b]
  by (auto simp: io_inv_def Let_def split: io_phase.splits)

text \<open>A well-formed bio without empty segments, for blocks of at most a page; and, for what becomes of
  its data, that its bytes are different bytes of memory and the bounce pages that are handed out are
  none of them.\<close>

definition bio_ready :: "nat \<Rightarrow> bio \<Rightarrow> bool" where
  "bio_ready n b \<longleftrightarrow> n \<le> 12 \<and> wf_bio b (2 ^ n) \<and> (\<forall>ib \<in> set (bi_iter_segs b). 0 < bv_len (snd ib))"

definition bounce_ready :: "kenv \<Rightarrow> nat \<Rightarrow> bio \<Rightarrow> bool" where
  "bounce_ready k n b \<longleftrightarrow> bio_ready n b \<and> distinct (bio_bytes b) \<and>
     fresh_pages (k_alloc_page k) (bounce_count (first_size_of (bi_sector b) (bi_size b) (2 ^ n)) (bi_size b))
       (bio_bytes b)"

text \<open>Without memory for the table the conversion fails with \<open>-ENOMEM\<close>; so one that succeeded had it.\<close>

lemma convert_no_memory:
  assumes "bio_ready n b" "\<not> sg_memory_available k (bio_sg_count b (2 ^ n))"
  shows "\<exists>sb. shannon_convert_bio k m s b (2 ^ n) = Some (- ENOMEM, sb, m, [])"
proof -
  have "bi_io_vec b" using assms(1) by (simp add: bio_ready_def wf_bio_def)
  moreover have "\<exists>sb. convert_bio_body k m s b (2 ^ n) = Some (- ENOMEM, sb, m, [])"
    using assms(2)
    by (auto simp: convert_bio_body_def Let_def bio_sg_count_def get_bi_size_def shannon_bio_segments_def
        sg_memory_available_def shannon_sg_alloc_def shannon_sg_vzalloc_def split: option.splits)
  ultimately show ?thesis by (simp add: shannon_convert_bio_def)
qed

lemma converted_memory:
  assumes "bio_ready n b" "shannon_convert_bio k m s b (2 ^ n) = Some (0, sb, m', fr)"
  shows "sg_memory_available k (bio_sg_count b (2 ^ n))"
  using convert_no_memory [OF assms(1), of k m s] assms(2) by (auto simp: ENOMEM_def)

lemma free_bounce_defined:
  "bounce_table t fs tot pages \<Longrightarrow>
     shannon_free_bounce_pages t (bounce_count fs tot) = Some (map pages [0 ..< bounce_count fs tot])"
proof -
  assume b: "bounce_table t fs tot pages"
  let ?cnt = "bounce_count fs tot"
  have "for_each_sg t (Some 0) ?cnt = Some (take ?cnt t)"
    using for_each_sg_prefix [of 0 ?cnt t] b by (auto simp: bounce_table_def Let_def)
  moreover have "map sge_page (take ?cnt t) = map pages [0 ..< ?cnt]"
    using b by (auto simp: bounce_table_def Let_def chunk_of_def comp_def)
  ultimately show ?thesis by (simp add: shannon_free_bounce_pages_def)
qed

text \<open>A converted sbio that bounces.\<close>

lemma converted_bounced:
  assumes r: "bio_ready n (ib_bio b)" and conv: "shannon_convert_bio k m s (ib_bio b) (2 ^ n) = Some (0, sb, m', fr)"
    and nb: "sb_need_bounce sb" "needs_bounce (ib_bio b)"
    and fs: "fs = first_size_of (bi_sector (ib_bio b)) (bi_size (ib_bio b)) (2 ^ n)"
    and cnt: "cnt = bounce_count fs (bi_size (ib_bio b))"
  shows "\<exists>t. sb_sg sb = Some t \<and> sb_used_sg_count sb = cnt \<and> (\<forall>j < cnt. k_alloc_page k j \<noteq> None) \<and>
    bounce_table t fs (bi_size (ib_bio b)) (the \<circ> k_alloc_page k) \<and> (sb_dma_dir s = SHANNON_DMA_FROMDEVICE \<longrightarrow> m' = m)"
proof -
  have n: "n \<le> 12" and wf: "wf_bio (ib_bio b) (2 ^ n)"
    and seg: "\<forall>ib \<in> set (bi_iter_segs (ib_bio b)). 0 < bv_len (snd ib)"
    using r by (auto simp: bio_ready_def)
  note cases = convert_bio_bounce_cases [OF refl n wf nb(2) seg converted_memory [OF r conv] fs cnt, of m s]
  show ?thesis
  proof (cases "\<forall>j < cnt. k_alloc_page k j \<noteq> None")
    case True
    with cases conv show ?thesis by auto
  next
    case False
    with cases conv nb(1) show ?thesis by (auto simp del: not_None_eq)
  qed
qed

text \<open>Copying out of a bounce table is defined for every memory; over fresh pages it moves the table's
  bytes.\<close>

lemma copy_from_bounce:
  assumes r: "bio_ready n b" and t: "bounce_table t fs (bi_size b) (the \<circ> k_alloc_page k)"
    and fs: "fs = first_size_of (bi_sector b) (bi_size b) (2 ^ n)" and cnt: "cnt = bounce_count fs (bi_size b)"
    and all: "\<forall>j < cnt. k_alloc_page k j \<noteq> None"
  shows "\<exists>m'. shannon_copy_bounce_pages m b t False = Some m' \<and> (bounce_ready k n b \<longrightarrow>
    map m' (bio_bytes b) = map m (table_bytes t cnt) \<and> (\<forall>x. x \<notin> set (bio_bytes b) \<longrightarrow> m' x = m x))"
proof -
  have wf: "bi_size b = total_len (bi_iter_segs b)" "0 < bi_size b" and n: "n \<le> 12"
    and seg: "\<forall>ib \<in> set (bi_iter_segs b). 0 < bv_len (snd ib)"
    using r by (auto simp: bio_ready_def wf_bio_def)
  have "fs \<le> bi_size b" using first_size_small [OF refl n] fs by simp
  then have pos: "0 < cnt" using bounce_count_pos [OF wf(2)] cnt by simp
  have ok: "table_ok t cnt" using bounce_table_ok [OF t] cnt by simp
  have "sum_list (map (fst \<circ> snd) (map chunk_of (take cnt t))) = bi_size b"
    using t by (simp only: bounce_table_def Let_def cnt [symmetric])
  then have len: "total_len (bi_iter_segs b) = sum_list (map sge_length (take cnt t))"
    unfolding sum_take_lengths wf(1) by (rule sym)
  obtain m' where m': "shannon_copy_bounce_pages m b t False = Some m'"
    using copy_bounce_runs [OF ok pos seg len] by blast
  have "map m' (bio_bytes b) = map m (table_bytes t cnt) \<and> (\<forall>x. x \<notin> set (bio_bytes b) \<longrightarrow> m' x = m x)"
    if "bounce_ready k n b"
  proof -
    have "fresh_pages (k_alloc_page k) (bounce_count fs (bi_size b)) (bio_bytes b)" "distinct (bio_bytes b)"
      using that by (simp_all add: bounce_ready_def fs)
    then show ?thesis
      using bounce_bytes_distinct [OF t] all copy_bounce_both [OF ok pos seg len, of False m] m'
      by (auto simp: Let_def cnt)
  qed
  with m' show ?thesis by blast
qed

text \<open>An sbio bounces only because the bio needs it, if the flag was clear before.\<close>

lemma old_fashion_no_bounce: "convert_old_fashion sb b L t = Some sb' \<Longrightarrow> \<not> sb_need_bounce sb'"
  by (auto simp: convert_old_fashion_def Let_def split: option.splits)

lemma converted_need_bounce:
  assumes "shannon_convert_bio k m s b L = Some (0, sb, m', fr)" "\<not> sb_need_bounce s" "sb_need_bounce sb"
  shows "needs_bounce b"
proof (rule ccontr)
  assume nb: "\<not> needs_bounce b"
  have "convert_bio_body k m s b L = Some (0, sb, m', fr)"
    using assms(1) by (simp add: shannon_convert_bio_def EINVAL_def split: if_splits)
  with nb assms(2) obtain sb1 t where "convert_old_fashion sb1 b L t = Some sb"
    by (simp add: convert_bio_body_def Let_def ENOMEM_def cong: if_cong option.case_cong split: option.splits)
       (auto simp: ENOMEM_def split: if_splits option.splits)
  then show False using old_fashion_no_bounce assms(3) by blast
qed

section \<open>The data of a bounced read\<close>

lemma complete_bounced:
  assumes r: "bio_ready n (ib_bio b)" and s: "\<not> sb_need_bounce s" "sb_need_bounce sb"
    and conv: "shannon_convert_bio k m s (ib_bio b) (2 ^ n) = Some (0, sb, m', fr)"
    and fs: "fs = first_size_of (bi_sector (ib_bio b)) (bi_size (ib_bio b)) (2 ^ n)"
    and cnt: "cnt = bounce_count fs (bi_size (ib_bio b))"
  shows "\<exists>t m2. sb_sg sb = Some t \<and> shannon_complete_fs_io m1 (FromBio b) status sb =
      Some ([EvFreePages (map (the \<circ> k_alloc_page k) [0 ..< cnt]), EvEndAcct,
             shannon_bio_endio (if status = 0 then 0 else - EIO)], m2) \<and>
    (if sb_dma_dir sb = SHANNON_DMA_FROMDEVICE
     then bounce_ready k n (ib_bio b) \<longrightarrow> map m2 (bio_bytes (ib_bio b)) = map m1 (table_bytes t cnt) \<and>
       (\<forall>x. x \<notin> set (bio_bytes (ib_bio b)) \<longrightarrow> m2 x = m1 x)
     else m2 = m1)"
proof -
  note nb = converted_need_bounce [OF conv s]
  obtain t where t: "sb_sg sb = Some t" "sb_used_sg_count sb = cnt"
      "\<forall>j < cnt. k_alloc_page k j \<noteq> None" "bounce_table t fs (bi_size (ib_bio b)) (the \<circ> k_alloc_page k)"
    using converted_bounced [OF r conv s(2) nb fs cnt] by blast
  obtain m2 where m2: "shannon_copy_bounce_pages m1 (ib_bio b) t False = Some m2"
      "bounce_ready k n (ib_bio b) \<longrightarrow> map m2 (bio_bytes (ib_bio b)) = map m1 (table_bytes t cnt) \<and>
         (\<forall>x. x \<notin> set (bio_bytes (ib_bio b)) \<longrightarrow> m2 x = m1 x)"
    using copy_from_bounce [OF r t(4) fs cnt t(3), of m1] by blast
  note fr = free_bounce_defined [OF t(4), folded cnt]
  show ?thesis
    using t m2 fr s(2)
    by (cases "sb_dma_dir sb = SHANNON_DMA_FROMDEVICE")
       (simp_all add: shannon_complete_fs_io_def Let_def del: map_map map_eq_conv)
qed

text \<open>C5 (roundtrip). A read that goes through bounce pages: whatever the device wrote, completion
  leaves the bytes of the bounce pages, in table order, in the bytes of the bio, changes no other
  memory, gives back exactly the bounce pages that were allocated and completes the bio with the
  status of the device.\<close>

theorem bounced_read_delivers:
  assumes "bounce_ready k n (ib_bio b)" "\<not> sb_need_bounce s" "sb_dma_dir s = SHANNON_DMA_FROMDEVICE"
    and "shannon_convert_bio k m s (ib_bio b) (2 ^ n) = Some (0, sb, m', fr)" "sb_need_bounce sb"
    and "cnt = bounce_count (first_size_of (bi_sector (ib_bio b)) (bi_size (ib_bio b)) (2 ^ n)) (bi_size (ib_bio b))"
  shows "\<exists>t m2. sb_sg sb = Some t \<and> shannon_complete_fs_io m1 (FromBio b) status sb =
      Some ([EvFreePages (map (the \<circ> k_alloc_page k) [0 ..< cnt]), EvEndAcct,
             shannon_bio_endio (if status = 0 then 0 else - EIO)], m2) \<and>
    map m2 (bio_bytes (ib_bio b)) = map m1 (table_bytes t cnt) \<and>
    (\<forall>x. x \<notin> set (bio_bytes (ib_bio b)) \<longrightarrow> m2 x = m1 x)"
proof -
  have "sb_dma_dir sb = SHANNON_DMA_FROMDEVICE" using convert_bio_sg [OF assms(4)] assms(3) by simp
  then show ?thesis
    using complete_bounced [OF _ assms(2,5,4) refl assms(6), of m1 status] assms(1) by (simp add: bounce_ready_def)
qed

lemma odd_bio_ready: "bio_ready 12 odd_bio" "bounce_ready sample_kenv 12 odd_bio"
proof -
  show r: "bio_ready 12 odd_bio" using odd_bio_hyps by (simp add: bio_ready_def)
  have "fresh_pages (k_alloc_page sample_kenv) 1 (bio_bytes odd_bio)"
    by (simp add: odd_bio_bytes fresh_pages_def sample_kenv_def)
  then show "bounce_ready sample_kenv 12 odd_bio"
    unfolding bounce_ready_def odd_bio_count using r by (simp add: odd_bio_bytes)
qed

text \<open>The conversion of the sample bio, for either direction.\<close>

lemma odd_bio_bounced:
  assumes "\<not> sb_need_bounce s"
  shows "\<exists>sb m' fr. shannon_convert_bio sample_kenv m s odd_bio (2 ^ 12) = Some (0, sb, m', fr) \<and> sb_need_bounce sb"
proof -
  have n: "(12 :: nat) \<le> 12" by simp
  show ?thesis
    using convert_bio_bounce_cases [OF refl n odd_bio_hyps(1-4) refl refl, of m s]
    by (auto simp: sample_kenv_def)
qed

definition read_sbio :: shannon_bio where
  "read_sbio = sample_sbio\<lparr>sb_dma_dir := SHANNON_DMA_FROMDEVICE, sb_need_bounce := False\<rparr>"

theorem bounced_read_delivers_witness:
  "\<exists>sb m' fr t m2. shannon_convert_bio sample_kenv (\<lambda>_. 0) read_sbio odd_bio (2 ^ 12) = Some (0, sb, m', fr) \<and>
     sb_sg sb = Some t \<and>
     shannon_complete_fs_io of_nat (FromBio \<lparr>ib_bio = odd_bio, ib_opf = 0\<rparr>) 0 sb =
       Some ([EvFreePages [100], EvEndAcct, EvBioEndio 0], m2) \<and>
     map m2 [28673, 28674] = map of_nat (table_bytes t 1)"
proof -
  let ?b = "\<lparr>ib_bio = odd_bio, ib_opf = 0\<rparr>"
  have s: "\<not> sb_need_bounce read_sbio" "sb_dma_dir read_sbio = SHANNON_DMA_FROMDEVICE"
    by (simp_all add: read_sbio_def)
  obtain sb m' fr where c: "shannon_convert_bio sample_kenv (\<lambda>_. 0) read_sbio odd_bio (2 ^ 12) = Some (0, sb, m', fr)"
      "sb_need_bounce sb"
    using odd_bio_bounced [OF s(1)] by blast
  have r: "bounce_ready sample_kenv 12 (ib_bio ?b)" using odd_bio_ready(2) by simp
  have c': "shannon_convert_bio sample_kenv (\<lambda>_. 0) read_sbio (ib_bio ?b) (2 ^ 12) = Some (0, sb, m', fr)"
    using c(1) by simp
  have page: "map (the \<circ> k_alloc_page sample_kenv) [0 ..< 1] = [100]" by (simp add: sample_kenv_def)
  have one: "1 = bounce_count (first_size_of (bi_sector (ib_bio ?b)) (bi_size (ib_bio ?b)) (2 ^ 12)) (bi_size (ib_bio ?b))"
    using odd_bio_count by simp
  obtain t m2 where "sb_sg sb = Some t" "shannon_complete_fs_io of_nat (FromBio ?b) 0 sb =
       Some ([EvFreePages [100], EvEndAcct, EvBioEndio 0], m2)"
      "map m2 [28673, 28674] = map of_nat (table_bytes t 1)"
    using bounced_read_delivers [OF r s c' c(2) one, of of_nat 0]
    unfolding page by (auto simp: odd_bio_bytes shannon_bio_endio_def)
  then show ?thesis using c(1) by blast
qed

section \<open>No path crashes\<close>

lemma convert_total:
  assumes r: "bio_ready n b" and s: "\<not> sb_need_bounce s"
  shows "\<exists>ret sb m' fr. shannon_convert_bio k m s b (2 ^ n) = Some (ret, sb, m', fr)"
proof (cases "sg_memory_available k (bio_sg_count b (2 ^ n))")
  case mem: True
  have n: "n \<le> 12" and wf: "wf_bio b (2 ^ n)" and seg: "\<forall>ib \<in> set (bi_iter_segs b). 0 < bv_len (snd ib)"
    using r by (auto simp: bio_ready_def)
  show ?thesis
  proof (cases "needs_bounce b")
    case True
    show ?thesis
      using convert_bio_bounce_cases [OF refl n wf True seg mem refl refl, of m s] by (auto split: if_splits)
  next
    case False
    have "bi_io_vec b" using wf by (simp add: wf_bio_def)
    moreover obtain sb' where "convert_bio_body k m s b (2 ^ n) = Some (0, sb', m, [])"
      using convert_bio_direct [OF refl _ wf False s mem, of m] n by auto
    ultimately show ?thesis by (simp add: shannon_convert_bio_def)
  qed
next
  case False
  then show ?thesis using convert_no_memory [OF r, of k m s] by blast
qed

lemma free_sg_list_total:
  assumes r: "bio_ready n (ib_bio b)" and s: "\<not> sb_need_bounce s"
    and conv: "shannon_convert_bio k m s (ib_bio b) (2 ^ n) = Some (0, sb, m', fr)"
  shows "mr_free_sg_list sb ret \<noteq> None"
proof (cases "sb_need_bounce sb")
  case True
  note nb = converted_need_bounce [OF conv s True]
  show ?thesis
    using converted_bounced [OF r conv True nb refl refl] free_bounce_defined
    by (auto simp: mr_free_sg_list_def Let_def True)
qed (simp add: mr_free_sg_list_def)

lemma complete_total:
  assumes r: "bio_ready n (ib_bio b)" and c: "converted k (2 ^ n) b sb"
  shows "shannon_complete_fs_io m (FromBio b) status sb \<noteq> None"
proof (cases "sb_need_bounce sb")
  case True
  with c r complete_bounced [OF r _ True _ refl refl] show ?thesis
    by (fastforce simp: converted_def)
qed (simp add: shannon_complete_fs_io_def)

text \<open>C7 (liveness). For a well-formed bio without empty segments and logical blocks of at most a page,
  with memory for the table and for the bounce pages or without: no path dereferences NULL or runs off
  the table. The request function returns whatever the core and the allocators answer, and a bio that
  is with the core can always be completed, which ends its life.\<close>

theorem bio_path_never_stuck:
  assumes "bio_ready n (ib_bio b)" "io_reachable k (2 ^ n) b m s"
  shows "(\<forall>c m1. c_logicb_size c = 2 ^ n \<and> zeroed_sbio c \<longrightarrow> shannon_make_request k c m1 (Some b) \<noteq> None) \<and>
    (\<forall>sb status. io_phase s = InCore sb \<longrightarrow>
       (\<exists>evs m'. shannon_complete_fs_io (io_mem s) (FromBio b) status sb = Some (evs, m') \<and>
          io_step k (2 ^ n) b s \<lparr>io_phase = Finished, io_trace = io_trace s @ evs, io_mem = m'\<rparr>))"
proof (intro conjI allI impI)
  fix c m1 assume c: "c_logicb_size c = 2 ^ n \<and> zeroed_sbio c"
  show "shannon_make_request k c m1 (Some b) \<noteq> None"
  proof (cases "answered_early c b")
    case True
    then show ?thesis by (auto simp: shannon_make_request_def answered_early_def Let_def split: prod.splits)
  next
    case False
    obtain s pre where s: "c_alloc_sbio c = Some s" "shannon_make_request k c m1 (Some b) =
      (case shannon_convert_bio k m1 (with_dir b s) (ib_bio b) (c_logicb_size c) of None \<Rightarrow> None
       | Some (ret, sb, m', _) \<Rightarrow>
          if ret \<noteq> 0 then Some (pre @ EvAllocSbio # mr_free_sbio ret, m', None)
          else after_convert c (pre @ EvAllocSbio # conversion_events sb) sb m')"
      using make_request_cases [OF False, of k m1] by blast
    have nb: "\<not> sb_need_bounce (with_dir b s)" using c s(1) by (simp add: zeroed_sbio_def with_dir_def)
    obtain ret sb m' fr where conv: "shannon_convert_bio k m1 (with_dir b s) (ib_bio b) (2 ^ n) = Some (ret, sb, m', fr)"
      using convert_total [OF assms(1) nb] by blast
    show ?thesis
    proof (cases "ret = 0")
      case True
      then show ?thesis
        using s(2) c conv free_sg_list_total [OF assms(1) nb conv [unfolded True]]
        by (auto simp: after_convert_def mr_end_io_acct_def)
    qed (use s(2) c conv in simp)
  qed
next
  fix sb status assume sb: "io_phase s = InCore sb"
  have "converted k (2 ^ n) b sb" using io_reachable_inv [OF assms(2)] sb by (simp add: io_inv_def Let_def)
  then obtain evs m' where run: "shannon_complete_fs_io (io_mem s) (FromBio b) status sb = Some (evs, m')"
    using complete_total [OF assms(1)] by fastforce
  then show "\<exists>evs m'. shannon_complete_fs_io (io_mem s) (FromBio b) status sb = Some (evs, m') \<and>
      io_step k (2 ^ n) b s \<lparr>io_phase = Finished, io_trace = io_trace s @ evs, io_mem = m'\<rparr>"
    using io_step.finish [OF sb run] by blast
qed

text \<open>A machine without any memory, and one without bounce pages.\<close>

definition starved_kenv :: kenv where
  "starved_kenv = oom_kenv\<lparr>k_kzalloc := \<lambda>_ _. False, k_vzalloc := \<lambda>_. False\<rparr>"

theorem bio_path_never_stuck_witness:
  "shannon_make_request sample_kenv sample_core (\<lambda>_. 0) (Some \<lparr>ib_bio = odd_bio, ib_opf = 1\<rparr>) \<noteq> None \<and>
   shannon_make_request oom_kenv sample_core (\<lambda>_. 0) (Some \<lparr>ib_bio = odd_bio, ib_opf = 1\<rparr>) \<noteq> None \<and>
   shannon_make_request starved_kenv sample_core (\<lambda>_. 0) (Some \<lparr>ib_bio = odd_bio, ib_opf = 1\<rparr>) \<noteq> None"
proof -
  have r: "bio_ready 12 (ib_bio \<lparr>ib_bio = odd_bio, ib_opf = 1\<rparr>)" using odd_bio_ready(1) by simp
  have start: "io_reachable k (2 ^ 12) b m (io_start m)" for k b m by (simp add: io_reachable_def)
  have c: "c_logicb_size sample_core = 2 ^ 12 \<and> zeroed_sbio sample_core"
    by (simp add: sample_core_def zeroed_sbio_def sample_sbio_def)
  show ?thesis
    using bio_path_never_stuck [OF r start, of sample_kenv] bio_path_never_stuck [OF r start, of oom_kenv]
      bio_path_never_stuck [OF r start, of starved_kenv] c by blast
qed

section \<open>Bounce pages of a failed deferred submission\<close>

lemma odd_bio_held:
  "\<exists>evs m' sb. shannon_make_request sample_kenv sample_core (\<lambda>_. 0) (Some \<lparr>ib_bio = odd_bio, ib_opf = 1\<rparr>) =
     Some (evs, m', Some sb) \<and> EvQueueWork \<in> set evs \<and> pages_taken evs = [100]"
proof -
  let ?b = "\<lparr>ib_bio = odd_bio, ib_opf = 1\<rparr>"
  have wr: "shannon_bio_data_dir ?b" by (simp add: shannon_bio_data_dir_def bio_op_def)
  have "\<not> answered_early sample_core ?b"
    by (simp add: answered_early_def sample_core_def shannon_should_trim_bio_def bio_op_def REQ_OP_DISCARD_def
        get_bi_size_def odd_bio_def)
  then obtain s pre where s: "c_alloc_sbio sample_core = Some s" "set pre \<subseteq> {EvCpumask}"
      "shannon_make_request sample_kenv sample_core (\<lambda>_. 0) (Some ?b) =
      (case shannon_convert_bio sample_kenv (\<lambda>_. 0) (with_dir ?b s) (ib_bio ?b) (c_logicb_size sample_core) of None \<Rightarrow> None
       | Some (ret, sb, m', _) \<Rightarrow>
          if ret \<noteq> 0 then Some (pre @ EvAllocSbio # mr_free_sbio ret, m', None)
          else after_convert sample_core (pre @ EvAllocSbio # conversion_events sb) sb m')"
    using make_request_cases by blast
  have nb: "\<not> sb_need_bounce (with_dir ?b s)"
    using s(1) by (auto simp: with_dir_def sample_core_def sample_sbio_def)
  obtain sb m' fr where conv: "shannon_convert_bio sample_kenv (\<lambda>_. 0) (with_dir ?b s) odd_bio (2 ^ 12) = Some (0, sb, m', fr)"
      "sb_need_bounce sb"
    using odd_bio_bounced [OF nb] by blast
  have "bio_ready 12 (ib_bio ?b)" using odd_bio_ready(1) by simp
  note complete_bounced [OF this nb conv(2), of sample_kenv "\<lambda>_. 0" m' fr]
  then have pages: "bounce_pages_of sb = [100]"
    using converted_bounced [OF \<open>bio_ready 12 (ib_bio ?b)\<close> _ conv(2) _ refl refl, of sample_kenv "\<lambda>_. 0" "with_dir ?b s" m' fr]
      conv(1) converted_need_bounce [OF conv(1) nb conv(2)] odd_bio_count free_bounce_defined
    by (fastforce simp: sample_kenv_def dest: free_bounce_pages_all)
  have "c_logicb_size sample_core = 2 ^ 12" by (simp add: sample_core_def)
  then have "shannon_make_request sample_kenv sample_core (\<lambda>_. 0) (Some ?b) =
      Some ((pre @ EvAllocSbio # conversion_events sb) @ [EvStartAcct, EvQueueWork], m', Some sb)"
    using s(3) conv(1) by (simp add: after_convert_def) (simp add: sample_core_def)
  then show ?thesis
    using cpumask_trace [OF s(2)] conversion_trace [of sb] conv(2) pages by auto
qed

text \<open>A whole run of a bounced write: it is deferred, submitted by the work item and completed.\<close>

lemma bounced_write_run:
  "\<exists>s evs. io_reachable sample_kenv 4096 \<lparr>ib_bio = odd_bio, ib_opf = 1\<rparr> (\<lambda>_. 0) s \<and> io_phase s = Finished \<and>
     io_trace s = evs \<and> {EvQueueWork, EvSubmitted} \<subseteq> set evs \<and> pages_taken evs = [100]"
proof -
  let ?b = "\<lparr>ib_bio = odd_bio, ib_opf = 1\<rparr>"
  obtain evs m' sb where mr: "shannon_make_request sample_kenv sample_core (io_mem (io_start (\<lambda>_. 0))) (Some ?b) =
      Some (evs, m', Some sb)" "EvQueueWork \<in> set evs" "pages_taken evs = [100]"
    using odd_bio_held by (auto simp: io_start_def)
  have z: "zeroed_sbio sample_core" "c_logicb_size sample_core = 4096"
    by (simp_all add: sample_core_def zeroed_sbio_def sample_sbio_def)
  define s1 where "s1 = \<lparr>io_phase = Queued sb, io_trace = evs, io_mem = m'\<rparr>"
  have one: "io_step sample_kenv 4096 ?b (io_start (\<lambda>_. 0)) s1"
    using io_step.make_request [OF _ z(2,1) mr(1)] mr(2) by (simp add: s1_def phase_after_def io_start_def)
  have t: "submit_sbio_task sample_core sb = ([EvSubmitted], Some sb)"
    by (simp add: submit_sbio_task_def sample_core_def)
  define s2 where "s2 = \<lparr>io_phase = InCore sb, io_trace = evs @ [EvSubmitted], io_mem = m'\<rparr>"
  have two: "io_step sample_kenv 4096 ?b s1 s2"
    using io_step.work [OF _ t, of s1] by (simp add: s1_def s2_def phase_after_def)
  have "converted sample_kenv (2 ^ 12) ?b sb" using make_request_held [OF mr(1) z(1)] z(2) by simp
  then obtain e3 m3 where run: "shannon_complete_fs_io m' (FromBio ?b) 0 sb = Some (e3, m3)"
    using complete_total [of 12 ?b sample_kenv sb m' 0] odd_bio_ready(1) by auto
  define s3 where "s3 = \<lparr>io_phase = Finished, io_trace = io_trace s2 @ e3, io_mem = m3\<rparr>"
  have three: "io_step sample_kenv 4096 ?b s2 s3"
    unfolding s3_def by (rule io_step.finish [of s2 sb]) (use run in \<open>simp_all add: s2_def\<close>)
  have "io_reachable sample_kenv 4096 ?b (\<lambda>_. 0) s3"
    using one two three unfolding io_reachable_def by (meson r_into_rtranclp rtranclp.rtrancl_into_rtrancl)
  moreover have "io_phase s3 = Finished" "{EvQueueWork, EvSubmitted} \<subseteq> set (io_trace s3)" "pages_taken (io_trace s3) = [100]"
    using mr(2,3) complete_trace [OF run] by (auto simp: s3_def s2_def)
  ultimately show ?thesis by blast
qed

theorem bio_completed_once_witness:
  "\<exists>s :: io_state. io_phase s = Finished \<and> {EvQueueWork, EvSubmitted} \<subseteq> set (io_trace s) \<and> completions (io_trace s) = 1 \<and>
     count_list (io_trace s) EvStartAcct = count_list (io_trace s) EvEndAcct \<and> pages_freed (io_trace s) \<in> {[], [100]}"
proof -
  obtain s where s: "io_reachable sample_kenv 4096 \<lparr>ib_bio = odd_bio, ib_opf = 1\<rparr> (\<lambda>_. 0) s" "io_phase s = Finished"
      "{EvQueueWork, EvSubmitted} \<subseteq> set (io_trace s)" "pages_taken (io_trace s) = [100]"
    using bounced_write_run by blast
  show ?thesis by (rule exI [of _ s]) (use s bio_completed_once [OF s(1)] in simp)
qed

text \<open>When the deferred submission of a bounced bio fails, its bounce pages are never given
  back: a run exists that finishes with pages taken and none freed. The direct submission path,
  by contrast, frees them.\<close>

theorem deferred_submit_leaks_bounce_pages:
  "\<exists>s. io_reachable sample_kenv 4096 \<lparr>ib_bio = odd_bio, ib_opf = 1\<rparr> (\<lambda>_. 0) s \<and> io_phase s = Finished \<and>
     pages_taken (io_trace s) = [100] \<and> pages_freed (io_trace s) = []"
proof -
  let ?b = "\<lparr>ib_bio = odd_bio, ib_opf = 1\<rparr>" and ?fail = "sample_core\<lparr>c_submit := \<lambda>_. - 5\<rparr>"
  obtain evs m' sb where mr: "shannon_make_request sample_kenv sample_core (io_mem (io_start (\<lambda>_. 0))) (Some ?b) =
      Some (evs, m', Some sb)" "EvQueueWork \<in> set evs" "pages_taken evs = [100]"
    using odd_bio_held by (auto simp: io_start_def)
  have z: "zeroed_sbio sample_core" "c_logicb_size sample_core = 4096"
    by (simp_all add: sample_core_def zeroed_sbio_def sample_sbio_def)
  define s1 where "s1 = \<lparr>io_phase = Queued sb, io_trace = evs, io_mem = m'\<rparr>"
  have one: "io_step sample_kenv 4096 ?b (io_start (\<lambda>_. 0)) s1"
    using io_step.make_request [OF _ z(2,1) mr(1)] mr(2) by (simp add: s1_def phase_after_def io_start_def)
  obtain evs2 h where t: "submit_sbio_task ?fail sb = (evs2, h)" by (cases "submit_sbio_task ?fail sb")
  have h: "h = None" "pages_taken evs2 = []" "pages_freed evs2 = []"
    using t by (auto simp: submit_sbio_task_def sample_core_def shannon_bio_endio_def split: if_splits)
  have two: "io_step sample_kenv 4096 ?b s1 (s1\<lparr>io_phase := phase_after evs2 h, io_trace := io_trace s1 @ evs2\<rparr>)"
    using io_step.work [OF _ t, of s1] by (simp add: s1_def)
  have "pages_freed evs = []" using make_request_held [OF mr(1) z(1)] by simp
  then show ?thesis
    using one two h mr(3)
    by (intro exI [of _ "s1\<lparr>io_phase := phase_after evs2 h, io_trace := io_trace s1 @ evs2\<rparr>"])
       (auto simp: io_reachable_def s1_def phase_after_def intro: rtranclp.rtrancl_into_rtrancl)
qed

section \<open>Status of a failed bio\<close>

lemma endio_zero: "- 256 < e \<Longrightarrow> e \<le> 0 \<Longrightarrow> (EvBioEndio 0 = shannon_bio_endio e) = (e = 0)"
proof -
  assume e: "- 256 < e" "e \<le> 0"
  have "(word_of_int e = (0 :: u8)) = (256 dvd e)" by (simp add: word_of_int_eq_0_iff)
  also have "\<dots> = (e = 0)" using e by presburger
  finally show ?thesis by (auto simp: shannon_bio_endio_def)
qed

lemma free_sg_list_status:
  "mr_free_sg_list sb ret = Some evs \<Longrightarrow> - 256 < ret \<Longrightarrow> ret \<le> 0 \<Longrightarrow> (EvBioEndio 0 \<in> set evs) = (ret = 0)"
  using endio_zero [of ret]
  by (auto simp: mr_free_sg_list_def Let_def mr_free_sbio_def shannon_bio_endio_def split: if_splits option.splits)

text \<open>The error numbers of the conversion.\<close>

lemma convert_ret:
  assumes "shannon_convert_bio k m s b L = Some (ret, sb, m', fr)" "ret \<noteq> 0"
  shows "ret = - EINVAL \<or> ret = - ENOMEM"
  using assms unfolding shannon_convert_bio_def convert_bio_body_def Let_def
  by (simp split: if_split_asm option.split_asm prod.split_asm)

text \<open>A bio that the request function completes itself carries the status byte 0 only if it was a
  discard or empty and the device was available; every failure, with the error numbers of the
  kernel, leaves a non-zero status.\<close>

theorem make_request_status:
  assumes "shannon_make_request k c m (Some b) = Some (evs, m', None)"
    and "\<forall>sb. - 256 < c_submit c sb \<and> c_submit c sb \<le> 0"
  shows "EvBioEndio 0 \<in> set evs \<longleftrightarrow>
    c_present c \<and> \<not> c_unavailable c \<and> (shannon_should_trim_bio b \<or> get_bi_size (ib_bio b) = 0)"
proof (cases "answered_early c b")
  case True
  then show ?thesis
    using assms(1)
    by (auto simp: shannon_make_request_def answered_early_def Let_def EIO_def ENOMEM_def endio_zero
        split: if_splits prod.splits)
next
  case False
  then obtain s pre where s: "set pre \<subseteq> {EvCpumask}" "shannon_make_request k c m (Some b) =
      (case shannon_convert_bio k m (with_dir b s) (ib_bio b) (c_logicb_size c) of None \<Rightarrow> None
       | Some (ret, sb, m', _) \<Rightarrow>
          if ret \<noteq> 0 then Some (pre @ EvAllocSbio # mr_free_sbio ret, m', None)
          else after_convert c (pre @ EvAllocSbio # conversion_events sb) sb m')"
    using make_request_cases by blast
  then obtain ret sb m1 fr where conv: "shannon_convert_bio k m (with_dir b s) (ib_bio b) (c_logicb_size c) =
      Some (ret, sb, m1, fr)"
    using assms(1) by (auto split: option.splits)
  have pre: "EvBioEndio 0 \<notin> set (pre @ EvAllocSbio # conversion_events sb)"
    using s(1) by (auto simp: conversion_events_def)
  have "EvBioEndio 0 \<notin> set evs"
  proof (cases "ret = 0")
    case True
    with s(2) conv assms(1) have "after_convert c (pre @ EvAllocSbio # conversion_events sb) sb m1 = Some (evs, m', None)"
      by simp
    then show ?thesis
      using pre free_sg_list_status [of sb] assms(2) by (auto simp: after_convert_def mr_end_io_acct_def EIO_def split: if_splits)
  next
    case nz: False
    with s(2) conv assms(1) pre convert_ret [OF conv nz] show ?thesis
      by (auto simp: mr_free_sbio_def endio_zero EINVAL_def ENOMEM_def)
  qed
  with False show ?thesis by (auto simp: answered_early_def)
qed

theorem make_request_status_witness:
  "EvBioEndio 0 \<notin> set [EvBioEndio 251] \<and>
   shannon_make_request sample_kenv (sample_core\<lparr>c_unavailable := True\<rparr>) (\<lambda>_. 0) (Some \<lparr>ib_bio = odd_bio, ib_opf = 1\<rparr>) =
     Some ([EvBioEndio 251], \<lambda>_. 0, None)"
proof -
  have run: "shannon_make_request sample_kenv (sample_core\<lparr>c_unavailable := True\<rparr>) (\<lambda>_. 0)
      (Some \<lparr>ib_bio = odd_bio, ib_opf = 1\<rparr>) = Some ([EvBioEndio 251], \<lambda>_. 0, None)"
    by (simp add: shannon_make_request_def sample_core_def shannon_bio_endio_def EIO_def)
  have "\<forall>sb. - 256 < c_submit (sample_core\<lparr>c_unavailable := True\<rparr>) sb \<and>
      c_submit (sample_core\<lparr>c_unavailable := True\<rparr>) sb \<le> 0" by (simp add: sample_core_def)
  then show ?thesis using make_request_status [OF run] run by simp
qed

end
