(* ===== verification/Request_Queue.thy ===== *)
theory Request_Queue
  imports IO_Lifecycle
begin

text \<open>
  The request-queue path of \<^verbatim>\<open>shannon_block.c\<close>, used when the driver sits below an I/O scheduler: the
  legacy \<open>shannon_disk_request\<close>, which drains the queue of the block layer, and what both it and
  the multi-queue variant promise about every request they are given.
\<close>

section \<open>The legacy queue function\<close>

record disk_rq =
  dr_kind :: rq_kind
  dr_write :: bool
  dr_rq :: request

text \<open>The loop \<open>while ((rq = blk_peek_request(q)))\<close>: one answer of the core per round; a request that found no memory
  goes back to the head of the queue. The result is the trace, the requests handed on and the queue left
  when the answers run out.\<close>

fun shannon_disk_request_legacy :: "kenv \<Rightarrow> core list \<Rightarrow> disk_rq list \<Rightarrow>
    (io_event list \<times> shannon_bio list \<times> disk_rq list) option" where
  "shannon_disk_request_legacy k cs [] = Some ([], [], [])"
| "shannon_disk_request_legacy k [] (r # q) = Some ([], [], r # q)"
| "shannon_disk_request_legacy k (c # cs) (r # q) =
    (case shannon_disk_xfer_request k c (dr_kind r) (dr_write r) (dr_rq r) of None \<Rightarrow> None
     | Some (evs, ret, h) \<Rightarrow>
        (case shannon_disk_request_legacy k cs (if ret = - ENOMEM then r # q else q) of None \<Rightarrow> None
         | Some (evs', hs, rest) \<Rightarrow> Some (evs @ evs', (case h of None \<Rightarrow> [] | Some sb \<Rightarrow> [sb]) @ hs, rest)))"

section \<open>Properties\<close>

definition rq_ends :: "io_event list \<Rightarrow> nat" where
  "rq_ends evs = length (filter (\<lambda>e. case e of EvRqEnd _ \<Rightarrow> True | _ \<Rightarrow> False) evs)"

lemma rq_ends_simps [simp]:
  "rq_ends [] = 0" "rq_ends (e # es) = (case e of EvRqEnd _ \<Rightarrow> 1 | _ \<Rightarrow> 0) + rq_ends es"
  "rq_ends (es @ fs) = rq_ends es + rq_ends fs"
  by (simp_all add: rq_ends_def split: io_event.split)

lemma convert_lreq_sg:
  "shannon_convert_lreq k L sb rq = Some (0, sb') \<Longrightarrow> sb_sg sb' \<noteq> None"
  by (auto simp: shannon_convert_lreq_def Let_def ENOMEM_def simp del: lreq_segment.simps split: option.splits)

lemma xfer_fail_trace:
  assumes "xfer_fail sb free_sg ret = (evs, r, h)" "free_sg \<longrightarrow> sb_sg sb \<noteq> None"
  shows "h = None \<and> r = (if ret = - ENOMEM then - ENOMEM else 0) \<and> rq_ends evs = (if ret = - ENOMEM then 0 else 1) \<and>
    count_list evs EvFreeSbio = 1 \<and> count_list evs EvAllocSbio = 0 \<and> count_list evs EvSgAlloc = 0 \<and>
    sg_frees evs = (if free_sg then 1 else 0)"
proof -
  have e: "evs = (if free_sg \<and> sb_sg sb \<noteq> None then [EvSgFree (sb_is_valloc sb)] else []) @ [EvFreeSbio] @
       (if ret = - ENOMEM then [] else [shannon_end_request LREQ_IO_ERROR])"
    and r: "r = (if ret = - ENOMEM then - ENOMEM else 0)" "h = None"
    using assms(1) by (simp_all only: xfer_fail_def prod.inject)
  show ?thesis
    using assms(2) unfolding e r by (cases "ret = - ENOMEM"; cases free_sg) simp_all
qed

lemma ENOMEM_nz: "ENOMEM \<noteq> 0"
  by (simp add: ENOMEM_def)

lemma xfer_request_trace:
  assumes "shannon_disk_xfer_request k c kind write rq = Some (evs, ret, h)"
  shows "ret \<in> {0, - ENOMEM} \<and> (ret = - ENOMEM \<longrightarrow> h = None) \<and>
    rq_ends evs + (if h = None then 0 else 1) + (if ret = - ENOMEM then 1 else 0) = 1 \<and>
    count_list evs EvAllocSbio = count_list evs EvFreeSbio + (if h = None then 0 else 1) \<and>
    count_list evs EvSgAlloc = sg_frees evs + (if h = None then 0 else 1)"
proof -
  let ?early = "c_unavailable c \<or> kind = RqPassthrough \<or> kind = RqDiscard \<or> shannon_blk_rq_bytes rq = 0 \<or>
     c_readonly c \<and> write"
  show ?thesis
  proof (cases ?early)
    case True
    then show ?thesis
      using assms ENOMEM_nz by (auto simp: shannon_disk_xfer_request_def split: if_splits prod.splits)
  next
    case False
    then obtain s where s: "c_alloc_sbio c = Some s"
      using assms by (auto simp: shannon_disk_xfer_request_def split: option.splits if_splits)
    let ?s = "s\<lparr>sb_dma_dir := (if write then SHANNON_DMA_TODEVICE else SHANNON_DMA_FROMDEVICE)\<rparr>"
    obtain r sb where conv: "shannon_convert_lreq k (c_logicb_size c) ?s rq = Some (r, sb)"
      using assms False s
      by (auto simp: shannon_disk_xfer_request_def Let_def split: option.splits)
    note run = assms [unfolded shannon_disk_xfer_request_def Let_def s option.case conv prod.case]
    consider "r \<noteq> 0" | "r = 0" "sb_sg sb \<noteq> None" using convert_lreq_sg conv by blast
    then show ?thesis
    proof cases
      case 1
      obtain e x y where f: "xfer_fail sb False r = (e, x, y)" by (cases "xfer_fail sb False r")
      from run False 1 f xfer_fail_trace [OF f] ENOMEM_nz show ?thesis by (auto split: if_splits)
    next
      case 2
      obtain e1 x1 y1 where f1: "xfer_fail sb True (- EIO) = (e1, x1, y1)" by (cases "xfer_fail sb True (- EIO)")
      obtain e2 x2 y2 where f2: "xfer_fail sb True (c_submit c sb) = (e2, x2, y2)"
        by (cases "xfer_fail sb True (c_submit c sb)")
      from run False 2 f1 f2 xfer_fail_trace [OF f1] xfer_fail_trace [OF f2] ENOMEM_nz show ?thesis
        by (auto split: if_splits)
    qed
  qed
qed

text \<open>A request is reported as done only where nothing was to be transferred.\<close>

lemma xfer_fail_not_good: "xfer_fail sb free_sg ret = (evs, r, h) \<Longrightarrow> EvRqEnd True \<notin> set evs"
  unfolding xfer_fail_def prod.inject by (elim conjE, drule sym) (simp add: LREQ_IO_ERROR_def)

lemma xfer_request_good:
  assumes "shannon_disk_xfer_request k c kind write rq = Some (evs, ret, h)"
  shows "EvRqEnd True \<in> set evs \<longleftrightarrow>
    \<not> c_unavailable c \<and> kind \<noteq> RqPassthrough \<and> (kind = RqDiscard \<or> shannon_blk_rq_bytes rq = 0)"
proof (cases "c_unavailable c \<or> kind = RqPassthrough \<or> kind = RqDiscard \<or> shannon_blk_rq_bytes rq = 0 \<or> c_readonly c \<and> write")
  case True
  then consider "c_unavailable c" | "\<not> c_unavailable c" "kind = RqPassthrough" | "\<not> c_unavailable c" "kind = RqDiscard"
    | "\<not> c_unavailable c" "kind = RqFs" "shannon_blk_rq_bytes rq = 0"
    | "\<not> c_unavailable c" "kind = RqFs" "shannon_blk_rq_bytes rq \<noteq> 0" "c_readonly c \<and> write" by (cases kind) auto
  then show ?thesis
  proof cases
    case 3
    obtain x y where "trim_range (c_logicb_size c) (c_logicb_shift c) (shannon_blk_rq_pos rq) (shannon_blk_rq_bytes rq) = (x, y)"
      by (cases "trim_range (c_logicb_size c) (c_logicb_shift c) (shannon_blk_rq_pos rq) (shannon_blk_rq_bytes rq)")
    then have "evs = [EvDiscard x y, EvRqEnd True]" using assms 3 by (simp add: shannon_disk_xfer_request_def)
    then show ?thesis using 3 by simp
  qed (use assms in \<open>auto simp: shannon_disk_xfer_request_def\<close>)
next
  case False
  obtain s where s: "c_alloc_sbio c = Some s"
    using assms False by (auto simp: shannon_disk_xfer_request_def split: option.splits if_splits)
  let ?s = "s\<lparr>sb_dma_dir := (if write then SHANNON_DMA_TODEVICE else SHANNON_DMA_FROMDEVICE)\<rparr>"
  obtain r sb where conv: "shannon_convert_lreq k (c_logicb_size c) ?s rq = Some (r, sb)"
    using assms False s by (auto simp: shannon_disk_xfer_request_def Let_def split: option.splits)
  note run = assms [unfolded shannon_disk_xfer_request_def Let_def s option.case conv prod.case]
  have nf: "xfer_fail sb f x = (e, y, z) \<Longrightarrow> EvRqEnd True \<notin> set e" for f x e y z by (rule xfer_fail_not_good)
  have "EvRqEnd True \<notin> set evs"
    using run False by (auto split: if_splits prod.splits dest: nf)
  then show ?thesis using False by blast
qed

text \<open>C21 (safety). A request given to the multi-queue \<open>shannon_disk_request\<close> that is not refused for lack of memory has
  exactly one fate: the driver has ended it, or it is on its way in the core. It is ended as good exactly if it was
  a discard or empty and the device was available, so a transfer is never reported as done before the core had
  it; and sbio and table are released unless the request is on its way.\<close>

theorem disk_request_one_fate:
  assumes "shannon_disk_request k c kind write rq = Some (evs, BLK_STS_OK, h)"
  shows "rq_ends evs + (if h = None then 0 else 1) = 1 \<and>
    (EvRqEnd True \<in> set evs \<longleftrightarrow>
       \<not> c_unavailable c \<and> kind \<noteq> RqPassthrough \<and> (kind = RqDiscard \<or> shannon_blk_rq_bytes rq = 0)) \<and>
    count_list evs EvAllocSbio = count_list evs EvFreeSbio + (if h = None then 0 else 1) \<and>
    count_list evs EvSgAlloc = sg_frees evs + (if h = None then 0 else 1)"
proof -
  obtain ret where run: "shannon_disk_xfer_request k c kind write rq = Some (evs, ret, h)" "ret \<noteq> - ENOMEM"
    using assms by (auto simp: shannon_disk_request_def split: if_splits)
  show ?thesis using xfer_request_trace [OF run(1)] xfer_request_good [OF run(1)] run(2) by simp
qed

text \<open>Without memory for the table the request is neither ended nor on its way: everything is released and the block layer is
  told to fail it with \<open>BLK_STS_IOERR\<close>, although the code says that it will be queued again.\<close>

lemma disk_request_no_memory:
  assumes "shannon_disk_request k c kind write rq = Some (evs, BLK_STS_IOERR, h)"
  shows "rq_ends evs = 0 \<and> h = None \<and> count_list evs EvAllocSbio = count_list evs EvFreeSbio \<and>
    count_list evs EvSgAlloc = sg_frees evs"
proof -
  have run: "shannon_disk_xfer_request k c kind write rq = Some (evs, - ENOMEM, h)"
    using assms by (auto simp: shannon_disk_request_def split: if_splits)
  show ?thesis using xfer_request_trace [OF run] by simp
qed

lemma sample_request_converts:
  "\<exists>sb. shannon_convert_lreq sample_kenv 4096 s sample_request = Some (0, sb)"
proof -
  have "wf_request sample_request (2 ^ 12)" by (simp add: wf_request_def sample_request_def)
  moreover have "kzalloc_available sample_kenv (2 * length (rq_segs sample_request) + 1)"
    by (simp add: kzalloc_available_def sample_kenv_def sample_request_def SIZE_MAX_def sizeof_scatterlist_def)
  ultimately show ?thesis using convert_lreq_ok [of "2 ^ 12" 12 sample_request sample_kenv s] by auto
qed

theorem disk_request_one_fate_witness:
  "(\<exists>evs sb. shannon_disk_request sample_kenv sample_core RqFs True sample_request = Some (evs, BLK_STS_OK, Some sb) \<and>
     rq_ends evs = 0 \<and> EvRqEnd True \<notin> set evs) \<and>
   (\<exists>evs. shannon_disk_request sample_kenv (sample_core\<lparr>c_submit := \<lambda>_. - EIO\<rparr>) RqFs True sample_request =
       Some (evs, BLK_STS_OK, None) \<and> rq_ends evs = 1 \<and> EvRqEnd True \<notin> set evs)"
proof
  have bytes: "shannon_blk_rq_bytes sample_request \<noteq> 0" by (simp add: shannon_blk_rq_bytes_def sample_request_def)
  obtain sb where sb: "shannon_convert_lreq sample_kenv 4096 (sample_sbio\<lparr>sb_dma_dir := SHANNON_DMA_TODEVICE\<rparr>) sample_request = Some (0, sb)"
    using sample_request_converts by blast
  obtain evs where run: "shannon_disk_request sample_kenv sample_core RqFs True sample_request = Some (evs, BLK_STS_OK, Some sb)"
    using sb bytes by (auto simp: shannon_disk_request_def shannon_disk_xfer_request_def sample_core_def ENOMEM_def)
  show "\<exists>evs sb. shannon_disk_request sample_kenv sample_core RqFs True sample_request = Some (evs, BLK_STS_OK, Some sb) \<and>
     rq_ends evs = 0 \<and> EvRqEnd True \<notin> set evs"
    using disk_request_one_fate [OF run] bytes run by auto
  obtain evs' where run': "shannon_disk_request sample_kenv (sample_core\<lparr>c_submit := \<lambda>_. - EIO\<rparr>) RqFs True sample_request =
      Some (evs', BLK_STS_OK, None)"
    using sb bytes by (auto simp: shannon_disk_request_def shannon_disk_xfer_request_def xfer_fail_def sample_core_def ENOMEM_def EIO_def Let_def)
  show "\<exists>evs. shannon_disk_request sample_kenv (sample_core\<lparr>c_submit := \<lambda>_. - EIO\<rparr>) RqFs True sample_request =
       Some (evs, BLK_STS_OK, None) \<and> rq_ends evs = 1 \<and> EvRqEnd True \<notin> set evs"
    using disk_request_one_fate [OF run'] bytes run' by auto
qed

text \<open>C25 (safety). The legacy queue function takes requests strictly from the head: after any number
  of rounds the queue left is a suffix of the queue it found, and every request it took was ended or
  handed to the core exactly once; one that met \<open>-ENOMEM\<close> is put back and tried again, however often
  memory ran out in between.\<close>

theorem disk_request_legacy_drains:
  assumes "shannon_disk_request_legacy k cs q = Some (evs, hs, rest)"
  shows "rest = drop (length q - length rest) q \<and> length rest \<le> length q \<and>
    rq_ends evs + length hs + length rest = length q"
  using assms
proof (induction k cs q arbitrary: evs hs rest rule: shannon_disk_request_legacy.induct)
  case (3 k c cs r q)
  then obtain e ret h evs' hs' where x: "shannon_disk_xfer_request k c (dr_kind r) (dr_write r) (dr_rq r) = Some (e, ret, h)"
      "shannon_disk_request_legacy k cs (if ret = - ENOMEM then r # q else q) = Some (evs', hs', rest)"
      "evs = e @ evs'" "hs = (case h of None \<Rightarrow> [] | Some sb \<Rightarrow> [sb]) @ hs'"
    by (auto split: option.splits)
  note IH = 3(1) [OF x(1) refl refl x(2)] and t = xfer_request_trace [OF x(1)]
  show ?case
  proof (cases "ret = - ENOMEM")
    case True
    with IH t x show ?thesis by auto
  next
    case False
    with IH t x have "rest = drop (length q - length rest) q" "length rest \<le> length q"
      "rq_ends evs + length hs + length rest = length (r # q)"
      by (auto split: option.splits)
    then show ?thesis by (simp add: Suc_diff_le)
  qed
qed auto

theorem disk_request_legacy_drains_witness:
  "\<exists>evs hs. shannon_disk_request_legacy sample_kenv [sample_core\<lparr>c_submit := \<lambda>_. - ENOMEM\<rparr>, sample_core]
      [\<lparr>dr_kind = RqFs, dr_write = True, dr_rq = sample_request\<rparr>] = Some (evs, hs, []) \<and>
    hs \<noteq> [] \<and> rq_ends evs + length hs = 1"
proof -
  let ?r = "\<lparr>dr_kind = RqFs, dr_write = True, dr_rq = sample_request\<rparr>"
  have bytes: "shannon_blk_rq_bytes sample_request \<noteq> 0" by (simp add: shannon_blk_rq_bytes_def sample_request_def)
  obtain sb where sb: "shannon_convert_lreq sample_kenv 4096 (sample_sbio\<lparr>sb_dma_dir := SHANNON_DMA_TODEVICE\<rparr>) sample_request = Some (0, sb)"
    using sample_request_converts by blast
  obtain e1 where e1: "shannon_disk_xfer_request sample_kenv (sample_core\<lparr>c_submit := \<lambda>_. - ENOMEM\<rparr>) RqFs True sample_request =
      Some (e1, - ENOMEM, None)"
    using sb bytes by (auto simp: shannon_disk_xfer_request_def xfer_fail_def sample_core_def ENOMEM_def Let_def)
  obtain e2 where e2: "shannon_disk_xfer_request sample_kenv sample_core RqFs True sample_request = Some (e2, 0, Some sb)"
    using sb bytes by (auto simp: shannon_disk_xfer_request_def sample_core_def)
  have run: "shannon_disk_request_legacy sample_kenv [sample_core\<lparr>c_submit := \<lambda>_. - ENOMEM\<rparr>, sample_core] [?r] =
      Some (e1 @ e2, [sb], [])"
    using e1 e2 ENOMEM_nz by simp
  show ?thesis using disk_request_legacy_drains [OF run] run by auto
qed

end
