(* ===== verification/Workqueue.thy ===== *)
theory Workqueue
  imports List_Head
begin

text \<open>
  The driver's own real-time work queue (\<^verbatim>\<open>shannon_workqueue.c\<close>): a list of work items under a spin
  lock, the producers (\<open>shannon_rt_queue_work\<close>), the worker thread (\<open>rt_thread_fn\<close>) and the
  request to stop. The list is the intrusive list of \<^verbatim>\<open>shannon_list.h\<close>. Critical sections are single steps;
  everything outside the lock is a step of its own, so that the races of the code are races of
  the model. Flushing and destroying are composed with it in \<^verbatim>\<open>Workqueue_Destroy\<close>; the wrappers
  around the kernel's own work queues are in \<^verbatim>\<open>Kernel_Work\<close>.
\<close>

section \<open>Operations\<close>

record rt_queue =
  rt_heap :: list_heap             \<comment> \<open>all list heads: \<open>rtwq->list\<close> and the \<open>list\<close> of each work item\<close>
  rt_pending :: "ptr \<Rightarrow> bool"       \<comment> \<open>bit \<open>RT_WORK_STRUCT_PENDING_BIT\<close> of \<open>work->flags\<close>\<close>

definition shannon_init_rt_work :: "rt_queue \<Rightarrow> ptr \<Rightarrow> rt_queue" where
  "shannon_init_rt_work q work = q\<lparr>rt_heap := SHANNON_INIT_LIST_HEAD (rt_heap q) work\<rparr>"

text \<open>The critical section of \<open>shannon_rt_queue_work\<close> and its return value; \<open>None\<close> is the \<open>SHN_BUG_ON\<close>.
  If it returns 0 the caller wakes the thread after it released the lock.\<close>

definition shannon_rt_queue_work :: "ptr \<Rightarrow> rt_queue \<Rightarrow> ptr \<Rightarrow> (rt_queue \<times> int) option" where
  "shannon_rt_queue_work rtwq q work =
    (if \<not> rt_pending q work then
       let q1 = q\<lparr>rt_pending := (rt_pending q)(work := True)\<rparr>
       in if \<not> shannon_list_empty (rt_heap q1) work then None
          else Some (q1\<lparr>rt_heap := shannon_list_add_tail (rt_heap q1) work rtwq\<rparr>, 0)
     else Some (q, - 1))"

text \<open>The critical section in which the worker takes the first item.\<close>

definition rt_take :: "ptr \<Rightarrow> rt_queue \<Rightarrow> rt_queue \<times> ptr" where
  "rt_take rtwq q =
    (let rtw = shannon_list_first_entry (rt_heap q) rtwq;
         q1 = q\<lparr>rt_heap := shannon_list_del_init (rt_heap q) rtw\<rparr>
     in (q1\<lparr>rt_pending := (rt_pending q1)(rtw := False)\<rparr>, rtw))"

definition RT_MAX_LOOP_COUNT :: nat where "RT_MAX_LOOP_COUNT = 1000"

section \<open>The worker thread\<close>

text \<open>The places of \<open>rt_thread_fn\<close> between its atomic actions.\<close>

datatype rt_pc =
    RtTop              \<comment> \<open>top of the outer loop\<close>
  | RtTest             \<comment> \<open>the unlocked test \<open>!shannon_list_empty\<close>\<close>
  | RtTake             \<comment> \<open>about to take the lock\<close>
  | RtRun ptr          \<comment> \<open>\<open>rtw->func(rtw)\<close>\<close>
  | RtNap              \<comment> \<open>\<open>shannon_schedule_timeout(1)\<close>\<close>
  | RtIdle             \<comment> \<open>after the inner loop: restore the class, wake flushers\<close>
  | RtStop             \<comment> \<open>\<open>shannon_kthread_should_stop\<close>\<close>
  | RtSleep            \<comment> \<open>the second critical section\<close>
  | RtSched            \<comment> \<open>in \<open>shannon_schedule\<close>\<close>
  | RtExit

datatype task_state = TASK_RUNNING | TASK_INTERRUPTIBLE

record rt_thread =
  th_pc :: rt_pc
  th_state :: task_state
  th_loop_count :: nat
  th_is_rt :: bool

record rt_sys =
  rs_q :: rt_queue
  rs_th :: rt_thread
  rs_wakers :: nat                 \<comment> \<open>producers that still have to wake the thread\<close>
  rs_should_stop :: bool
  rs_accepted :: "ptr list"        \<comment> \<open>history: items accepted, in order\<close>
  rs_ran :: "ptr list"             \<comment> \<open>history: items run, in order\<close>

text \<open>One action of the worker; \<open>None\<close>: it sleeps in \<open>schedule()\<close> or has exited.\<close>

definition rt_worker :: "ptr \<Rightarrow> rt_sys \<Rightarrow> rt_sys option" where
  "rt_worker rtwq s =
    (let th = rs_th s; goto = (\<lambda>p. Some (s\<lparr>rs_th := th\<lparr>th_pc := p\<rparr>\<rparr>)) in
     case th_pc th of
       RtTop \<Rightarrow> Some (s\<lparr>rs_th := th\<lparr>th_pc := RtTest, th_loop_count := 0, th_is_rt := True\<rparr>\<rparr>)
     | RtTest \<Rightarrow> goto (if \<not> shannon_list_empty (rt_heap (rs_q s)) rtwq then RtTake else RtIdle)
     | RtTake \<Rightarrow> (let (q, rtw) = rt_take rtwq (rs_q s)
                  in Some (s\<lparr>rs_q := q, rs_th := th\<lparr>th_pc := RtRun rtw\<rparr>\<rparr>))
     | RtRun rtw \<Rightarrow>
        (let n = th_loop_count th + 1;
             s1 = s\<lparr>rs_ran := rs_ran s @ [rtw]\<rparr>
         in if n \<ge> RT_MAX_LOOP_COUNT
            then if th_is_rt th
                 then Some (s1\<lparr>rs_th := th\<lparr>th_pc := RtTest, th_loop_count := 0, th_is_rt := False\<rparr>\<rparr>)
                 else Some (s1\<lparr>rs_th := th\<lparr>th_pc := RtNap, th_loop_count := 0, th_state := TASK_INTERRUPTIBLE\<rparr>\<rparr>)
            else Some (s1\<lparr>rs_th := th\<lparr>th_pc := RtTest, th_loop_count := n\<rparr>\<rparr>))
     | RtNap \<Rightarrow> Some (s\<lparr>rs_th := th\<lparr>th_pc := RtTest, th_state := TASK_RUNNING\<rparr>\<rparr>)
     | RtIdle \<Rightarrow> Some (s\<lparr>rs_th := th\<lparr>th_pc := RtStop, th_is_rt := True\<rparr>\<rparr>)
     | RtStop \<Rightarrow> goto (if rs_should_stop s then RtExit else RtSleep)
     | RtSleep \<Rightarrow> if shannon_list_empty (rt_heap (rs_q s)) rtwq
                  then Some (s\<lparr>rs_th := th\<lparr>th_pc := RtSched, th_state := TASK_INTERRUPTIBLE\<rparr>\<rparr>)
                  else goto RtTop
     | RtSched \<Rightarrow> if th_state th = TASK_RUNNING then goto RtTop else None
     | RtExit \<Rightarrow> None)"

text \<open>The rest of the system: a producer, its wake-up, and \<open>shannon_kthread_stop\<close>. The worker's item
  function may queue items again, which is one more producer.\<close>

inductive rt_step :: "ptr \<Rightarrow> ptr set \<Rightarrow> rt_sys \<Rightarrow> rt_sys \<Rightarrow> bool" for rtwq W where
  worker: "rt_worker rtwq s = Some s' \<Longrightarrow> rt_step rtwq W s s'"
| accept: "work \<in> W \<Longrightarrow> shannon_rt_queue_work rtwq (rs_q s) work = Some (q, 0) \<Longrightarrow>
    rt_step rtwq W s (s\<lparr>rs_q := q, rs_wakers := Suc (rs_wakers s), rs_accepted := rs_accepted s @ [work]\<rparr>)"
| refuse: "work \<in> W \<Longrightarrow> shannon_rt_queue_work rtwq (rs_q s) work = Some (q, - 1) \<Longrightarrow>
    rt_step rtwq W s (s\<lparr>rs_q := q\<rparr>)"
| wake: "rs_wakers s = Suc n \<Longrightarrow>
    rt_step rtwq W s (s\<lparr>rs_wakers := n, rs_th := (rs_th s)\<lparr>th_state := TASK_RUNNING\<rparr>\<rparr>)"
| stop: "rt_step rtwq W s (s\<lparr>rs_should_stop := True, rs_th := (rs_th s)\<lparr>th_state := TASK_RUNNING\<rparr>\<rparr>)"

text \<open>\<open>shannon_create_singlethread_rt_workqueue\<close>: the allocation and the start of the thread may fail.\<close>

definition shannon_create_singlethread_rt_workqueue ::
    "bool \<Rightarrow> bool \<Rightarrow> ptr \<Rightarrow> list_heap \<Rightarrow> (list_heap \<times> rt_thread) option" where
  "shannon_create_singlethread_rt_workqueue kzalloc_ok thread_ok rtwq h =
    (if \<not> kzalloc_ok then None
     else let h1 = SHANNON_INIT_LIST_HEAD h rtwq
          in if \<not> thread_ok then None
             else Some (h1, \<lparr>th_pc = RtTop, th_state = TASK_RUNNING, th_loop_count = 0, th_is_rt = True\<rparr>))"

text \<open>The system after the queue was created and the items in \<open>works\<close> initialised in zeroed memory.\<close>

definition rt_created :: "ptr \<Rightarrow> ptr list \<Rightarrow> list_heap \<Rightarrow> rt_sys" where
  "rt_created rtwq works h =
    (let (h1, th) = the (shannon_create_singlethread_rt_workqueue True True rtwq h)
     in \<lparr>rs_q = fold (\<lambda>w q. shannon_init_rt_work q w) works \<lparr>rt_heap = h1, rt_pending = (\<lambda>_. False)\<rparr>,
         rs_th = th, rs_wakers = 0, rs_should_stop = False, rs_accepted = [], rs_ran = []\<rparr>)"

definition rt_reachable :: "ptr \<Rightarrow> ptr list \<Rightarrow> list_heap \<Rightarrow> rt_sys \<Rightarrow> bool" where
  "rt_reachable rtwq works h s = (rt_step rtwq (set works))\<^sup>*\<^sup>* (rt_created rtwq works h) s"

section \<open>Invariant\<close>

definition in_hand :: "rt_sys \<Rightarrow> ptr list" where
  "in_hand s = (case th_pc (rs_th s) of RtRun w \<Rightarrow> [w] | _ \<Rightarrow> [])"

text \<open>The queue holds exactly the pending items, every other item's list head is empty, and what was accepted
  is what ran, what is being run and what is queued, in this order.\<close>

definition q_inv :: "ptr \<Rightarrow> ptr set \<Rightarrow> rt_queue \<Rightarrow> ptr list \<Rightarrow> bool" where
  "q_inv rtwq W q xs \<longleftrightarrow> dll (rt_heap q) rtwq xs \<and> set xs \<subseteq> W \<and> rtwq \<notin> W \<and>
     (\<forall>w \<in> W. rt_pending q w \<longleftrightarrow> w \<in> set xs) \<and> (\<forall>w \<in> W - set xs. dll (rt_heap q) w [])"

definition rt_inv :: "ptr \<Rightarrow> ptr set \<Rightarrow> rt_sys \<Rightarrow> ptr list \<Rightarrow> bool" where
  "rt_inv rtwq W s xs \<longleftrightarrow> q_inv rtwq W (rs_q s) xs \<and>
     rs_accepted s = rs_ran s @ in_hand s @ xs \<and>
     (th_pc (rs_th s) = RtTake \<longrightarrow> xs \<noteq> []) \<and>
     (th_pc (rs_th s) = RtSched \<and> th_state (rs_th s) = TASK_INTERRUPTIBLE \<and> xs \<noteq> [] \<longrightarrow> 0 < rs_wakers s)"

lemma q_inv_queue:
  assumes q: "q_inv rtwq W q xs" and w: "w \<in> W"
  shows "if w \<in> set xs then shannon_rt_queue_work rtwq q w = Some (q, - 1)
    else \<exists>q'. shannon_rt_queue_work rtwq q w = Some (q', 0) \<and> q_inv rtwq W q' (xs @ [w])"
proof (cases "w \<in> set xs")
  case True
  then show ?thesis using assms by (auto simp: q_inv_def shannon_rt_queue_work_def)
next
  case False
  have d: "dll (rt_heap q) rtwq xs" "dll (rt_heap q) w []" "w \<noteq> rtwq" "set xs \<subseteq> W" "rtwq \<notin> W"
    using q w False by (auto simp: q_inv_def)
  let ?h = "shannon_list_add_tail (rt_heap q) w rtwq"
  have "dll ?h rtwq (xs @ [w])" using lh.repr_enq [OF d(1)] d(3) False by simp
  moreover have "dll ?h v []" if "v \<in> W - set (xs @ [w])" for v
    using lh.repr_enq_other [OF d(1), of v "[]" w] that q by (auto simp: q_inv_def)
  ultimately show ?thesis
    using False q w d dll_empty [OF d(2)]
    by (auto simp: q_inv_def shannon_rt_queue_work_def Let_def)
qed

lemma q_inv_take:
  assumes q: "q_inv rtwq W q (x # xs)"
  shows "\<exists>q'. rt_take rtwq q = (q', x) \<and> q_inv rtwq W q' xs"
proof -
  have d: "dll (rt_heap q) rtwq (x # xs)" using q by (simp add: q_inv_def)
  have f: "shannon_list_first_entry (rt_heap q) rtwq = x" by (rule lh.repr_first [OF d])
  let ?h = "shannon_list_del_init (rt_heap q) x"
  have "dll ?h rtwq xs" "dll ?h x []"
    using lh.repr_unlink [of _ _ "[]" x xs] lh.repr_unlinked [of _ _ "[]" x xs] d by auto
  moreover have "dll ?h v []" if "v \<in> W" "v \<notin> set (x # xs)" for v
    using lh.repr_unlink_other [of _ rtwq "[]" x xs v "[]"] d that q by (auto simp: q_inv_def)
  moreover have "x \<notin> set xs" using lh.repr_distinct [OF d] by simp
  ultimately show ?thesis
    using q f by (auto simp: rt_take_def Let_def q_inv_def)
qed

lemma q_inv_empty: "q_inv rtwq W q xs \<Longrightarrow> shannon_list_empty (rt_heap q) rtwq \<longleftrightarrow> xs = []"
  by (auto simp: q_inv_def dll_empty)

lemma init_works:
  "distinct works \<Longrightarrow> rtwq \<notin> set works \<Longrightarrow> dll (rt_heap q) rtwq [] \<Longrightarrow>
   (\<forall>v \<in> V. dll (rt_heap q) v []) \<Longrightarrow> V \<inter> set works = {} \<Longrightarrow>
   let q' = fold (\<lambda>w q. shannon_init_rt_work q w) works q
   in dll (rt_heap q') rtwq [] \<and> (\<forall>v \<in> V \<union> set works. dll (rt_heap q') v []) \<and> rt_pending q' = rt_pending q"
proof (induction works arbitrary: q V)
  case (Cons w works)
  let ?q = "shannon_init_rt_work q w"
  have w: "dll (rt_heap ?q) w []" by (simp add: shannon_init_rt_work_def dll_init)
  have keep: "dll (rt_heap ?q) v []" if "dll (rt_heap q) v []" "v \<noteq> w" for v
    using init_frame that by (auto simp: shannon_init_rt_work_def dll_Nil SHANNON_INIT_LIST_HEAD_def Let_def)
  have "let q' = fold (\<lambda>w q. shannon_init_rt_work q w) works ?q
   in dll (rt_heap q') rtwq [] \<and> (\<forall>v \<in> insert w V \<union> set works. dll (rt_heap q') v []) \<and> rt_pending q' = rt_pending ?q"
    by (rule Cons.IH) (use Cons.prems w keep in auto)
  then show ?case by (auto simp: Let_def shannon_init_rt_work_def)
qed simp

lemma rt_created_inv:
  assumes "distinct works" "rtwq \<notin> set works"
  shows "rt_inv rtwq (set works) (rt_created rtwq works h) []"
proof -
  let ?q = "\<lparr>rt_heap = SHANNON_INIT_LIST_HEAD h rtwq, rt_pending = (\<lambda>_. False)\<rparr>"
  have "let q' = fold (\<lambda>w q. shannon_init_rt_work q w) works ?q
   in dll (rt_heap q') rtwq [] \<and> (\<forall>v \<in> {} \<union> set works. dll (rt_heap q') v []) \<and> rt_pending q' = rt_pending ?q"
    by (rule init_works [OF assms]) (simp_all add: dll_init)
  then show ?thesis
    using assms(2)
    by (simp add: rt_inv_def q_inv_def rt_created_def shannon_create_singlethread_rt_workqueue_def Let_def in_hand_def)
qed

lemma rt_worker_inv:
  assumes "rt_inv rtwq W s xs" "rt_worker rtwq s = Some s'"
  shows "\<exists>xs'. rt_inv rtwq W s' xs'"
proof (cases "th_pc (rs_th s)")
  case RtTake
  then obtain x ys where xs: "xs = x # ys" using assms(1) by (cases xs) (auto simp: rt_inv_def)
  obtain q' where "rt_take rtwq (rs_q s) = (q', x)" "q_inv rtwq W q' ys"
    using q_inv_take assms(1) by (metis rt_inv_def xs)
  then have "rt_inv rtwq W s' ys"
    using assms RtTake xs by (auto simp: rt_worker_def Let_def rt_inv_def in_hand_def)
  then show ?thesis ..
next
  case (RtRun w)
  then have "rt_inv rtwq W s' xs"
    using assms by (auto simp: rt_worker_def Let_def rt_inv_def in_hand_def split: if_splits)
  then show ?thesis ..
qed (use assms q_inv_empty in \<open>auto simp: rt_worker_def Let_def rt_inv_def in_hand_def split: if_splits intro!: exI [of _ xs]\<close>)

lemma rt_step_inv: "rt_step rtwq W s s' \<Longrightarrow> rt_inv rtwq W s xs \<Longrightarrow> \<exists>xs'. rt_inv rtwq W s' xs'"
proof (induction rule: rt_step.induct)
  case (worker s s')
  then show ?case by (intro rt_worker_inv)
next
  case (accept work s q)
  then have "work \<notin> set xs" "q_inv rtwq W q (xs @ [work])"
    using q_inv_queue [of rtwq W "rs_q s" xs work] by (auto simp: rt_inv_def split: if_splits)
  with accept show ?case
    by (intro exI [of _ "xs @ [work]"]) (auto simp: rt_inv_def in_hand_def split: rt_pc.split)
next
  case (refuse work s q)
  then have "q = rs_q s"
    using q_inv_queue [of rtwq W "rs_q s" xs work] by (auto simp: rt_inv_def split: if_splits)
  with refuse show ?case by (intro exI [of _ xs]) simp
qed (auto simp: rt_inv_def in_hand_def split: rt_pc.split intro!: exI [of _ xs])

lemma rt_reachable_inv:
  assumes "rt_reachable rtwq works h s" "distinct works" "rtwq \<notin> set works"
  shows "\<exists>xs. rt_inv rtwq (set works) s xs"
  using assms(1) unfolding rt_reachable_def
proof (induction rule: rtranclp_induct)
  case base
  show ?case using rt_created_inv [OF assms(2,3)] by blast
next
  case (step y z)
  then show ?case using rt_step_inv by blast
qed

section \<open>Properties\<close>

text \<open>C10 (invariant). In every reachable state of queue, worker and producers the list is a well-formed ring that
  holds exactly the pending items; queueing an item never hits the \<open>SHN_BUG_ON\<close>, returns -1 exactly for a
  pending item and otherwise appends it; and the items that ran, the one being run and the queue are
  the accepted items in the order they were accepted: none is lost, repeated or overtaken.\<close>

theorem rt_queue_fifo:
  assumes "rt_reachable rtwq works h s" "distinct works" "rtwq \<notin> set works"
  shows "\<exists>xs. dll (rt_heap (rs_q s)) rtwq xs \<and> rs_accepted s = rs_ran s @ in_hand s @ xs \<and>
    (\<forall>w \<in> set works. (rt_pending (rs_q s) w \<longleftrightarrow> w \<in> set xs) \<and>
       (if w \<in> set xs then shannon_rt_queue_work rtwq (rs_q s) w = Some (rs_q s, - 1)
        else \<exists>q'. shannon_rt_queue_work rtwq (rs_q s) w = Some (q', 0) \<and> dll (rt_heap q') rtwq (xs @ [w])))"
proof -
  obtain xs where "rt_inv rtwq (set works) s xs" using rt_reachable_inv [OF assms] by blast
  then have i: "q_inv rtwq (set works) (rs_q s) xs" "rs_accepted s = rs_ran s @ in_hand s @ xs"
    by (auto simp: rt_inv_def)
  have "if w \<in> set xs then shannon_rt_queue_work rtwq (rs_q s) w = Some (rs_q s, - 1)
     else \<exists>q'. shannon_rt_queue_work rtwq (rs_q s) w = Some (q', 0) \<and> dll (rt_heap q') rtwq (xs @ [w])"
    if "w \<in> set works" for w
    using q_inv_queue [OF i(1) that] by (auto simp: q_inv_def split: if_splits)
  then show ?thesis using i by (intro exI [of _ xs]) (auto simp: q_inv_def)
qed

definition sample_heap0 :: list_heap where
  "sample_heap0 = \<lparr>nxt = (\<lambda>_. 0), prv = (\<lambda>_. 0)\<rparr>"

lemma created_reachable: "rt_reachable rtwq works h (rt_created rtwq works h)"
  by (simp add: rt_reachable_def)

text \<open>No wake-up of a producer is lost: if the worker sleeps in \<open>schedule()\<close> while items are queued,
  a producer has yet to wake it. The worker takes an item only when there is one.\<close>

theorem rt_no_lost_wakeup:
  assumes "rt_reachable rtwq works h s" "distinct works" "rtwq \<notin> set works"
    and "\<not> shannon_list_empty (rt_heap (rs_q s)) rtwq"
  shows "rt_worker rtwq s = None \<longrightarrow> th_pc (rs_th s) = RtExit \<or> 0 < rs_wakers s"
proof -
  obtain xs where i: "rt_inv rtwq (set works) s xs" using rt_reachable_inv [OF assms(1-3)] by blast
  then have "xs \<noteq> []" using q_inv_empty assms(4) by (auto simp: rt_inv_def)
  moreover have "th_pc (rs_th s) = RtExit \<or> th_pc (rs_th s) = RtSched \<and> th_state (rs_th s) = TASK_INTERRUPTIBLE"
    if "rt_worker rtwq s = None"
    using that by (auto simp: rt_worker_def Let_def split: rt_pc.splits if_splits prod.splits intro: task_state.exhaust)
  ultimately show ?thesis using i by (auto simp: rt_inv_def)
qed

text \<open>A run in which one item is queued while the worker sleeps.\<close>

definition run_worker :: "ptr \<Rightarrow> nat \<Rightarrow> rt_sys \<Rightarrow> rt_sys" where
  "run_worker rtwq n s = ((\<lambda>s. case rt_worker rtwq s of None \<Rightarrow> s | Some s' \<Rightarrow> s') ^^ n) s"

lemma run_worker_steps: "(rt_step rtwq W)\<^sup>*\<^sup>* s (run_worker rtwq n s)"
proof (induction n)
  case (Suc n)
  have "(rt_step rtwq W)\<^sup>*\<^sup>* (run_worker rtwq n s) (run_worker rtwq (Suc n) s)"
    by (auto simp: run_worker_def intro: worker split: option.split)
  with Suc show ?case by (rule rtranclp_trans)
qed (simp add: run_worker_def)

lemma rt_reachable_steps:
  "rt_reachable rtwq works h s \<Longrightarrow> (rt_step rtwq (set works))\<^sup>*\<^sup>* s s' \<Longrightarrow> rt_reachable rtwq works h s'"
  unfolding rt_reachable_def by (rule rtranclp_trans)

definition rt_queued_state :: rt_sys where
  "rt_queued_state =
    (let s = rt_created 1 [10] sample_heap0; (q, _) = the (shannon_rt_queue_work 1 (rs_q s) 10)
     in s\<lparr>rs_q := q, rs_wakers := 1, rs_accepted := [10]\<rparr>)"

lemmas rt_compute = rt_queued_state_def rt_created_def shannon_create_singlethread_rt_workqueue_def
  shannon_init_rt_work_def shannon_rt_queue_work_def SHANNON_INIT_LIST_HEAD_def shannon_list_empty_def
  shannon_list_add_tail_def raw_list_add_def sample_heap0_def Let_def rt_worker_def rt_take_def
  shannon_list_first_entry_def shannon_list_del_init_def raw_list_del_entry_def raw_list_del_def RT_MAX_LOOP_COUNT_def

lemma rt_queued_reachable: "rt_reachable 1 [10] sample_heap0 rt_queued_state"
proof -
  let ?s = "rt_created 1 [10] sample_heap0"
  obtain q where q: "shannon_rt_queue_work 1 (rs_q ?s) 10 = Some (q, 0)"
    by (simp add: rt_compute)
  have "rt_step 1 (set [10]) ?s (?s\<lparr>rs_q := q, rs_wakers := Suc (rs_wakers ?s), rs_accepted := rs_accepted ?s @ [10]\<rparr>)"
    by (rule rt_step.accept) (use q in auto)
  moreover have "?s\<lparr>rs_q := q, rs_wakers := Suc (rs_wakers ?s), rs_accepted := rs_accepted ?s @ [10]\<rparr> = rt_queued_state"
    using q by (simp add: rt_queued_state_def Let_def) (simp add: rt_created_def shannon_create_singlethread_rt_workqueue_def)
  ultimately have "rt_step 1 (set [10]) ?s rt_queued_state" by simp
  then show ?thesis by (rule rt_reachable_steps [OF created_reachable r_into_rtranclp])
qed

theorem rt_queue_fifo_witness:
  "dll (rt_heap (rs_q rt_queued_state)) 1 [10] \<and> rt_pending (rs_q rt_queued_state) 10 \<and>
   shannon_rt_queue_work 1 (rs_q rt_queued_state) 10 = Some (rs_q rt_queued_state, - 1)"
proof -
  have st: "rs_accepted rt_queued_state = [10]" "rs_ran rt_queued_state = []" "in_hand rt_queued_state = []"
    by (simp_all add: rt_compute in_hand_def)
  show ?thesis using rt_queue_fifo [OF rt_queued_reachable] st by auto
qed

theorem rt_no_lost_wakeup_witness:
  "\<exists>s. rt_reachable 1 [10] sample_heap0 s \<and> \<not> shannon_list_empty (rt_heap (rs_q s)) 1 \<and> rt_worker 1 s = None \<and>
     0 < rs_wakers s"
proof -
  define s0 where "s0 = run_worker 1 5 (rt_created 1 [10] sample_heap0)"
  have asleep: "th_pc (rs_th s0) = RtSched" "th_state (rs_th s0) = TASK_INTERRUPTIBLE"
    by (simp_all add: s0_def run_worker_def eval_nat_numeral rt_compute)
  obtain q where q: "shannon_rt_queue_work 1 (rs_q s0) 10 = Some (q, 0)" "\<not> shannon_list_empty (rt_heap q) 1"
    by (simp add: s0_def run_worker_def eval_nat_numeral rt_compute)
  define s where "s = s0\<lparr>rs_q := q, rs_wakers := Suc (rs_wakers s0), rs_accepted := rs_accepted s0 @ [10]\<rparr>"
  have "rt_step 1 (set [10]) s0 s" unfolding s_def by (rule rt_step.accept) (use q in auto)
  then have reach: "rt_reachable 1 [10] sample_heap0 s"
    using rt_reachable_steps [OF rt_reachable_steps [OF created_reachable run_worker_steps] r_into_rtranclp]
    unfolding s0_def by blast
  have st: "rt_worker 1 s = None" "\<not> shannon_list_empty (rt_heap (rs_q s)) 1" "th_pc (rs_th s) \<noteq> RtExit"
    using asleep q(2) by (simp_all add: s_def rt_worker_def)
  then have "0 < rs_wakers s" using rt_no_lost_wakeup [OF reach _ _ st(2)] by simp
  with reach st(1,2) show ?thesis by (intro exI [of _ s] conjI)
qed

text \<open>A stop request can be lost: the worker tests \<open>kthread_should_stop\<close> before it marks itself
  sleeping, and a \<open>kthread_stop\<close> that falls between the two wakes a running thread. The worker then
  sleeps for ever with the stop flag set, no producer owes it a wake-up, and \<open>kthread_stop\<close>, which
  waits for it, never returns.\<close>

theorem rt_stop_wakeup_lost:
  "\<exists>s. rt_reachable 1 [10] sample_heap0 s \<and> rs_should_stop s \<and> rs_wakers s = 0 \<and>
     th_pc (rs_th s) = RtSched \<and> rt_worker 1 s = None"
proof -
  let ?s0 = "rt_created 1 [10] sample_heap0"
  define s1 where "s1 = run_worker 1 4 ?s0"
  define s2 where "s2 = s1\<lparr>rs_should_stop := True, rs_th := (rs_th s1)\<lparr>th_state := TASK_RUNNING\<rparr>\<rparr>"
  define s3 where "s3 = run_worker 1 1 s2"
  have "rt_reachable 1 [10] sample_heap0 s1"
    using rt_reachable_steps [OF created_reachable run_worker_steps] by (simp add: s1_def)
  then have "rt_reachable 1 [10] sample_heap0 s2"
    by (rule rt_reachable_steps) (auto simp: s2_def intro: rt_step.stop)
  then have "rt_reachable 1 [10] sample_heap0 s3"
    using rt_reachable_steps run_worker_steps unfolding s3_def by blast
  moreover have "rs_should_stop s3" "rs_wakers s3 = 0" "th_pc (rs_th s3) = RtSched" "rt_worker 1 s3 = None"
    by (simp_all add: s3_def s2_def s1_def run_worker_def eval_nat_numeral rt_compute)
  ultimately show ?thesis by blast
qed

text \<open>Flushing does not wait for the work: \<open>shannon_flush_rt_workqueue\<close> returns as soon as the list is
  empty, which it is while the last item has been taken but its function has not run.\<close>

theorem rt_flush_returns_early:
  "\<exists>s. rt_reachable 1 [10] sample_heap0 s \<and> shannon_list_empty (rt_heap (rs_q s)) 1 \<and>
     10 \<in> set (rs_accepted s) \<and> 10 \<notin> set (rs_ran s)"
proof -
  define s1 where "s1 = run_worker 1 3 rt_queued_state"
  have "rt_reachable 1 [10] sample_heap0 s1"
    using rt_reachable_steps [OF rt_queued_reachable run_worker_steps] by (simp add: s1_def)
  moreover have "shannon_list_empty (rt_heap (rs_q s1)) 1" "10 \<in> set (rs_accepted s1)" "10 \<notin> set (rs_ran s1)"
    by (simp_all add: s1_def run_worker_def eval_nat_numeral rt_compute)
  ultimately show ?thesis by blast
qed

section \<open>Progress\<close>

text \<open>How far the worker is from having run everything.\<close>

definition rt_rank :: "rt_thread \<Rightarrow> nat" where
  "rt_rank th = (case th_pc th of RtTake \<Rightarrow> 2 | RtTest \<Rightarrow> 3 | RtTop \<Rightarrow> 4 | RtNap \<Rightarrow> 4 | RtRun _ \<Rightarrow> 5
     | RtSched \<Rightarrow> (if th_state th = TASK_RUNNING then 5 else 6) | RtSleep \<Rightarrow> 7 | RtStop \<Rightarrow> 8 | RtIdle \<Rightarrow> 9 | RtExit \<Rightarrow> 0)"

definition rt_distance :: "rt_sys \<Rightarrow> ptr list \<Rightarrow> nat" where
  "rt_distance s xs = 20 * length xs + rt_rank (rs_th s)"

text \<open>As long as something is queued or in hand and no stop was requested, a step of the worker or a
  wake-up it is owed brings it closer.\<close>

lemma rt_worker_progress:
  assumes i: "rt_inv rtwq W s xs" and busy: "in_hand s @ xs \<noteq> []" and run: "\<not> rs_should_stop s" and Some: "rt_worker rtwq s = Some s'"
  shows "\<exists>xs'. rt_inv rtwq W s' xs' \<and> rt_distance s' xs' < rt_distance s xs"
proof (cases "th_pc (rs_th s)")
  case RtTake
  then obtain x ys where xs: "xs = x # ys" using i by (cases xs) (auto simp: rt_inv_def)
  obtain q' where "rt_take rtwq (rs_q s) = (q', x)" "q_inv rtwq W q' ys"
    using q_inv_take i by (metis rt_inv_def xs)
  then have "rt_inv rtwq W s' ys" "rt_distance s' ys < rt_distance s xs"
    using i Some RtTake xs by (auto simp: rt_worker_def Let_def rt_inv_def in_hand_def rt_distance_def rt_rank_def)
  then show ?thesis by blast
next
  case (RtRun w)
  then have "rt_inv rtwq W s' xs" "rt_distance s' xs < rt_distance s xs"
    using i Some
    by (auto simp: rt_worker_def Let_def rt_inv_def in_hand_def rt_distance_def rt_rank_def split: if_splits)
  then show ?thesis by blast
qed (use i Some busy run q_inv_empty in
    \<open>auto simp: rt_worker_def Let_def rt_inv_def in_hand_def rt_distance_def rt_rank_def split: if_splits
      intro!: exI [of _ xs]\<close>)

lemma rt_worker_blocked:
  "rt_worker rtwq s = None \<Longrightarrow> th_pc (rs_th s) \<noteq> RtExit \<Longrightarrow> th_pc (rs_th s) = RtSched \<and> th_state (rs_th s) = TASK_INTERRUPTIBLE"
  by (auto simp: rt_worker_def Let_def split: rt_pc.splits if_splits prod.splits intro: task_state.exhaust)

text \<open>The steps the drain may use: those of the worker and the wake-ups that producers still owe. No
  further producer and no stop request takes part.\<close>

inductive rt_own_step :: "ptr \<Rightarrow> rt_sys \<Rightarrow> rt_sys \<Rightarrow> bool" for rtwq where
  own_worker: "rt_worker rtwq s = Some s' \<Longrightarrow> rt_own_step rtwq s s'"
| own_wake: "rs_wakers s = Suc n \<Longrightarrow>
    rt_own_step rtwq s (s\<lparr>rs_wakers := n, rs_th := (rs_th s)\<lparr>th_state := TASK_RUNNING\<rparr>\<rparr>)"

lemma rt_own_step_step: "rt_own_step rtwq s s' \<Longrightarrow> rt_step rtwq W s s'"
  by (auto elim!: rt_own_step.cases intro: rt_step.intros)

definition rt_alive :: "ptr \<Rightarrow> ptr set \<Rightarrow> rt_sys \<Rightarrow> ptr list \<Rightarrow> bool" where
  "rt_alive rtwq W s xs \<longleftrightarrow> rt_inv rtwq W s xs \<and> \<not> rs_should_stop s \<and> th_pc (rs_th s) \<noteq> RtExit"

definition rt_debt :: "rt_sys \<Rightarrow> ptr list \<Rightarrow> nat" where
  "rt_debt s xs = rt_distance s xs + rs_wakers s"

lemma rt_own_stays:
  assumes "rt_own_step rtwq s s'" "\<not> rs_should_stop s" "th_pc (rs_th s) \<noteq> RtExit"
  shows "rs_accepted s' = rs_accepted s \<and> \<not> rs_should_stop s' \<and> th_pc (rs_th s') \<noteq> RtExit \<and>
    length (rs_ran s) \<le> length (rs_ran s')"
  using assms
  by (auto simp: rt_worker_def Let_def elim!: rt_own_step.cases split: rt_pc.splits if_splits prod.splits)

text \<open>While something is queued or in hand, every own step brings the end closer, and there is one.\<close>

lemma rt_own_closer:
  assumes al: "rt_alive rtwq W s xs" and busy: "in_hand s @ xs \<noteq> []" and st: "rt_own_step rtwq s s'"
  shows "\<exists>xs'. rt_alive rtwq W s' xs' \<and> rt_debt s' xs' < rt_debt s xs"
proof -
  have i: "rt_inv rtwq W s xs" and run: "\<not> rs_should_stop s" "th_pc (rs_th s) \<noteq> RtExit"
    using al by (auto simp: rt_alive_def)
  from st have "\<exists>xs'. rt_inv rtwq W s' xs' \<and> rt_debt s' xs' < rt_debt s xs"
  proof cases
    case own_worker
    then have "rs_wakers s' = rs_wakers s"
      by (auto simp: rt_worker_def Let_def split: rt_pc.splits if_splits prod.splits)
    then show ?thesis using rt_worker_progress [OF i busy run(1) own_worker] by (auto simp: rt_debt_def)
  next
    case (own_wake n)
    then show ?thesis
      using i by (intro exI [of _ xs])
        (auto simp: rt_inv_def in_hand_def rt_debt_def rt_distance_def rt_rank_def split: rt_pc.splits)
  qed
  then show ?thesis using rt_own_stays [OF st run] by (auto simp: rt_alive_def)
qed

lemma rt_own_possible:
  assumes al: "rt_alive rtwq W s xs" and busy: "in_hand s @ xs \<noteq> []"
  shows "\<exists>s'. rt_own_step rtwq s s'"
proof (cases "rt_worker rtwq s")
  case None
  have i: "rt_inv rtwq W s xs" using al by (simp add: rt_alive_def)
  have blocked: "th_pc (rs_th s) = RtSched" "th_state (rs_th s) = TASK_INTERRUPTIBLE"
    using rt_worker_blocked [OF None] al by (auto simp: rt_alive_def)
  then have "xs \<noteq> []" using busy by (simp add: in_hand_def)
  then obtain n where "rs_wakers s = Suc n" using i blocked by (auto simp: rt_inv_def dest: gr0_implies_Suc)
  then show ?thesis by (blast intro: own_wake)
qed (blast intro: own_worker)

lemma rt_own_alive:
  assumes "rt_alive rtwq W s xs" "rt_own_step rtwq s s'"
  shows "\<exists>xs'. rt_alive rtwq W s' xs'"
  using rt_step_inv [OF rt_own_step_step [OF assms(2)]] rt_own_stays [OF assms(2)] assms(1)
  by (auto simp: rt_alive_def)

lemma rt_drained_iff: "rt_alive rtwq W s xs \<Longrightarrow> rs_ran s = rs_accepted s \<longleftrightarrow> in_hand s @ xs = []"
  by (auto simp: rt_alive_def rt_inv_def)

lemma rt_drained_stays:
  assumes "rt_alive rtwq W s xs" "rt_own_step rtwq s s'" "rs_ran s = rs_accepted s"
  shows "rs_ran s' = rs_accepted s"
proof -
  obtain xs' where "rt_alive rtwq W s' xs'" using rt_own_alive [OF assms(1,2)] by blast
  then have "rs_accepted s' = rs_ran s' @ in_hand s' @ xs'" by (simp add: rt_alive_def rt_inv_def)
  moreover have "rs_accepted s' = rs_accepted s" "length (rs_ran s) \<le> length (rs_ran s')"
    using rt_own_stays [OF assms(2)] assms(1) by (auto simp: rt_alive_def)
  ultimately show ?thesis using assms(3) by simp
qed

lemma rt_own_bound:
  assumes "(rt_own_step rtwq ^^ n) s s'" "rt_alive rtwq W s xs" "rs_ran s = rs_accepted s \<or> rt_debt s xs < n"
  shows "rs_ran s' = rs_accepted s"
  using assms
proof (induction n arbitrary: s xs)
  case (Suc n)
  from Suc.prems(1) obtain s1 where s1: "rt_own_step rtwq s s1" "(rt_own_step rtwq ^^ n) s1 s'"
    by (blast elim: relpowp_Suc_E2)
  have same: "rs_accepted s1 = rs_accepted s" using rt_own_stays [OF s1(1)] Suc.prems(2) by (auto simp: rt_alive_def)
  show ?case
  proof (cases "rs_ran s = rs_accepted s")
    case True
    obtain xs1 where "rt_alive rtwq W s1 xs1" using rt_own_alive [OF Suc.prems(2) s1(1)] by blast
    from Suc.IH [OF s1(2) this] show ?thesis using rt_drained_stays [OF Suc.prems(2) s1(1) True] same by simp
  next
    case False
    then have "in_hand s @ xs \<noteq> []" using rt_drained_iff [OF Suc.prems(2)] by blast
    then obtain xs1 where "rt_alive rtwq W s1 xs1" "rt_debt s1 xs1 < rt_debt s xs"
      using rt_own_closer [OF Suc.prems(2) _ s1(1)] by blast
    with Suc.IH [OF s1(2) this(1)] Suc.prems(3) False same show ?thesis by simp
  qed
qed simp

lemma rt_own_reaches:
  assumes "(rt_own_step rtwq)\<^sup>*\<^sup>* s s'" "rt_alive rtwq W s xs"
  shows "rs_accepted s' = rs_accepted s \<and> (\<exists>xs'. rt_alive rtwq W s' xs')"
  using assms
proof (induction rule: rtranclp_induct)
  case (step y z)
  then obtain ys where "rs_accepted y = rs_accepted s" "rt_alive rtwq W y ys" by blast
  then show ?case using rt_own_stays [OF step(2)] rt_own_alive [OF _ step(2)] by (auto simp: rt_alive_def)
qed blast

text \<open>C12 (liveness). As long as no stop was requested, every accepted item is run. From every reachable state in which
  the worker lives, only the worker and the producers that still owe it a wake-up take steps, with no
  further producer and no stop request: as long as an accepted item has not run one of them can take a
  step, and after a bounded number of such steps, in whatever order they come, exactly the accepted
  items have run, in the order they were accepted.\<close>

theorem rt_queue_drains:
  assumes "rt_reachable rtwq works h s" "distinct works" "rtwq \<notin> set works"
    and "\<not> rs_should_stop s" "th_pc (rs_th s) \<noteq> RtExit"
  shows "(\<forall>s'. (rt_own_step rtwq)\<^sup>*\<^sup>* s s' \<and> rs_ran s' \<noteq> rs_accepted s \<longrightarrow> (\<exists>s''. rt_own_step rtwq s' s'')) \<and>
    (\<exists>N. \<forall>n s'. N \<le> n \<and> (rt_own_step rtwq ^^ n) s s' \<longrightarrow> rs_ran s' = rs_accepted s)"
proof -
  obtain xs where al: "rt_alive rtwq (set works) s xs"
    using rt_reachable_inv [OF assms(1-3)] assms(4,5) by (auto simp: rt_alive_def)
  have "\<exists>s''. rt_own_step rtwq s' s''" if s': "(rt_own_step rtwq)\<^sup>*\<^sup>* s s'" "rs_ran s' \<noteq> rs_accepted s" for s'
  proof -
    obtain xs' where al': "rt_alive rtwq (set works) s' xs'" and same: "rs_accepted s' = rs_accepted s"
      using rt_own_reaches [OF s'(1) al] by blast
    then have "in_hand s' @ xs' \<noteq> []" using rt_drained_iff [OF al'] s'(2) by simp
    with rt_own_possible [OF al'] show ?thesis .
  qed
  moreover have "rs_ran s' = rs_accepted s" if "Suc (rt_debt s xs) \<le> n" "(rt_own_step rtwq ^^ n) s s'" for n s'
    using rt_own_bound [OF that(2) al] that(1) by simp
  ultimately show ?thesis by blast
qed

theorem rt_queue_drains_witness:
  "(\<exists>s''. rt_own_step 1 rt_queued_state s'') \<and>
   (\<exists>N. {s'. (rt_own_step 1 ^^ N) rt_queued_state s'} \<subseteq> {s'. rs_ran s' = [10]})"
proof -
  have st: "\<not> rs_should_stop rt_queued_state" "th_pc (rs_th rt_queued_state) \<noteq> RtExit"
    "rs_accepted rt_queued_state = [10]" "rs_ran rt_queued_state = []"
    by (simp_all add: rt_compute)
  note d = rt_queue_drains [OF rt_queued_reachable _ _ st(1,2)]
  have "\<exists>s''. rt_own_step 1 rt_queued_state s''" using d st(3,4) by auto
  moreover obtain N where "\<forall>n s'. N \<le> n \<and> (rt_own_step 1 ^^ n) rt_queued_state s' \<longrightarrow> rs_ran s' = [10]"
    using d st(3) by auto
  ultimately show ?thesis by blast
qed

end
