(* ===== verification/Waitqueue.thy ===== *)
theory Waitqueue
  imports List_Head
begin

text \<open>
  The driver's wait queues (\<^verbatim>\<open>shannon_waitqueue.c\<close>, \<^verbatim>\<open>shannon_waitqueue.h\<close>): wait entries on an intrusive list,
  waking, and the loops of \<open>shannon_wait_event\<close> and \<open>shannon_wait_event_interruptible\<close>. Whether
  \<open>default_wake_function\<close> of the kernel woke a task is a parameter. The sections under \<open>q->lock\<close> are atomic.
\<close>

section \<open>Entries and waking\<close>

definition WQ_FLAG_EXCLUSIVE :: u32 where "WQ_FLAG_EXCLUSIVE = 1"
definition ERESTARTSYS :: int where "ERESTARTSYS = 512"

datatype shn_task = SHN_TASK_RUNNING | SHN_TASK_INTERRUPTIBLE | SHN_TASK_UNINTERRUPTIBLE

record wait_sys =
  wt_heap :: list_heap
  wt_flags :: "ptr \<Rightarrow> u32"
  wt_state :: shn_task             \<comment> \<open>of the current task\<close>

definition shannon_init_waitqueue_head :: "wait_sys \<Rightarrow> ptr \<Rightarrow> wait_sys" where
  "shannon_init_waitqueue_head s q = s\<lparr>wt_heap := SHANNON_INIT_LIST_HEAD (wt_heap s) q\<rparr>"

definition shannon_waitqueue_active :: "wait_sys \<Rightarrow> ptr \<Rightarrow> bool" where
  "shannon_waitqueue_active s q \<longleftrightarrow> \<not> shannon_list_empty (wt_heap s) q"

definition shannon_add_wait_queue :: "wait_sys \<Rightarrow> ptr \<Rightarrow> ptr \<Rightarrow> wait_sys" where
  "shannon_add_wait_queue s q wait =
     s\<lparr>wt_flags := (wt_flags s)(wait := wt_flags s wait AND NOT WQ_FLAG_EXCLUSIVE),
       wt_heap := shannon_list_add (wt_heap s) wait q\<rparr>"

definition shannon_prepare_to_wait :: "wait_sys \<Rightarrow> ptr \<Rightarrow> ptr \<Rightarrow> shn_task \<Rightarrow> wait_sys" where
  "shannon_prepare_to_wait s q wait state =
    (let s1 = s\<lparr>wt_flags := (wt_flags s)(wait := wt_flags s wait AND NOT WQ_FLAG_EXCLUSIVE)\<rparr>;
         s2 = (if shannon_list_empty (wt_heap s1) wait
               then s1\<lparr>wt_heap := shannon_list_add (wt_heap s1) wait q\<rparr> else s1)
     in s2\<lparr>wt_state := state\<rparr>)"

definition shannon_finish_wait :: "wait_sys \<Rightarrow> ptr \<Rightarrow> wait_sys" where
  "shannon_finish_wait s wait =
    (let s1 = s\<lparr>wt_state := SHN_TASK_RUNNING\<rparr>
     in if \<not> shannon_list_empty_careful (wt_heap s1) wait
        then s1\<lparr>wt_heap := shannon_list_del_init (wt_heap s1) wait\<rparr> else s1)"

definition shannon_autoremove_wake_function :: "(ptr \<Rightarrow> bool) \<Rightarrow> list_heap \<Rightarrow> ptr \<Rightarrow> bool \<times> list_heap" where
  "shannon_autoremove_wake_function woke h wait =
    (let ret = woke wait in (ret, if ret then shannon_list_del_init h wait else h))"

text \<open>The loop of \<open>__shannon_wake_up_common\<close>; the result is the heap and the entries it called. \<open>nr_exclusive\<close> is an
  \<open>int\<close> that is decremented only for an exclusive entry that was woken.\<close>

fun wake_up_from :: "nat \<Rightarrow> (ptr \<Rightarrow> bool) \<Rightarrow> (ptr \<Rightarrow> u32) \<Rightarrow> list_heap \<Rightarrow> ptr \<Rightarrow> ptr \<Rightarrow> ptr \<Rightarrow> int \<Rightarrow>
    (list_heap \<times> ptr list) option" where
  "wake_up_from 0 woke flags h cur next q nr = None"
| "wake_up_from (Suc k) woke flags h cur next q nr =
    (if cur = q then Some (h, [])
     else let fl = flags cur;
              (ret, h') = shannon_autoremove_wake_function woke h cur;
              excl = ret \<and> fl AND WQ_FLAG_EXCLUSIVE \<noteq> 0;
              nr' = (if excl then nr - 1 else nr)
          in if excl \<and> nr' = 0 then Some (h', [cur])
             else map_option (\<lambda>(h'', vs). (h'', cur # vs))
                    (wake_up_from k woke flags h' next (nxt h' next) q nr'))"

definition shannon_wake_up_nr :: "nat \<Rightarrow> (ptr \<Rightarrow> bool) \<Rightarrow> wait_sys \<Rightarrow> ptr \<Rightarrow> int \<Rightarrow> (wait_sys \<times> ptr list) option" where
  "shannon_wake_up_nr k woke s q nr =
    (let cur = nxt (wt_heap s) q
     in map_option (\<lambda>(h, vs). (s\<lparr>wt_heap := h\<rparr>, vs))
          (wake_up_from k woke (wt_flags s) (wt_heap s) cur (nxt (wt_heap s) cur) q nr))"

definition shannon_wake_up :: "nat \<Rightarrow> (ptr \<Rightarrow> bool) \<Rightarrow> wait_sys \<Rightarrow> ptr \<Rightarrow> (wait_sys \<times> ptr list) option" where
  "shannon_wake_up k woke s q = shannon_wake_up_nr k woke s q 1"

section \<open>Waiting\<close>

text \<open>The \<open>for (;;)\<close> loops. Each round has the value the condition takes, whether a signal is pending, and
  what the rest of the system does to the queue until \<open>shannon_schedule\<close> returns. \<open>None\<close>: still waiting.\<close>

record wait_round =
  wr_cond :: bool
  wr_signal :: bool
  wr_env :: "wait_sys \<Rightarrow> wait_sys"

fun wait_event_loop :: "ptr \<Rightarrow> ptr \<Rightarrow> wait_round list \<Rightarrow> wait_sys \<Rightarrow> wait_sys option" where
  "wait_event_loop q wait [] s = None"
| "wait_event_loop q wait (r # rs) s =
    (let s1 = shannon_prepare_to_wait s q wait SHN_TASK_UNINTERRUPTIBLE
     in if wr_cond r then Some (shannon_finish_wait s1 wait)
        else wait_event_loop q wait rs (wr_env r s1))"

fun wait_event_interruptible_loop :: "ptr \<Rightarrow> ptr \<Rightarrow> wait_round list \<Rightarrow> wait_sys \<Rightarrow> (wait_sys \<times> int) option" where
  "wait_event_interruptible_loop q wait [] s = None"
| "wait_event_interruptible_loop q wait (r # rs) s =
    (let s1 = shannon_prepare_to_wait s q wait SHN_TASK_INTERRUPTIBLE
     in if wr_cond r then Some (shannon_finish_wait s1 wait, 0)
        else if \<not> wr_signal r then wait_event_interruptible_loop q wait rs (wr_env r s1)
        else Some (shannon_finish_wait s1 wait, - ERESTARTSYS))"

text \<open>\<open>shannon_wait_event\<close>: no queueing if the condition holds at once; the entry is on the stack.\<close>

definition shannon_wait_event :: "ptr \<Rightarrow> ptr \<Rightarrow> bool \<Rightarrow> wait_round list \<Rightarrow> wait_sys \<Rightarrow> wait_sys option" where
  "shannon_wait_event q wait cond rounds s =
    (if cond then Some s
     else wait_event_loop q wait rounds
            (s\<lparr>wt_heap := SHANNON_INIT_LIST_HEAD (wt_heap s) wait, wt_flags := (wt_flags s)(wait := 0)\<rparr>))"

definition shannon_wait_event_interruptible ::
    "ptr \<Rightarrow> ptr \<Rightarrow> bool \<Rightarrow> wait_round list \<Rightarrow> wait_sys \<Rightarrow> (wait_sys \<times> int) option" where
  "shannon_wait_event_interruptible q wait cond rounds s =
    (if cond then Some (s, 0)
     else wait_event_interruptible_loop q wait rounds
            (s\<lparr>wt_heap := SHANNON_INIT_LIST_HEAD (wt_heap s) wait, wt_flags := (wt_flags s)(wait := 0)\<rparr>))"

section \<open>What waking does to the list of waiters\<close>

text \<open>The reference: the entries called and the entries left, from the list of waiters.\<close>

fun wake_spec :: "(ptr \<Rightarrow> bool) \<Rightarrow> (ptr \<Rightarrow> bool) \<Rightarrow> int \<Rightarrow> ptr list \<Rightarrow> ptr list \<times> ptr list" where
  "wake_spec woke excl nr [] = ([], [])"
| "wake_spec woke excl nr (x # xs) =
    (if woke x \<and> excl x \<and> nr = 1 then ([x], xs)
     else let (vs, left) = wake_spec woke excl (if woke x \<and> excl x then nr - 1 else nr) xs
          in (x # vs, if woke x then left else x # left))"

definition is_excl :: "(ptr \<Rightarrow> u32) \<Rightarrow> ptr \<Rightarrow> bool" where
  "is_excl flags x \<longleftrightarrow> flags x AND WQ_FLAG_EXCLUSIVE \<noteq> 0"

lemma wake_spec_shared: "\<forall>x \<in> set xs. \<not> excl x \<Longrightarrow> wake_spec woke excl nr xs = (xs, filter (\<lambda>x. \<not> woke x) xs)"
  by (induction xs) auto

lemma nxt_of_entry: "dll h q (ys @ x # zs) \<Longrightarrow> nxt h x = hd (zs @ [q])"
  using dll_split [of h q "ys @ [x]" zs] by auto

lemma wake_up_from_spec:
  "dll h q (ys @ xs) \<Longrightarrow> length xs < k \<Longrightarrow>
   \<exists>h'. wake_up_from k woke flags h (hd (xs @ [q])) (nxt h (hd (xs @ [q]))) q nr =
       Some (h', fst (wake_spec woke (is_excl flags) nr xs)) \<and>
     dll h' q (ys @ snd (wake_spec woke (is_excl flags) nr xs)) \<and>
     (\<forall>v. dll h v [] \<and> v \<notin> set (q # ys @ xs) \<longrightarrow> dll h' v []) \<and>
     (\<forall>v \<in> set xs - set (snd (wake_spec woke (is_excl flags) nr xs)). dll h' v [])"
proof (induction k arbitrary: h ys xs nr)
  case (Suc k)
  show ?case
  proof (cases xs)
    case Nil
    with Suc.prems show ?thesis by simp
  next
    case (Cons x zs)
    then have d: "dll h q (ys @ x # zs)" using Suc.prems by simp
    have xq: "x \<noteq> q" using lh.repr_distinct [OF d] by auto
    define h' where "h' = (if woke x then shannon_list_del_init h x else h)"
    define ys' where "ys' = (if woke x then ys else ys @ [x])"
    define nr' where "nr' = (if woke x \<and> is_excl flags x then nr - 1 else nr)"
    have d': "dll h' q (ys' @ zs)" using d lh.repr_unlink [OF d] by (simp add: h'_def ys'_def)
    have n: "nxt h x = hd (zs @ [q])" by (rule nxt_of_entry [OF d])
    obtain h'' where IH: "wake_up_from k woke flags h' (hd (zs @ [q])) (nxt h' (hd (zs @ [q]))) q nr' =
         Some (h'', fst (wake_spec woke (is_excl flags) nr' zs))"
        "dll h'' q (ys' @ snd (wake_spec woke (is_excl flags) nr' zs))"
        "\<forall>v. dll h' v [] \<and> v \<notin> set (q # ys' @ zs) \<longrightarrow> dll h'' v []"
        "\<forall>v \<in> set zs - set (snd (wake_spec woke (is_excl flags) nr' zs)). dll h'' v []"
      using Suc.IH [OF d', of nr'] Suc.prems(2) Cons by auto
    have step: "wake_up_from (Suc k) woke flags h (hd (xs @ [q])) (nxt h (hd (xs @ [q]))) q nr =
        (if woke x \<and> is_excl flags x \<and> nr = 1 then Some (h', [x])
         else map_option (\<lambda>(h'', vs). (h'', x # vs)) (wake_up_from k woke flags h' (nxt h x) (nxt h' (nxt h x)) q nr'))"
      using xq Cons by (auto simp: shannon_autoremove_wake_function_def is_excl_def h'_def nr'_def Let_def)
    have other: "dll h' v []" if "dll h v []" "v \<notin> set (q # ys @ xs)" for v
      using lh.repr_unlink_other [OF d that(1)] that Cons by (auto simp: h'_def)
    have gone: "woke x \<Longrightarrow> dll h' x [] \<and> x \<notin> set (q # ys' @ zs)"
      using lh.repr_unlinked [OF d] lh.repr_distinct [OF d] by (auto simp: h'_def ys'_def)
    have outside: "v \<notin> set (q # ys @ xs) \<Longrightarrow> v \<notin> set (q # ys' @ zs)" for v
      using Cons by (auto simp: ys'_def split: if_splits)
    have all: "\<forall>v. dll h v [] \<and> v \<notin> set (q # ys @ xs) \<longrightarrow> dll h'' v []"
      using IH(3) other outside by blast
    show ?thesis
    proof (cases "woke x \<and> is_excl flags x \<and> nr = 1")
      case True
      then show ?thesis unfolding step using d' other gone Cons by (auto simp: ys'_def)
    next
      case False
      have "\<forall>v \<in> set xs - set (snd (wake_spec woke (is_excl flags) nr xs)). dll h'' v []"
        using False IH(3,4) gone Cons by (auto simp: nr'_def Let_def case_prod_beta split: if_splits)
      with False IH(1,2) all show ?thesis
        unfolding step n using Cons
        by (auto simp: nr'_def ys'_def Let_def case_prod_beta split: if_splits)
    qed
  qed
qed simp

section \<open>A waiter and its queue\<close>

text \<open>The entry is queued exactly once or not at all, and then its own list head is empty.\<close>

definition waiting :: "ptr \<Rightarrow> ptr \<Rightarrow> wait_sys \<Rightarrow> bool" where
  "waiting q wait s \<longleftrightarrow> wait \<noteq> q \<and> (\<exists>xs. dll (wt_heap s) q xs \<and> (wait \<in> set xs \<or> dll (wt_heap s) wait []))"

lemma entry_not_empty: "dll h q xs \<Longrightarrow> x \<in> set xs \<Longrightarrow> \<not> shannon_list_empty h x \<and> \<not> shannon_list_empty_careful h x"
proof -
  assume d: "dll h q xs" and "x \<in> set xs"
  then obtain ys zs where xs: "xs = ys @ x # zs" by (meson split_list)
  have "nxt h x = hd (zs @ [q])" using nxt_of_entry d xs by blast
  moreover have "hd (zs @ [q]) \<noteq> x" using lh.repr_distinct [OF d] xs by (cases zs) auto
  ultimately show ?thesis by (simp add: shannon_list_empty_def shannon_list_empty_careful_def Let_def)
qed

lemma prepare_waiting:
  "waiting q wait s \<Longrightarrow>
   \<exists>xs. dll (wt_heap (shannon_prepare_to_wait s q wait st)) q xs \<and> wait \<in> set xs \<and> wait \<noteq> q \<and>
     \<not> is_excl (wt_flags (shannon_prepare_to_wait s q wait st)) wait"
proof -
  assume w: "waiting q wait s"
  then obtain xs where d: "dll (wt_heap s) q xs" "wait \<noteq> q" "wait \<in> set xs \<or> dll (wt_heap s) wait []"
    by (auto simp: waiting_def)
  have f: "\<not> is_excl (wt_flags (shannon_prepare_to_wait s q wait st)) wait"
    by (simp add: is_excl_def shannon_prepare_to_wait_def Let_def WQ_FLAG_EXCLUSIVE_def and.assoc)
  show ?thesis
  proof (cases "wait \<in> set xs")
    case True
    then show ?thesis
      using d f entry_not_empty [OF d(1) True] by (auto simp: shannon_prepare_to_wait_def Let_def)
  next
    case False
    then have "dll (wt_heap s) wait []" using d by simp
    moreover have "dll (shannon_list_add (wt_heap s) wait q) q (wait # xs)"
      using lh.repr_push [OF d(1)] False d(2) by simp
    ultimately show ?thesis
      using d f dll_empty [of "wt_heap s" wait "[]"]
      by (auto simp: shannon_prepare_to_wait_def Let_def intro!: exI [of _ "wait # xs"])
  qed
qed

lemma finish_wait_removes:
  assumes "dll (wt_heap s) q xs" "wait \<in> set xs" "wait \<noteq> q"
  shows "let s' = shannon_finish_wait s wait in
    wt_state s' = SHN_TASK_RUNNING \<and> dll (wt_heap s') wait [] \<and>
    (\<exists>ys. dll (wt_heap s') q ys \<and> wait \<notin> set ys \<and> set ys = set xs - {wait})"
proof -
  obtain ys zs where xs: "xs = ys @ wait # zs" using assms(2) by (meson split_list)
  have d: "dll (wt_heap s) q (ys @ wait # zs)" using assms(1) xs by simp
  have "wait \<notin> set (ys @ zs)" using lh.repr_distinct [OF d] by auto
  then show ?thesis
    using lh.repr_unlink [OF d] lh.repr_unlinked [OF d] entry_not_empty [OF assms(1,2)] xs
    by (auto simp: shannon_finish_wait_def Let_def intro!: exI [of _ "ys @ zs"])
qed

lemma queued_waiting: "dll (wt_heap s) q xs \<Longrightarrow> wait \<in> set xs \<Longrightarrow> wait \<noteq> q \<Longrightarrow> waiting q wait s"
  by (auto simp: waiting_def)

text \<open>Left the queue: running, unlinked, and no longer among the waiters.\<close>

definition left_queue :: "ptr \<Rightarrow> ptr \<Rightarrow> wait_sys \<Rightarrow> bool" where
  "left_queue q wait s \<longleftrightarrow> wt_state s = SHN_TASK_RUNNING \<and> dll (wt_heap s) wait [] \<and>
     (\<exists>ys. dll (wt_heap s) q ys \<and> wait \<notin> set ys)"

lemma finish_left:
  "waiting q wait s \<Longrightarrow> left_queue q wait (shannon_finish_wait (shannon_prepare_to_wait s q wait st) wait)"
  using prepare_waiting [of q wait s st] finish_wait_removes by (fastforce simp: left_queue_def Let_def)

lemma interruptible_loop:
  assumes "\<forall>r \<in> set rs. \<forall>s. waiting q wait s \<longrightarrow> waiting q wait (wr_env r s)" "waiting q wait s"
  shows "case dropWhile (\<lambda>r. \<not> wr_cond r \<and> \<not> wr_signal r) rs of
      [] \<Rightarrow> wait_event_interruptible_loop q wait rs s = None
    | r # _ \<Rightarrow> \<exists>s'. wait_event_interruptible_loop q wait rs s = Some (s', if wr_cond r then 0 else - ERESTARTSYS) \<and>
        left_queue q wait s'"
  using assms
proof (induction rs arbitrary: s)
  case (Cons r rs)
  have "waiting q wait (shannon_prepare_to_wait s q wait SHN_TASK_INTERRUPTIBLE)"
    using prepare_waiting [OF Cons.prems(2)] queued_waiting by blast
  then have "waiting q wait (wr_env r (shannon_prepare_to_wait s q wait SHN_TASK_INTERRUPTIBLE))"
    using Cons.prems(1) by simp
  note IH = Cons.IH [OF _ this]
  show ?case
  proof (cases "wr_cond r \<or> wr_signal r")
    case True
    then show ?thesis using finish_left [OF Cons.prems(2)] by (auto simp: Let_def)
  next
    case False
    then have "wait_event_interruptible_loop q wait (r # rs) s = wait_event_interruptible_loop q wait rs
        (wr_env r (shannon_prepare_to_wait s q wait SHN_TASK_INTERRUPTIBLE))"
      and "dropWhile (\<lambda>r. \<not> wr_cond r \<and> \<not> wr_signal r) (r # rs) = dropWhile (\<lambda>r. \<not> wr_cond r \<and> \<not> wr_signal r) rs"
      by (simp_all add: Let_def)
    then show ?thesis using IH Cons.prems(1) by (simp only:) simp
  qed
qed simp

lemma uninterruptible_loop:
  assumes "\<forall>r \<in> set rs. \<forall>s. waiting q wait s \<longrightarrow> waiting q wait (wr_env r s)" "waiting q wait s"
  shows "if \<exists>r \<in> set rs. wr_cond r then \<exists>s'. wait_event_loop q wait rs s = Some s' \<and> left_queue q wait s'
    else wait_event_loop q wait rs s = None"
  using assms
proof (induction rs arbitrary: s)
  case (Cons r rs)
  have "waiting q wait (shannon_prepare_to_wait s q wait SHN_TASK_UNINTERRUPTIBLE)"
    using prepare_waiting [OF Cons.prems(2)] queued_waiting by blast
  then have "waiting q wait (wr_env r (shannon_prepare_to_wait s q wait SHN_TASK_UNINTERRUPTIBLE))"
    using Cons.prems(1) by simp
  note IH = Cons.IH [OF _ this]
  show ?case
    using finish_left [OF Cons.prems(2)] IH Cons.prems(1) by (cases "wr_cond r") (auto simp: Let_def)
qed simp

lemma fresh_waiter:
  assumes "dll (wt_heap s) q xs" "wait \<notin> set (q # xs)"
  shows "waiting q wait (s\<lparr>wt_heap := SHANNON_INIT_LIST_HEAD (wt_heap s) wait, wt_flags := f\<rparr>)"
proof -
  have "dll (SHANNON_INIT_LIST_HEAD (wt_heap s) wait) q xs"
    by (rule dll_frame [OF assms(1)]) (use assms(2) in \<open>auto simp: SHANNON_INIT_LIST_HEAD_def Let_def\<close>)
  then show ?thesis using assms(2) dll_init [of "wt_heap s" wait] by (auto simp: waiting_def)
qed

text \<open>Waking is one of the things the rest of the system may do.\<close>

lemma wake_up_keeps_waiting:
  assumes "waiting q wait s" "dll (wt_heap s) q xs" "length xs < k"
  shows "\<exists>s' vs. shannon_wake_up_nr k woke s q nr = Some (s', vs) \<and> waiting q wait s'"
proof -
  obtain ys where ys: "dll (wt_heap s) q ys" "wait \<noteq> q" "wait \<in> set ys \<or> dll (wt_heap s) wait []"
    using assms(1) by (auto simp: waiting_def)
  then have "ys = xs" using for_each_dll [OF ys(1), of "Suc (length xs + length ys)"]
      for_each_dll [OF assms(2), of "Suc (length xs + length ys)"] by simp
  obtain h' where h': "wake_up_from k woke (wt_flags s) (wt_heap s) (hd (xs @ [q])) (nxt (wt_heap s) (hd (xs @ [q]))) q nr =
       Some (h', fst (wake_spec woke (is_excl (wt_flags s)) nr xs))"
      "dll h' q (snd (wake_spec woke (is_excl (wt_flags s)) nr xs))"
      "\<forall>v. dll (wt_heap s) v [] \<and> v \<notin> set (q # xs) \<longrightarrow> dll h' v []"
      "\<forall>v \<in> set xs - set (snd (wake_spec woke (is_excl (wt_flags s)) nr xs)). dll h' v []"
    using wake_up_from_spec [of "wt_heap s" q "[]" xs k woke "wt_flags s" nr] assms(2,3) by auto
  have "nxt (wt_heap s) q = hd (xs @ [q])" using dll_split [of "wt_heap s" q "[]" xs] assms(2) by simp
  then have "shannon_wake_up_nr k woke s q nr = Some (s\<lparr>wt_heap := h'\<rparr>, fst (wake_spec woke (is_excl (wt_flags s)) nr xs))"
    using h'(1) by (simp add: shannon_wake_up_nr_def Let_def)
  moreover have "wait \<in> set (snd (wake_spec woke (is_excl (wt_flags s)) nr xs)) \<or> dll h' wait []"
    using ys(2,3) \<open>ys = xs\<close> h'(3,4) by auto
  ultimately show ?thesis using h'(2) ys(2) by (auto simp: waiting_def)
qed

section \<open>Properties\<close>

text \<open>C29 (equivalence). Waking a queue calls the waiters in order and does exactly what the reference on the list of
  waiters does, although every woken entry unlinks itself from the ring during the walk: the walk ends, woken
  entries leave the ring and stand alone, and without exclusive waiters everybody is called
  and exactly those not woken remain.\<close>

theorem wake_up_equiv:
  assumes "dll (wt_heap s) q xs" "length xs < k"
  shows "\<exists>h'. shannon_wake_up_nr k woke s q nr =
      Some (s\<lparr>wt_heap := h'\<rparr>, fst (wake_spec woke (is_excl (wt_flags s)) nr xs)) \<and>
    dll h' q (snd (wake_spec woke (is_excl (wt_flags s)) nr xs)) \<and>
    (\<forall>v \<in> set xs - set (snd (wake_spec woke (is_excl (wt_flags s)) nr xs)). dll h' v []) \<and>
    ((\<forall>x \<in> set xs. \<not> is_excl (wt_flags s) x) \<longrightarrow>
       wake_spec woke (is_excl (wt_flags s)) nr xs = (xs, filter (\<lambda>x. \<not> woke x) xs))"
proof -
  have "nxt (wt_heap s) q = hd (xs @ [q])" using dll_split [of "wt_heap s" q "[]" xs] assms(1) by simp
  then show ?thesis
    using wake_up_from_spec [of "wt_heap s" q "[]" xs k woke "wt_flags s" nr] assms
      wake_spec_shared [of xs "is_excl (wt_flags s)" woke nr]
    by (auto simp: shannon_wake_up_nr_def Let_def)
qed

definition sample_wait :: wait_sys where
  "sample_wait = \<lparr>wt_heap = sample_heap, wt_flags = (\<lambda>_. 0), wt_state = SHN_TASK_RUNNING\<rparr>"

theorem wake_up_equiv_witness:
  "\<exists>h'. shannon_wake_up_nr 3 (\<lambda>x. x = 10) sample_wait 1 1 = Some (sample_wait\<lparr>wt_heap := h'\<rparr>, [10, 11]) \<and> dll h' 1 [11]"
proof -
  have "dll (wt_heap sample_wait) 1 [10, 11]" using sample_heap_rings by (simp add: sample_wait_def)
  from wake_up_equiv [OF this, of 3 "\<lambda>x. x = 10" 1] show ?thesis
    by (auto simp: sample_wait_def is_excl_def)
qed

text \<open>C30 (termination). \<open>shannon_wait_event_interruptible\<close> returns exactly when the condition held or a signal was
  pending in some round, with 0 or \<open>-ERESTARTSYS\<close> for the first such round, and it always returns running and
  with its entry, which lives on the stack, off the queue and unlinked, whatever wakers did to the queue
  in between; \<open>shannon_wait_event\<close> does the same with the condition alone.\<close>

theorem wait_event_returns_clean:
  assumes "dll (wt_heap s) q xs" "wait \<notin> set (q # xs)"
    and "\<forall>r \<in> set rounds. \<forall>s. waiting q wait s \<longrightarrow> waiting q wait (wr_env r s)"
  shows "(case dropWhile (\<lambda>r. \<not> wr_cond r \<and> \<not> wr_signal r) rounds of
      [] \<Rightarrow> shannon_wait_event_interruptible q wait False rounds s = None
    | r # _ \<Rightarrow> \<exists>s'. shannon_wait_event_interruptible q wait False rounds s =
         Some (s', if wr_cond r then 0 else - ERESTARTSYS) \<and> left_queue q wait s') \<and>
    (if \<exists>r \<in> set rounds. wr_cond r
     then \<exists>s'. shannon_wait_event q wait False rounds s = Some s' \<and> left_queue q wait s'
     else shannon_wait_event q wait False rounds s = None)"
  using interruptible_loop [OF assms(3) fresh_waiter [OF assms(1,2), of "(wt_flags s)(wait := 0)"]]
    uninterruptible_loop [OF assms(3) fresh_waiter [OF assms(1,2), of "(wt_flags s)(wait := 0)"]]
  by (simp only: shannon_wait_event_interruptible_def shannon_wait_event_def if_False simp_thms)

definition sample_rounds :: "wait_round list" where
  "sample_rounds = [\<lparr>wr_cond = False, wr_signal = False, wr_env = id\<rparr>, \<lparr>wr_cond = False, wr_signal = True, wr_env = id\<rparr>]"

theorem wait_event_returns_clean_witness:
  "\<exists>s'. shannon_wait_event_interruptible 1 20 False sample_rounds sample_wait = Some (s', - ERESTARTSYS) \<and>
     left_queue 1 20 s'"
proof -
  have "dll (wt_heap sample_wait) 1 [10, 11]" using sample_heap_rings by (simp add: sample_wait_def)
  moreover have "\<forall>r \<in> set sample_rounds. \<forall>s. waiting 1 20 s \<longrightarrow> waiting 1 20 (wr_env r s)"
    by (simp add: sample_rounds_def)
  ultimately show ?thesis
    using wait_event_returns_clean [of sample_wait 1 "[10, 11]" 20 sample_rounds] by (simp add: sample_rounds_def)
qed

end
