(* ===== verification/Kcore.thy ===== *)
theory Kcore
  imports Prelude
begin

text \<open>
  The primitives of \<^verbatim>\<open>shannon_kcore.c\<close> that carry logic of their own or that other components build on:
  bit operations on arrays of \<open>unsigned long\<close>, the little-endian bit search, byte order,
  atomic counters, error pointers, the latency requirement and the message rate limit. The locks
  are in \<^verbatim>\<open>Locks\<close>; the allocators are single calls of the kernel, and the translation of their flags is in \<^verbatim>\<open>Gfp_Legacy\<close>.
\<close>

section \<open>Bit operations\<close>

text \<open>An array of 64-bit longs; \<open>None\<close> is an access outside of it.\<close>

type_synonym bitmap = "u64 list"

definition shannon_test_bit :: "nat \<Rightarrow> bitmap \<Rightarrow> bool option" where
  "shannon_test_bit nr addr = (if nr div 64 < length addr then Some (bit (addr ! (nr div 64)) (nr mod 64)) else None)"

definition shannon_set_bit :: "nat \<Rightarrow> bitmap \<Rightarrow> bitmap option" where
  "shannon_set_bit nr addr =
    (if nr div 64 < length addr
     then Some (addr[nr div 64 := addr ! (nr div 64) OR push_bit (nr mod 64) 1]) else None)"

definition shannon_clear_bit :: "nat \<Rightarrow> bitmap \<Rightarrow> bitmap option" where
  "shannon_clear_bit nr addr =
    (if nr div 64 < length addr
     then Some (addr[nr div 64 := addr ! (nr div 64) AND NOT (push_bit (nr mod 64) 1)]) else None)"

definition shannon_test_and_set_bit :: "nat \<Rightarrow> bitmap \<Rightarrow> (bool \<times> bitmap) option" where
  "shannon_test_and_set_bit nr addr =
    (case shannon_test_bit nr addr of None \<Rightarrow> None
     | Some old \<Rightarrow> map_option (Pair old) (shannon_set_bit nr addr))"

definition shannon_test_and_clear_bit :: "nat \<Rightarrow> bitmap \<Rightarrow> (bool \<times> bitmap) option" where
  "shannon_test_and_clear_bit nr addr =
    (case shannon_test_bit nr addr of None \<Rightarrow> None
     | Some old \<Rightarrow> map_option (Pair old) (shannon_clear_bit nr addr))"

text \<open>\<open>BITOP_LE_MAGIC\<close> is 0 on a little-endian machine and 56 on a big-endian one.\<close>

definition BITOP_LE_MAGIC :: "bool \<Rightarrow> nat" where
  "BITOP_LE_MAGIC little_endian = (if little_endian then 0 else (64 - 1) - 7)"

definition shannon_set_bit_le :: "bool \<Rightarrow> nat \<Rightarrow> bitmap \<Rightarrow> bitmap option" where
  "shannon_set_bit_le le nr addr = shannon_set_bit (nr XOR BITOP_LE_MAGIC le) addr"

definition shannon_test_bit_le :: "bool \<Rightarrow> nat \<Rightarrow> bitmap \<Rightarrow> bool option" where
  "shannon_test_bit_le le nr addr = shannon_test_bit (nr XOR BITOP_LE_MAGIC le) addr"

definition shannon_test_and_clear_bit_le :: "bool \<Rightarrow> nat \<Rightarrow> bitmap \<Rightarrow> (bool \<times> bitmap) option" where
  "shannon_test_and_clear_bit_le le nr addr = shannon_test_and_clear_bit (nr XOR BITOP_LE_MAGIC le) addr"

text \<open>The interface the users of bit arrays rely on.\<close>

locale bit_array =
  fixes test :: "'i \<Rightarrow> 'm \<Rightarrow> bool option"
    and mark :: "'i \<Rightarrow> 'm \<Rightarrow> 'm option"
    and valid :: "'i \<Rightarrow> 'm \<Rightarrow> bool"
  assumes test_valid: "valid i m \<Longrightarrow> test i m \<noteq> None"
    and mark_valid: "valid i m \<Longrightarrow> mark i m \<noteq> None"
    and valid_mark: "mark i m = Some m' \<Longrightarrow> valid j m' = valid j m"
    and test_mark: "mark i m = Some m' \<Longrightarrow> test i m' = Some True"
    and test_mark_other: "mark i m = Some m' \<Longrightarrow> i \<noteq> j \<Longrightarrow> test j m' = test j m"
begin

text \<open>After any sequence of marks exactly the marked indices, and those marked before, test true.\<close>

lemma mark_all:
  assumes "\<forall>i \<in> set is. valid i m"
  shows "\<exists>m'. fold_opt mark is m = Some m' \<and> (\<forall>j. valid j m' = valid j m) \<and>
    (\<forall>j. valid j m \<longrightarrow> test j m' = Some (j \<in> set is \<or> test j m = Some True))"
  using assms
proof (induction "is" arbitrary: m)
  case Nil
  have "test j m = Some (test j m = Some True)" if "valid j m" for j
    using test_valid [OF that] by (cases "test j m") auto
  then show ?case by simp
next
  case (Cons i "is")
  obtain m1 where m1: "mark i m = Some m1" using mark_valid [of i m] Cons.prems by auto
  have "\<forall>j \<in> set is. valid j m1" using valid_mark [OF m1] Cons.prems by auto
  then obtain m' where "fold_opt mark is m1 = Some m'" "\<forall>j. valid j m' = valid j m1"
      "\<forall>j. valid j m1 \<longrightarrow> test j m' = Some (j \<in> set is \<or> test j m1 = Some True)"
    using Cons.IH by blast
  moreover have "test j m1 = Some True \<longleftrightarrow> j = i \<or> test j m = Some True" for j
    using test_mark [OF m1] test_mark_other [OF m1, of j] by (cases "i = j") auto
  ultimately show ?case
    using m1 valid_mark [OF m1] by (intro exI [of _ m']) auto
qed

end

lemma set_bit_div: "i div 64 = j div 64 \<Longrightarrow> i mod 64 = j mod 64 \<Longrightarrow> i = (j :: nat)"
  by (metis div_mult_mod_eq)

interpretation kb: bit_array shannon_test_bit shannon_set_bit "\<lambda>i m. i div 64 < length m"
proof (unfold_locales, goal_cases)
  case (4 i m m')
  then show ?case
    by (auto simp: shannon_set_bit_def shannon_test_bit_def bit_simps split: if_splits)
next
  case (5 i m m' j)
  show ?case
  proof (cases "i div 64 = j div 64")
    case True
    then have "i mod 64 \<noteq> j mod 64" using set_bit_div 5(2) by blast
    then show ?thesis
      using 5(1) True by (auto simp: shannon_set_bit_def shannon_test_bit_def bit_simps split: if_splits)
  qed (use 5(1) in \<open>auto simp: shannon_set_bit_def shannon_test_bit_def split: if_splits\<close>)
qed (auto simp: shannon_set_bit_def shannon_test_bit_def split: if_splits)

section \<open>Byte order\<close>

text \<open>The bytes of a word, least significant first, and back.\<close>

definition le_bytes :: "'a::len word \<Rightarrow> u8 list" where
  "le_bytes w = map (\<lambda>i. ucast (drop_bit (8 * i) w)) [0 ..< LENGTH('a) div 8]"

fun of_le_bytes :: "u8 list \<Rightarrow> 'a::len word" where
  "of_le_bytes [] = 0"
| "of_le_bytes (b # bs) = ucast b OR push_bit 8 (of_le_bytes bs)"

lemma bit_of_le_bytes:
  "bit (of_le_bytes bs :: 'a::len word) n \<longleftrightarrow> n < LENGTH('a) \<and> n div 8 < length bs \<and> bit (bs ! (n div 8)) (n mod 8)"
proof (induction bs arbitrary: n)
  case (Cons b bs)
  show ?case
  proof (cases "n < 8")
    case True
    then show ?thesis by (auto simp: bit_simps dest: bit_imp_le_length)
  next
    case False
    then obtain k where k: "n = 8 + k" using le_Suc_ex by (metis not_le)
    have "\<not> bit (ucast b :: 'a word) n" using False bit_imp_le_length [of b n] by (auto simp: bit_simps)
    moreover have "n div 8 = Suc (k div 8)" "n mod 8 = k mod 8" using k by simp_all
    ultimately show ?thesis using Cons [of k] k by (auto simp: bit_simps)
  qed
qed simp

lemma le_bytes_nth: "i < LENGTH('a) div 8 \<Longrightarrow> le_bytes (w :: 'a::len word) ! i = ucast (drop_bit (8 * i) w)"
  by (simp add: le_bytes_def)

lemma of_le_bytes_le_bytes:
  assumes "8 dvd LENGTH('a)"
  shows "of_le_bytes (le_bytes w) = (w :: 'a::len word)"
proof (rule bit_word_eqI)
  fix n assume n: "n < LENGTH('a)"
  then have "n div 8 < LENGTH('a) div 8" using assms by (metis div_less_iff_less_mult dvd_div_mult_self zero_less_numeral)
  then show "bit (of_le_bytes (le_bytes w) :: 'a word) n = bit w n"
    using n by (simp add: bit_of_le_bytes le_bytes_nth bit_simps) (simp add: le_bytes_def)
qed

text \<open>Memory cells hold a little-endian value whatever the machine is.\<close>

definition shannon_mem_writew :: "u16 \<Rightarrow> u8 list" where "shannon_mem_writew v = le_bytes v"
definition shannon_mem_writel :: "u32 \<Rightarrow> u8 list" where "shannon_mem_writel v = le_bytes v"
definition shannon_mem_writeq :: "u64 \<Rightarrow> u8 list" where "shannon_mem_writeq v = le_bytes v"
definition shannon_mem_readw :: "u8 list \<Rightarrow> u16" where "shannon_mem_readw cell = of_le_bytes cell"
definition shannon_mem_readl :: "u8 list \<Rightarrow> u32" where "shannon_mem_readl cell = of_le_bytes cell"
definition shannon_mem_readq :: "u8 list \<Rightarrow> u64" where "shannon_mem_readq cell = of_le_bytes cell"

lemma mem_roundtrip:
  "shannon_mem_readw (shannon_mem_writew a) = a" "shannon_mem_readl (shannon_mem_writel b) = b"
  "shannon_mem_readq (shannon_mem_writeq c) = c"
  unfolding shannon_mem_writew_def shannon_mem_writel_def shannon_mem_writeq_def
    shannon_mem_readw_def shannon_mem_readl_def shannon_mem_readq_def
  by (rule of_le_bytes_le_bytes, simp)+

text \<open>Byte reversal: \<open>__swab64\<close>, and \<open>__cpu_to_be32\<close> and \<open>__cpu_to_be64\<close> on the little-endian host.\<close>

definition shannon_cpu_to_be32 :: "u32 \<Rightarrow> u32" where "shannon_cpu_to_be32 val = of_le_bytes (rev (le_bytes val))"
definition shannon_cpu_to_be64 :: "u64 \<Rightarrow> u64" where "shannon_cpu_to_be64 val = of_le_bytes (rev (le_bytes val))"
definition ext2_swab :: "u64 \<Rightarrow> u64" where "ext2_swab y = of_le_bytes (rev (le_bytes y))"

lemma bit_ext2_swab: "n < 64 \<Longrightarrow> bit (ext2_swab y) n = bit y (8 * (7 - n div 8) + n mod 8)"
proof -
  assume n: "n < 64"
  then have d: "n div 8 < 8" by simp
  have len: "length (le_bytes y) = 8" by (simp add: le_bytes_def)
  then have "rev (le_bytes y) ! (n div 8) = le_bytes y ! (7 - n div 8)" using d by (simp add: rev_nth)
  also have "\<dots> = ucast (drop_bit (8 * (7 - n div 8)) y)" using d by (subst le_bytes_nth) auto
  finally have r: "rev (le_bytes y) ! (n div 8) = ucast (drop_bit (8 * (7 - n div 8)) y)" .
  show ?thesis
    using n d len by (simp add: ext2_swab_def bit_of_le_bytes r bit_simps)
qed

lemma swab_swab: "ext2_swab (ext2_swab y) = y"
proof (rule bit_word_eqI)
  fix n assume n: "n < LENGTH(64)"
  define m where "m = 8 * (7 - n div 8) + n mod 8"
  have d: "n div 8 < 8" using n by simp
  have m: "m < 64" "m div 8 = 7 - n div 8" "m mod 8 = n mod 8" using d by (simp_all add: m_def)
  have "8 * (7 - m div 8) + m mod 8 = n" using d m by simp
  then show "bit (ext2_swab (ext2_swab y)) n = bit y n"
    using bit_ext2_swab [of n "ext2_swab y"] bit_ext2_swab [OF m(1), of y] n by (simp add: m_def)
qed

lemma ext2_swab_0: "ext2_swab y = 0 \<longleftrightarrow> y = 0"
proof -
  have "ext2_swab 0 = 0" by (rule bit_word_eqI) (simp add: bit_ext2_swab)
  then show ?thesis using swab_swab by metis
qed

section \<open>Searching a little-endian bit array on a big-endian machine\<close>

text \<open>\<open>__ffs\<close>: the number of the lowest bit set.\<close>

definition ffs_word :: "u64 \<Rightarrow> nat" where
  "ffs_word w = length (takeWhile (\<lambda>n. \<not> bit w n) [0 ..< 64])"

definition BITS_PER_LONG :: nat where [simp]: "BITS_PER_LONG = 64"

text \<open>The labels \<open>found_first\<close> and \<open>found_middle\<close>.\<close>

definition fnb_found_middle :: "u64 \<Rightarrow> nat \<Rightarrow> nat option" where
  "fnb_found_middle tmp result = Some (result + ffs_word tmp)"

definition fnb_found_first :: "u64 \<Rightarrow> nat \<Rightarrow> nat \<Rightarrow> nat option" where
  "fnb_found_first tmp sz result =
    (let tmp = tmp AND drop_bit (BITS_PER_LONG - sz) (- 1)
     in if tmp = 0 then Some (result + sz) else fnb_found_middle tmp result)"

text \<open>The loop over whole words and what follows it; \<open>p\<close> is an index into the array.\<close>

function fnb_words :: "u64 list \<Rightarrow> nat \<Rightarrow> nat \<Rightarrow> nat \<Rightarrow> nat option" where
  "fnb_words ws p sz result =
    (if sz \<ge> BITS_PER_LONG then
       (if p \<ge> length ws then None
        else if ws ! p \<noteq> 0 then Some (result + ffs_word (ext2_swab (ws ! p)))
        else fnb_words ws (Suc p) (sz - BITS_PER_LONG) (result + BITS_PER_LONG))
     else if sz = 0 then Some result
     else if p \<ge> length ws then None
     else fnb_found_first (ext2_swab (ws ! p)) sz result)"
  by pat_completeness auto
termination by (relation "measure (\<lambda>(ws, p, sz, result). sz)") auto

declare fnb_words.simps [simp del]

definition generic_find_next_le_bit :: "u64 list \<Rightarrow> nat \<Rightarrow> nat \<Rightarrow> nat option" where
  "generic_find_next_le_bit ws sz offset =
    (let p = offset div BITS_PER_LONG;
         result = offset div BITS_PER_LONG * BITS_PER_LONG
     in if offset \<ge> sz then Some sz
        else let sz = sz - result; offset = offset mod BITS_PER_LONG
             in if offset \<noteq> 0 then
                  (if p \<ge> length ws then None
                   else let tmp = ext2_swab (ws ! p) AND push_bit offset (- 1)
                        in if sz < BITS_PER_LONG then fnb_found_first tmp sz result
                           else if tmp \<noteq> 0 then fnb_found_middle tmp result
                           else fnb_words ws (Suc p) (sz - BITS_PER_LONG) (result + BITS_PER_LONG))
                else fnb_words ws p sz result)"

definition shannon_find_first_bit_le :: "u64 list \<Rightarrow> nat \<Rightarrow> nat option" where
  "shannon_find_first_bit_le ws sz = generic_find_next_le_bit ws sz 0"

definition shannon_find_next_bit_le :: "u64 list \<Rightarrow> nat \<Rightarrow> nat \<Rightarrow> nat option" where
  "shannon_find_next_bit_le ws sz offset = generic_find_next_le_bit ws sz offset"

text \<open>Bit \<open>i\<close> of the array in little-endian numbering is bit \<open>i mod 8\<close> of byte \<open>i div 8\<close> of memory; a big-endian machine has
  byte 0 of a word in its highest eight bits. Then the reference.\<close>

definition le_bit :: "u64 list \<Rightarrow> nat \<Rightarrow> bool" where
  "le_bit ws i \<longleftrightarrow> bit (ws ! (i div 64)) (8 * (7 - i mod 64 div 8) + i mod 8)"

definition next_bit :: "(nat \<Rightarrow> bool) \<Rightarrow> nat \<Rightarrow> nat \<Rightarrow> nat" where
  "next_bit B sz offset = (if offset \<ge> sz then sz else case find B [offset ..< sz] of None \<Rightarrow> sz | Some i \<Rightarrow> i)"

lemma find_append: "find P (xs @ ys) = (case find P xs of None \<Rightarrow> find P ys | Some x \<Rightarrow> Some x)"
  by (induction xs) auto

lemma next_bit_empty: "offset \<ge> sz \<Longrightarrow> next_bit B sz offset = sz"
  by (simp add: next_bit_def)

text \<open>Skipping a stretch without set bits.\<close>

lemma next_bit_skip:
  assumes "offset \<le> mid" "mid \<le> sz" "\<forall>i. offset \<le> i \<and> i < mid \<longrightarrow> \<not> B i"
  shows "next_bit B sz offset = next_bit B sz mid"
proof -
  have "[offset ..< sz] = [offset ..< mid] @ [mid ..< sz]"
    using upt_add_eq_append [of offset mid "sz - mid"] assms by simp
  moreover have "find B [offset ..< mid] = None" using assms(3) by (auto simp: find_None_iff)
  ultimately have "find B [offset ..< sz] = find B [mid ..< sz]"
    by (simp add: find_append)
  then show ?thesis using assms by (auto simp: next_bit_def)
qed

lemma next_bit_hit:
  assumes "offset \<le> i" "i < sz" "B i" "\<forall>j. offset \<le> j \<and> j < i \<longrightarrow> \<not> B j"
  shows "next_bit B sz offset = i"
proof -
  have "next_bit B sz offset = next_bit B sz i" by (rule next_bit_skip) (use assms in auto)
  also have "\<dots> = i" using assms by (simp add: next_bit_def upt_conv_Cons)
  finally show ?thesis .
qed

lemma ffs_word_spec:
  assumes "w \<noteq> 0"
  shows "ffs_word w < 64 \<and> bit w (ffs_word w) \<and> (\<forall>n < ffs_word w. \<not> bit w n)"
proof -
  obtain n where "bit w n" using assms bit_eqI [of w 0] by auto
  then have "n < 64" using bit_imp_le_length by fastforce
  let ?P = "\<lambda>n. \<not> bit w n" let ?k = "length (takeWhile ?P [0 ..< 64])"
  have lt: "?k < 64"
  proof (rule ccontr)
    assume "\<not> ?k < 64"
    then have "length (takeWhile ?P [0 ..< 64]) = length [0 ..< (64 :: nat)]"
      using length_takeWhile_le [of ?P "[0 ..< 64]"] by simp
    then have "\<forall>x \<in> set [0 ..< 64]. ?P x" by (metis takeWhile_eq_all_conv takeWhile_eq_take take_all le_refl)
    then show False using \<open>bit w n\<close> \<open>n < 64\<close> by auto
  qed
  moreover have "bit w ?k" using nth_length_takeWhile [of ?P "[0 ..< 64]"] lt by simp
  moreover have "\<not> bit w m" if "m < ?k" for m
  proof -
    have "[0 ..< 64] ! m = takeWhile ?P [0 ..< 64] ! m" using takeWhile_nth [OF that] by simp
    moreover have "takeWhile ?P [0 ..< 64] ! m \<in> set (takeWhile ?P [0 ..< 64])" using that by simp
    ultimately show ?thesis using set_takeWhileD that lt by fastforce
  qed
  ultimately show ?thesis by (simp add: ffs_word_def)
qed

text \<open>One word whose bits are those of the array between \<open>lo\<close> and \<open>hi\<close>.\<close>

lemma word_hit:
  assumes "w \<noteq> 0" "\<forall>n < 64. bit w n \<longleftrightarrow> lo \<le> n \<and> n < hi \<and> B (r + n)" "r + hi \<le> sz"
  shows "next_bit B sz (r + lo) = r + ffs_word w"
proof -
  note f = ffs_word_spec [OF assms(1)]
  show ?thesis
  proof (rule next_bit_hit)
    show "\<forall>j. r + lo \<le> j \<and> j < r + ffs_word w \<longrightarrow> \<not> B j"
    proof (intro allI impI)
      fix j assume j: "r + lo \<le> j \<and> j < r + ffs_word w"
      then obtain n where n: "j = r + n" "lo \<le> n" "n < ffs_word w" by (metis add_less_cancel_left le_Suc_ex le_add1 add_le_cancel_left le_trans)
      moreover have "\<not> bit w n" "n < hi" "n < 64" using f n assms(2) by (auto intro: less_trans)
      ultimately show "\<not> B j" using assms(2) by auto
    qed
  qed (use f assms in auto)
qed

lemma word_miss:
  assumes "w = 0" "\<forall>n < 64. bit w n \<longleftrightarrow> lo \<le> n \<and> n < hi \<and> B (r + n)" "r + hi \<le> sz" "lo \<le> hi" "hi \<le> 64"
  shows "next_bit B sz (r + lo) = next_bit B sz (r + hi)"
proof (rule next_bit_skip)
  show "\<forall>i. r + lo \<le> i \<and> i < r + hi \<longrightarrow> \<not> B i"
  proof (intro allI impI)
    fix i assume "r + lo \<le> i \<and> i < r + hi"
    then obtain n where "i = r + n" "lo \<le> n" "n < hi" by (metis add_less_cancel_left le_Suc_ex le_add1 add_le_cancel_left le_trans)
    then show "\<not> B i" using assms by auto
  qed
qed (use assms in auto)

lemma le_bit_word: "n < 64 \<Longrightarrow> le_bit ws (64 * p + n) = bit (ext2_swab (ws ! p)) n"
proof -
  assume n: "n < 64"
  have "(64 * p + n) mod 8 = n mod 8" using mod_mult_self2 [of n 8 "8 * p"] by (simp add: add.commute)
  then show ?thesis using n by (simp add: le_bit_def bit_ext2_swab)
qed

lemma fnb_found_first_ok:
  assumes "\<forall>n < 64. bit tmp n \<longleftrightarrow> lo \<le> n \<and> B (r + n)" "k < 64" "lo \<le> k" "sz = r + k"
  shows "fnb_found_first tmp k r = Some (next_bit B sz (r + lo))"
proof -
  define w where "w = tmp AND drop_bit (64 - k) (- 1)"
  have "bit w n \<longleftrightarrow> lo \<le> n \<and> n < k \<and> B (r + n)" if "n < 64" for n
    using assms that by (auto simp: w_def bit_simps)
  then have w: "\<forall>n < 64. bit w n \<longleftrightarrow> lo \<le> n \<and> n < k \<and> B (r + n)" by simp
  have "fnb_found_first tmp k r = Some (if w = 0 then r + k else r + ffs_word w)"
    by (simp add: fnb_found_first_def fnb_found_middle_def w_def Let_def)
  moreover have "next_bit B sz (r + lo) = r + ffs_word w" if "w \<noteq> 0"
    using word_hit [OF that w] assms(4) by simp
  moreover have "next_bit B sz (r + lo) = r + k" if "w = 0"
    using word_miss [OF that w] assms by (simp add: next_bit_empty)
  ultimately show ?thesis by simp
qed

lemma fnb_words_ok:
  "64 * p + k \<le> 64 * length ws \<Longrightarrow>
   fnb_words ws p k (64 * p) = Some (next_bit (le_bit ws) (64 * p + k) (64 * p))"
proof (induction k arbitrary: p rule: less_induct)
  case (less k)
  have word: "\<forall>n < 64. bit (ext2_swab (ws ! p)) n \<longleftrightarrow> 0 \<le> n \<and> n < 64 \<and> le_bit ws (64 * p + n)"
    by (simp add: le_bit_word)
  consider "k \<ge> 64" | "k = 0" | "0 < k" "k < 64" by linarith
  then show ?case
  proof cases
    case 1
    then have p: "p < length ws" using less.prems by linarith
    show ?thesis
    proof (cases "ws ! p = 0")
      case True
      have IH: "fnb_words ws (Suc p) (k - 64) (64 * Suc p) = Some (next_bit (le_bit ws) (64 * Suc p + (k - 64)) (64 * Suc p))"
        using less.IH [of "k - 64" "Suc p"] 1 less.prems by simp
      have "next_bit (le_bit ws) (64 * p + k) (64 * p) = next_bit (le_bit ws) (64 * p + k) (64 * p + 64)"
        using word_miss [OF _ word, of "64 * p + k"] 1 True ext2_swab_0 by simp
      moreover have "fnb_words ws p k (64 * p) = fnb_words ws (Suc p) (k - 64) (64 * Suc p)"
        by (subst fnb_words.simps) (use 1 p True in \<open>simp add: algebra_simps\<close>)
      ultimately show ?thesis using IH 1 by (simp add: algebra_simps)
    next
      case False
      then have "next_bit (le_bit ws) (64 * p + k) (64 * p + 0) = 64 * p + ffs_word (ext2_swab (ws ! p))"
        by (intro word_hit [OF _ word]) (use 1 ext2_swab_0 in auto)
      with 1 p False show ?thesis by (subst fnb_words.simps) simp
    qed
  next
    case 2
    then show ?thesis by (subst fnb_words.simps) (simp add: next_bit_empty)
  next
    case 3
    then have p: "p < length ws" using less.prems by linarith
    have "fnb_found_first (ext2_swab (ws ! p)) k (64 * p) = Some (next_bit (le_bit ws) (64 * p + k) (64 * p + 0))"
      by (rule fnb_found_first_ok) (use 3 word in auto)
    with 3 p show ?thesis by (subst fnb_words.simps) simp
  qed
qed

text \<open>On a big-endian machine the word-wise search reads the byte-swapped words and still returns
  exactly what searching the little-endian bit numbers one by one returns: the first set bit
  from \<open>offset\<close> on that is below the size, or the size; it never reads outside the array.\<close>

lemma find_next_le_bit_ok:
  assumes "sz \<le> 64 * length ws"
  shows "generic_find_next_le_bit ws sz offset = Some (next_bit (le_bit ws) sz offset)"
proof (cases "offset \<ge> sz")
  case True
  then show ?thesis by (simp add: generic_find_next_le_bit_def next_bit_empty Let_def)
next
  case False
  define p lo k where "p = offset div 64" and "lo = offset mod 64" and "k = sz - 64 * p"
  have off: "offset = 64 * p + lo" "lo < 64" by (simp_all add: p_def lo_def)
  have sz: "sz = 64 * p + k" "lo < k" and p: "p < length ws"
    using False off assms by (simp_all add: k_def)
  show ?thesis
  proof (cases "lo = 0")
    case True
    have "generic_find_next_le_bit ws sz offset = fnb_words ws p k (64 * p)"
      using False True by (simp add: generic_find_next_le_bit_def Let_def p_def lo_def k_def mult.commute)
    then show ?thesis using fnb_words_ok [of p k ws] assms sz True off by simp
  next
    case lo: False
    define tmp where "tmp = ext2_swab (ws ! p) AND push_bit lo (- 1)"
    have t: "\<forall>n < 64. bit tmp n \<longleftrightarrow> lo \<le> n \<and> le_bit ws (64 * p + n)"
      using off(2) by (auto simp: tmp_def bit_simps le_bit_word)
    have run: "generic_find_next_le_bit ws sz offset =
        (if k < 64 then fnb_found_first tmp k (64 * p)
         else if tmp \<noteq> 0 then fnb_found_middle tmp (64 * p)
         else fnb_words ws (Suc p) (k - 64) (64 * Suc p))"
      using False lo p
      by (simp add: generic_find_next_le_bit_def Let_def tmp_def p_def lo_def k_def mult.commute add.commute)
    consider "k < 64" | "k \<ge> 64" "tmp \<noteq> 0" | "k \<ge> 64" "tmp = 0" by linarith
    then show ?thesis
    proof cases
      case 1
      then show ?thesis using run fnb_found_first_ok [OF t 1, of sz] sz off by simp
    next
      case 2
      have "next_bit (le_bit ws) sz (64 * p + lo) = 64 * p + ffs_word tmp"
        by (rule word_hit [OF 2(2), of lo 64]) (use t 2 sz in auto)
      then show ?thesis using run 2 off by (simp add: fnb_found_middle_def)
    next
      case 3
      have "next_bit (le_bit ws) sz (64 * p + lo) = next_bit (le_bit ws) sz (64 * p + 64)"
        by (rule word_miss [OF 3(2)]) (use t 3 sz off in auto)
      then show ?thesis using run 3 fnb_words_ok [of "Suc p" "k - 64" ws] assms sz off by (simp add: algebra_simps)
    qed
  qed
qed

section \<open>Atomic counters\<close>

text \<open>The new value, or the value returned; the arithmetic wraps.\<close>

definition shannon_atomic_set :: "u32 \<Rightarrow> u32 \<Rightarrow> u32" where "shannon_atomic_set v i = i"
definition shannon_atomic_read :: "u32 \<Rightarrow> int" where "shannon_atomic_read v = sint v"
definition shannon_atomic_add :: "u32 \<Rightarrow> u32 \<Rightarrow> u32" where "shannon_atomic_add i v = v + i"
definition shannon_atomic_sub :: "u32 \<Rightarrow> u32 \<Rightarrow> u32" where "shannon_atomic_sub i v = v - i"
definition shannon_atomic_inc :: "u32 \<Rightarrow> u32" where "shannon_atomic_inc v = v + 1"
definition shannon_atomic_dec :: "u32 \<Rightarrow> u32" where "shannon_atomic_dec v = v - 1"
definition shannon_atomic_add_return :: "u32 \<Rightarrow> u32 \<Rightarrow> u32 \<times> int" where
  "shannon_atomic_add_return i v = (v + i, sint (v + i))"
definition shannon_atomic_sub_return :: "u32 \<Rightarrow> u32 \<Rightarrow> u32 \<times> int" where
  "shannon_atomic_sub_return i v = (v - i, sint (v - i))"
definition shannon_atomic_inc_return :: "u32 \<Rightarrow> u32 \<times> int" where
  "shannon_atomic_inc_return v = (v + 1, sint (v + 1))"
definition shannon_atomic_dec_return :: "u32 \<Rightarrow> u32 \<times> int" where
  "shannon_atomic_dec_return v = (v - 1, sint (v - 1))"
definition shannon_atomic_dec_and_test :: "u32 \<Rightarrow> u32 \<times> bool" where
  "shannon_atomic_dec_and_test v = (v - 1, v - 1 = 0)"
definition shannon_atomic_inc_and_test :: "u32 \<Rightarrow> u32 \<times> bool" where
  "shannon_atomic_inc_and_test v = (v + 1, v + 1 = 0)"

definition shannon_atomic64_set :: "u64 \<Rightarrow> u64 \<Rightarrow> u64" where "shannon_atomic64_set v i = i"
definition shannon_atomic64_read :: "u64 \<Rightarrow> int" where "shannon_atomic64_read v = sint v"
definition shannon_atomic64_add :: "u64 \<Rightarrow> u64 \<Rightarrow> u64" where "shannon_atomic64_add i v = v + i"
definition shannon_atomic64_sub :: "u64 \<Rightarrow> u64 \<Rightarrow> u64" where "shannon_atomic64_sub i v = v - i"
definition shannon_atomic64_inc :: "u64 \<Rightarrow> u64" where "shannon_atomic64_inc v = v + 1"
definition shannon_atomic64_dec :: "u64 \<Rightarrow> u64" where "shannon_atomic64_dec v = v - 1"
definition shannon_atomic64_inc_return :: "u64 \<Rightarrow> u64 \<times> int" where
  "shannon_atomic64_inc_return v = (v + 1, sint (v + 1))"
definition shannon_atomic64_dec_and_test :: "u64 \<Rightarrow> u64 \<times> bool" where
  "shannon_atomic64_dec_and_test v = (v - 1, v - 1 = 0)"
definition shannon_atomic64_inc_and_test :: "u64 \<Rightarrow> u64 \<times> bool" where
  "shannon_atomic64_inc_and_test v = (v + 1, v + 1 = 0)"

text \<open>A counter raised by \<open>n\<close> holders reaches zero for the last of them to leave, and for no other.\<close>

lemma dec_and_test_last:
  assumes "0 < n" "n < 2 ^ 32"
  shows "snd (shannon_atomic_dec_and_test (of_nat n)) \<longleftrightarrow> n = 1"
proof -
  have "(of_nat n - 1 :: u32) = of_nat (n - 1)" using assms(1) by (simp add: of_nat_diff)
  moreover have "(of_nat (n - 1) = (0 :: u32)) \<longleftrightarrow> n - 1 = 0"
    using assms word_of_nat_eq_0_iff [of "n - 1", where 'a = 32] by (auto dest: dvd_imp_le)
  ultimately show ?thesis using assms(1) by (auto simp: shannon_atomic_dec_and_test_def)
qed

section \<open>Error pointers\<close>

definition SHANNON_ERR_PTR :: "int \<Rightarrow> u64" where "SHANNON_ERR_PTR error = word_of_int error"
definition SHANNON_IS_ERR :: "u64 \<Rightarrow> bool" where "SHANNON_IS_ERR p \<longleftrightarrow> p \<ge> word_of_int (- 4095)"
definition SHANNON_PTR_ERR :: "u64 \<Rightarrow> int" where "SHANNON_PTR_ERR p = sint p"
definition SHANNON_IS_ERR_OR_NULL :: "u64 \<Rightarrow> bool" where
  "SHANNON_IS_ERR_OR_NULL p \<longleftrightarrow> p = 0 \<or> p \<ge> word_of_int (- 4095)"

lemma err_ptr_roundtrip:
  assumes "- 4095 \<le> e" "e < 0"
  shows "SHANNON_IS_ERR (SHANNON_ERR_PTR e) \<and> SHANNON_PTR_ERR (SHANNON_ERR_PTR e) = e"
proof -
  have "(e + 2 ^ 64) mod 2 ^ 64 = e + 2 ^ 64" by (rule mod_pos_pos_trivial) (use assms in auto)
  then have "uint (word_of_int e :: u64) = e + 2 ^ 64" by (simp add: unsigned_of_int take_bit_eq_mod)
  moreover have "uint (word_of_int (- 4095) :: u64) = - 4095 + 2 ^ 64" by (simp add: unsigned_of_int take_bit_eq_mod)
  ultimately have "word_of_int (- 4095) \<le> (word_of_int e :: u64)" using assms(1) by (simp add: word_le_def)
  moreover have "sint (word_of_int e :: u64) = e"
    using assms by (simp add: signed_of_int signed_take_bit_int_eq_self)
  ultimately show ?thesis by (simp add: SHANNON_IS_ERR_def SHANNON_ERR_PTR_def SHANNON_PTR_ERR_def)
qed

section \<open>The latency requirement\<close>

text \<open>The request \<open>*l\<close> on kernels from 5.7 on: NULL, allocated, or registered with a value.\<close>

datatype pm_request = PmNull | PmAllocated | PmRegistered int

definition SHANNON_PM_QOS_CPU_DMA_LATENCY :: int where "SHANNON_PM_QOS_CPU_DMA_LATENCY = 1"

definition shannon_pm_qos_add_requirement :: "bool \<Rightarrow> bool \<Rightarrow> int \<Rightarrow> int \<Rightarrow> pm_request \<Rightarrow> pm_request" where
  "shannon_pm_qos_add_requirement disable kzalloc_ok qos val l =
    (if disable then l
     else if \<not> kzalloc_ok then PmNull
     else if qos \<noteq> SHANNON_PM_QOS_CPU_DMA_LATENCY then PmAllocated
     else PmRegistered val)"

text \<open>The kernel ignores an update of a request that is not registered.\<close>

definition shannon_pm_qos_update_requirement :: "bool \<Rightarrow> int \<Rightarrow> int \<Rightarrow> pm_request \<Rightarrow> pm_request" where
  "shannon_pm_qos_update_requirement disable qos new_value l =
    (if disable then l else if qos \<noteq> SHANNON_PM_QOS_CPU_DMA_LATENCY then l
     else case l of PmRegistered _ \<Rightarrow> PmRegistered new_value | _ \<Rightarrow> l)"

definition shannon_pm_qos_remove_requirement :: "bool \<Rightarrow> int \<Rightarrow> pm_request \<Rightarrow> pm_request" where
  "shannon_pm_qos_remove_requirement disable qos l =
    (if disable then l else if qos \<noteq> SHANNON_PM_QOS_CPU_DMA_LATENCY then l else PmNull)"

definition shannon_pm_qos_is_required :: "bool \<Rightarrow> int \<Rightarrow> bool" where
  "shannon_pm_qos_is_required disable qos =
    (if disable then True else if qos \<noteq> SHANNON_PM_QOS_CPU_DMA_LATENCY then True else False)"

lemma pm_qos_lifecycle:
  "qos = SHANNON_PM_QOS_CPU_DMA_LATENCY \<Longrightarrow> \<not> disable \<Longrightarrow>
   shannon_pm_qos_update_requirement disable qos w (shannon_pm_qos_add_requirement disable True qos v l) = PmRegistered w \<and>
   shannon_pm_qos_remove_requirement disable qos
     (shannon_pm_qos_update_requirement disable qos w (shannon_pm_qos_add_requirement disable ok qos v l)) = PmNull"
  by (simp add: shannon_pm_qos_add_requirement_def shannon_pm_qos_update_requirement_def
      shannon_pm_qos_remove_requirement_def)

section \<open>Message rate limit\<close>

record shannon_ratelimit_state =
  rl_interval :: u64
  rl_burst :: nat
  rl_printed :: nat
  rl_missed :: nat
  rl_begin :: u64

text \<open>\<open>time_after(a, b)\<close> of the kernel: \<open>(long)(b - a) < 0\<close>.\<close>

definition time_after :: "u64 \<Rightarrow> u64 \<Rightarrow> bool" where "time_after a b \<longleftrightarrow> sint (b - a) < 0"

text \<open>\<open>trylock\<close> is whether the lock was free. The result: the state and whether to print.\<close>

definition shannon_ratelimit :: "bool \<Rightarrow> u64 \<Rightarrow> shannon_ratelimit_state \<Rightarrow> shannon_ratelimit_state \<times> bool" where
  "shannon_ratelimit trylock jiffies rs =
    (if rl_interval rs = 0 then (rs, True)
     else if \<not> trylock then (rs, False)
     else let rs = (if rl_begin rs = 0 then rs\<lparr>rl_begin := jiffies\<rparr> else rs);
              rs = (if time_after jiffies (rl_begin rs + rl_interval rs)
                    then rs\<lparr>rl_begin := 0, rl_printed := 0, rl_missed := 0\<rparr> else rs)
          in if rl_burst rs \<noteq> 0 \<and> rl_burst rs > rl_printed rs
             then (rs\<lparr>rl_printed := rl_printed rs + 1\<rparr>, True)
             else (rs\<lparr>rl_missed := rl_missed rs + 1\<rparr>, False))"

text \<open>Both printing functions print exactly when their state lets them.\<close>

definition shannon_printk_ratelimited :: "bool \<Rightarrow> u64 \<Rightarrow> int \<Rightarrow> shannon_ratelimit_state \<Rightarrow> shannon_ratelimit_state \<times> int" where
  "shannon_printk_ratelimited trylock jiffies r rs =
    (case shannon_ratelimit trylock jiffies rs of (rs', True) \<Rightarrow> (rs', r) | (rs', False) \<Rightarrow> (rs', 0))"

definition ratelimit_resets :: "u64 \<Rightarrow> shannon_ratelimit_state \<Rightarrow> bool" where
  "ratelimit_resets jiffies rs \<longleftrightarrow>
     time_after jiffies ((if rl_begin rs = 0 then jiffies else rl_begin rs) + rl_interval rs)"

text \<open>A run of calls: the state and how many messages were let through.\<close>

fun ratelimit_run :: "u64 list \<Rightarrow> shannon_ratelimit_state \<Rightarrow> shannon_ratelimit_state \<times> nat" where
  "ratelimit_run [] rs = (rs, 0)"
| "ratelimit_run (j # js) rs =
    (let (rs1, ok) = shannon_ratelimit True j rs; (rs2, n) = ratelimit_run js rs1
     in (rs2, n + (if ok then 1 else 0)))"

text \<open>No call of the run starts a new interval.\<close>

fun within_interval :: "u64 list \<Rightarrow> shannon_ratelimit_state \<Rightarrow> bool" where
  "within_interval [] rs = True"
| "within_interval (j # js) rs \<longleftrightarrow> \<not> ratelimit_resets j rs \<and> within_interval js (fst (shannon_ratelimit True j rs))"

lemma ratelimit_call:
  assumes "rl_interval rs \<noteq> 0" "\<not> ratelimit_resets j rs" "shannon_ratelimit True j rs = (rs', ok)"
  shows "rl_interval rs' = rl_interval rs \<and> rl_burst rs' = rl_burst rs \<and>
    rl_printed rs' = rl_printed rs + (if ok then 1 else 0) \<and> rl_missed rs' = rl_missed rs + (if ok then 0 else 1) \<and>
    (ok \<longleftrightarrow> rl_printed rs < rl_burst rs)"
  using assms by (auto simp: shannon_ratelimit_def ratelimit_resets_def Let_def split: if_splits)



end
