(* ===== verification/Err_Injection.thy ===== *)
theory Err_Injection
  imports Kcore
begin

text \<open>
  Fault injection (\<^verbatim>\<open>shannon_err_injection.c\<close>, with \<open>CONFIG_SHANNON_FLASH_ERR_VERIFY\<close>): bit arrays that
  mark units, pages, blocks and sectors of the flash as failing, the queries of the I/O path, the
  allocation of the arrays and its failure path, and the random choice of read-error pairs. The fields
  of \<open>struct shannon_dev\<close> that the file uses are the records below; the geometry is non-negative.
\<close>

section \<open>Device data\<close>

record geometry =
  lun_count :: nat
  sb_count :: nat
  planes :: nat
  pages_in_eblock :: nat
  logicbs_in_sibling_eblock :: nat
  logicbs_in_page :: nat
  logicbs_in_eblock :: nat
  eblocks_in_lun :: nat
  mbr_eblocks :: nat
  max_luns_in_group :: nat
  parity_groups :: nat
  shared_pages :: nat
  mbr_pages_in_eblock :: nat       \<comment> \<open>\<open>sdev->mbr.pages_in_eblock\<close>\<close>

text \<open>The arrays; \<open>None\<close> is a NULL pointer.\<close>

record err_dev =
  ed_geo :: geometry
  rwe_err_buf_done :: bool
  fake_bad_lun :: "bitmap option"
  fake_cmd_timeout_lun :: "bitmap option"
  fake_rd_bad_lun :: "bitmap option"
  fake_rd_bad_lunpba :: "bitmap option"
  fake_wr_bad_lunppa :: "bitmap option"
  fake_er_bad_block :: "bitmap option"
  fake_twin_rd_bad_lunpba :: "bitmap option"
  fake_bad_lun_skipmbr :: bool
  twin_read_err :: bool

text \<open>Bit operations through a pointer that may be NULL.\<close>

definition set_in :: "nat \<Rightarrow> bitmap option \<Rightarrow> bitmap option option" where
  "set_in nr p = (case p of None \<Rightarrow> None | Some m \<Rightarrow> map_option Some (shannon_set_bit nr m))"

definition test_in :: "nat \<Rightarrow> bitmap option \<Rightarrow> bool option" where
  "test_in nr p = (case p of None \<Rightarrow> None | Some m \<Rightarrow> shannon_test_bit nr m)"

section \<open>Units\<close>

definition mark_fake_bad_lun :: "nat \<Rightarrow> err_dev \<Rightarrow> err_dev option" where
  "mark_fake_bad_lun lun d = (if \<not> rwe_err_buf_done d then Some d
     else map_option (\<lambda>p. d\<lparr>fake_bad_lun := p\<rparr>) (set_in lun (fake_bad_lun d)))"

definition mark_fake_cmd_timeout_lun :: "nat \<Rightarrow> err_dev \<Rightarrow> err_dev option" where
  "mark_fake_cmd_timeout_lun lun d = (if \<not> rwe_err_buf_done d then Some d
     else map_option (\<lambda>p. d\<lparr>fake_cmd_timeout_lun := p\<rparr>) (set_in lun (fake_cmd_timeout_lun d)))"

definition is_fake_bad_lun :: "nat \<Rightarrow> err_dev \<Rightarrow> bool option" where
  "is_fake_bad_lun lun d = (if \<not> rwe_err_buf_done d then Some False else test_in lun (fake_bad_lun d))"

definition is_fake_cmd_timeout_lun :: "nat \<Rightarrow> err_dev \<Rightarrow> bool option" where
  "is_fake_cmd_timeout_lun lun d = (if \<not> rwe_err_buf_done d then Some False else test_in lun (fake_cmd_timeout_lun d))"

definition mark_fake_rd_bad_lun :: "nat \<Rightarrow> err_dev \<Rightarrow> err_dev option" where
  "mark_fake_rd_bad_lun lun d = (if \<not> rwe_err_buf_done d then Some d
     else map_option (\<lambda>p. d\<lparr>fake_rd_bad_lun := p\<rparr>) (set_in lun (fake_rd_bad_lun d)))"

definition is_fake_rd_bad_lun :: "nat \<Rightarrow> err_dev \<Rightarrow> bool option" where
  "is_fake_rd_bad_lun lun d = (if \<not> rwe_err_buf_done d then Some False else test_in lun (fake_rd_bad_lun d))"

section \<open>Pages, sectors and blocks\<close>

text \<open>\<open>bit_base = (u64 *)array + offset/64\<close> and \<open>bit_offset = offset % 64\<close>.\<close>

definition word_bit :: "nat \<Rightarrow> nat" where
  "word_bit offset = (let bit_offset = offset mod 64; bit_base = offset div 64 in 64 * bit_base + bit_offset)"

definition wr_offset :: "geometry \<Rightarrow> nat \<Rightarrow> nat \<Rightarrow> nat" where
  "wr_offset g lun ppa = lun * sb_count g * planes g * pages_in_eblock g + ppa"

definition mark_fake_wr_bad_lunppa :: "nat \<Rightarrow> nat \<Rightarrow> err_dev \<Rightarrow> err_dev option" where
  "mark_fake_wr_bad_lunppa lun ppa d = (if \<not> rwe_err_buf_done d then Some d
     else map_option (\<lambda>p. d\<lparr>fake_wr_bad_lunppa := p\<rparr>)
            (set_in (word_bit (wr_offset (ed_geo d) lun ppa)) (fake_wr_bad_lunppa d)))"

text \<open>The tail all page and block queries share: a unit marked bad fails everywhere but, if so configured, in
  the first blocks.\<close>

definition bad_lun_verdict :: "nat \<Rightarrow> nat \<Rightarrow> err_dev \<Rightarrow> bool option" where
  "bad_lun_verdict lun blk d =
     map_option (\<lambda>bad. bad \<and> \<not> (blk < mbr_eblocks (ed_geo d) \<and> fake_bad_lun_skipmbr d)) (is_fake_bad_lun lun d)"

text \<open>The division for the block number comes before the test of \<open>rwe_err_buf_done\<close>: a zero divisor traps.\<close>

definition is_fake_wr_bad_lunppa :: "nat \<Rightarrow> nat \<Rightarrow> err_dev \<Rightarrow> bool option" where
  "is_fake_wr_bad_lunppa lun ppa d =
    (if pages_in_eblock (ed_geo d) = 0 then None
     else let blk_index = ppa div pages_in_eblock (ed_geo d)
     in if \<not> rwe_err_buf_done d then Some False
        else case test_in (word_bit (wr_offset (ed_geo d) lun ppa)) (fake_wr_bad_lunppa d) of
               None \<Rightarrow> None | Some True \<Rightarrow> Some True
             | Some False \<Rightarrow> bad_lun_verdict lun blk_index d)"

definition rd_offset :: "geometry \<Rightarrow> nat \<Rightarrow> nat \<Rightarrow> nat" where
  "rd_offset g lun pba = lun * sb_count g * logicbs_in_sibling_eblock g + pba"

definition mark_fake_rd_bad_lunpba :: "nat \<Rightarrow> nat \<Rightarrow> err_dev \<Rightarrow> err_dev option" where
  "mark_fake_rd_bad_lunpba lun pba d = (if \<not> rwe_err_buf_done d then Some d
     else map_option (\<lambda>p. d\<lparr>fake_rd_bad_lunpba := p\<rparr>)
            (set_in (word_bit (rd_offset (ed_geo d) lun pba)) (fake_rd_bad_lunpba d)))"

definition is_fake_rd_bad_lunpba :: "nat \<Rightarrow> nat \<Rightarrow> err_dev \<Rightarrow> bool option" where
  "is_fake_rd_bad_lunpba lun pba d =
    (if logicbs_in_page (ed_geo d) = 0 \<or> pages_in_eblock (ed_geo d) = 0 then None
     else let blk_index = pba div logicbs_in_page (ed_geo d) div pages_in_eblock (ed_geo d);
              skip = (blk_index < mbr_eblocks (ed_geo d) \<and> fake_bad_lun_skipmbr d)
     in if \<not> rwe_err_buf_done d then Some False
        else case test_in (word_bit (rd_offset (ed_geo d) lun pba)) (fake_rd_bad_lunpba d) of
               None \<Rightarrow> None | Some True \<Rightarrow> Some True
             | Some False \<Rightarrow>
                (case is_fake_bad_lun lun d of None \<Rightarrow> None
                 | Some True \<Rightarrow> Some (\<not> skip)
                 | Some False \<Rightarrow> map_option (\<lambda>rd. rd \<and> \<not> skip) (is_fake_rd_bad_lun lun d)))"

text \<open>Mark a sector only if no unit of its group fails at the same sector.\<close>

fun raidmutex_scan :: "nat list \<Rightarrow> nat \<Rightarrow> err_dev \<Rightarrow> bool option" where
  "raidmutex_scan [] pba d = Some False"
| "raidmutex_scan (i # is) pba d =
    (case is_fake_rd_bad_lunpba i pba d of None \<Rightarrow> None | Some True \<Rightarrow> Some True
     | Some False \<Rightarrow> raidmutex_scan is pba d)"

definition mark_fake_rd_bad_lunpba_raidmutex :: "nat \<Rightarrow> nat \<Rightarrow> err_dev \<Rightarrow> err_dev option" where
  "mark_fake_rd_bad_lunpba_raidmutex lun pba d =
    (if max_luns_in_group (ed_geo d) = 0 then None
     else let beginlun = lun div max_luns_in_group (ed_geo d) * max_luns_in_group (ed_geo d);
              endlun = beginlun + max_luns_in_group (ed_geo d)
          in case raidmutex_scan [beginlun ..< endlun] pba d of None \<Rightarrow> None
             | Some True \<Rightarrow> Some d
             | Some False \<Rightarrow> mark_fake_rd_bad_lunpba lun pba d)"

definition mark_fake_er_bad_block :: "nat \<Rightarrow> nat \<Rightarrow> err_dev \<Rightarrow> err_dev option" where
  "mark_fake_er_bad_block lun blk d = (if \<not> rwe_err_buf_done d then Some d
     else map_option (\<lambda>p. d\<lparr>fake_er_bad_block := p\<rparr>)
            (set_in (lun * eblocks_in_lun (ed_geo d) + blk) (fake_er_bad_block d)))"

definition is_fake_er_bad_block :: "nat \<Rightarrow> nat \<Rightarrow> err_dev \<Rightarrow> bool option" where
  "is_fake_er_bad_block lun blk d =
    (if \<not> rwe_err_buf_done d then Some False
     else case test_in (lun * eblocks_in_lun (ed_geo d) + blk) (fake_er_bad_block d) of
            None \<Rightarrow> None | Some True \<Rightarrow> Some True
          | Some False \<Rightarrow> bad_lun_verdict lun blk d)"

text \<open>Pairs of read errors, one array for each of the two write heads.\<close>

definition twin_bit :: "geometry \<Rightarrow> nat \<Rightarrow> nat \<Rightarrow> nat \<Rightarrow> nat" where
  "twin_bit g lun pba head_index =
    (let pba = pba mod logicbs_in_sibling_eblock g;
         offset = lun * logicbs_in_sibling_eblock g + pba;
         bit_offset = offset mod 64;
         base_offset = (if head_index = 0 then 0 else lun_count g * logicbs_in_sibling_eblock g div 64)
     in 64 * (base_offset + offset div 64) + bit_offset)"

text \<open>The remainder traps when \<open>logicbs_in_sibling_eblock\<close> is 0.\<close>

definition mark_fake_twin_rd_bad_lunpba :: "nat \<Rightarrow> nat \<Rightarrow> nat \<Rightarrow> err_dev \<Rightarrow> err_dev option" where
  "mark_fake_twin_rd_bad_lunpba lun pba head_index d = (if \<not> rwe_err_buf_done d then Some d
     else if logicbs_in_sibling_eblock (ed_geo d) = 0 then None
     else map_option (\<lambda>p. d\<lparr>fake_twin_rd_bad_lunpba := p\<rparr>)
            (set_in (twin_bit (ed_geo d) lun pba head_index) (fake_twin_rd_bad_lunpba d)))"

definition is_fake_twin_rd_bad_lunpba :: "nat \<Rightarrow> nat \<Rightarrow> nat \<Rightarrow> err_dev \<Rightarrow> bool option" where
  "is_fake_twin_rd_bad_lunpba lun pba head_index d =
    (if \<not> rwe_err_buf_done d then Some False
     else if \<not> twin_read_err d then Some False
     else if logicbs_in_sibling_eblock (ed_geo d) = 0 then None
     else test_in (twin_bit (ed_geo d) lun pba head_index) (fake_twin_rd_bad_lunpba d))"

section \<open>Allocation\<close>

text \<open>The sizes are computed in \<open>unsigned long\<close> and kept in an \<open>int\<close>.\<close>

definition to_int32 :: "nat \<Rightarrow> int" where "to_int32 n = sint (of_nat n :: u32)"

definition round_page :: "nat \<Rightarrow> nat" where "round_page n = (n + 4095) div 4096 * 4096"

definition fake_bad_lun_size :: "geometry \<Rightarrow> int" where
  "fake_bad_lun_size g = to_int32 ((lun_count g + 64 - 1) div 64 * 8)"
definition fake_rd_bad_lunpba_size :: "geometry \<Rightarrow> int" where
  "fake_rd_bad_lunpba_size g = to_int32 (round_page (lun_count g * sb_count g * logicbs_in_sibling_eblock g div 8))"
definition fake_wr_bad_lunppa_size :: "geometry \<Rightarrow> int" where
  "fake_wr_bad_lunppa_size g = to_int32 (round_page (pages_in_eblock g * planes g * sb_count g * lun_count g div 8))"
definition fake_er_bad_block_size :: "geometry \<Rightarrow> int" where
  "fake_er_bad_block_size g = to_int32 (round_page ((eblocks_in_lun g * lun_count g + 7) div 8))"
definition fake_twin_rd_bad_lunpba_size :: "geometry \<Rightarrow> int" where
  "fake_twin_rd_bad_lunpba_size g = to_int32 (round_page (lun_count g * logicbs_in_sibling_eblock g * 2 div 8))"

text \<open>\<open>shannon_vmalloc\<close> followed by \<open>shannon_memset\<close>: the \<open>i\<close>-th allocation succeeds or not; a size that is not
  positive fails (0 is refused, a negative one is a huge \<open>unsigned long\<close>). Sizes are multiples of 8.\<close>

definition vmalloc_zeroed :: "(nat \<Rightarrow> bool) \<Rightarrow> nat \<Rightarrow> int \<Rightarrow> bitmap option" where
  "vmalloc_zeroed ok i sz = (if sz > 0 \<and> ok i then Some (replicate (nat sz div 8) 0) else None)"

text \<open>The arrays in the order they are allocated.\<close>

datatype err_array = BadLun | CmdTimeout | RdBadLun | RdBadLunpba | WrBadLunppa | ErBadBlock | TwinRd

definition array_of :: "err_array \<Rightarrow> err_dev \<Rightarrow> bitmap option" where
  "array_of a d = (case a of BadLun \<Rightarrow> fake_bad_lun d | CmdTimeout \<Rightarrow> fake_cmd_timeout_lun d
     | RdBadLun \<Rightarrow> fake_rd_bad_lun d | RdBadLunpba \<Rightarrow> fake_rd_bad_lunpba d | WrBadLunppa \<Rightarrow> fake_wr_bad_lunppa d
     | ErBadBlock \<Rightarrow> fake_er_bad_block d | TwinRd \<Rightarrow> fake_twin_rd_bad_lunpba d)"

text \<open>The label \<open>free\<close>: the arrays handed to \<open>shannon_vfree\<close>; the pointers are not cleared.\<close>

definition err_free :: "err_dev \<Rightarrow> err_array list" where
  "err_free d = filter (\<lambda>a. array_of a d \<noteq> None)
     [ErBadBlock, WrBadLunppa, RdBadLunpba, RdBadLun, BadLun, CmdTimeout, TwinRd]"

text \<open>The result: the return value, the device and the arrays freed.\<close>

definition init_err_injection :: "(nat \<Rightarrow> bool) \<Rightarrow> err_dev \<Rightarrow> int \<times> err_dev \<times> err_array list" where
  "init_err_injection ok d =
    (let g = ed_geo d;
         d = d\<lparr>fake_bad_lun := vmalloc_zeroed ok 0 (fake_bad_lun_size g)\<rparr>
     in if fake_bad_lun d = None then (- ENOMEM, d, err_free d)
     else let d = d\<lparr>fake_cmd_timeout_lun := vmalloc_zeroed ok 1 (fake_bad_lun_size g)\<rparr>
     in if fake_cmd_timeout_lun d = None then (- ENOMEM, d, err_free d)
     else let d = d\<lparr>fake_rd_bad_lun := vmalloc_zeroed ok 2 (fake_bad_lun_size g)\<rparr>
     in if fake_rd_bad_lun d = None then (- ENOMEM, d, err_free d)
     else let d = d\<lparr>fake_rd_bad_lunpba := vmalloc_zeroed ok 3 (fake_rd_bad_lunpba_size g)\<rparr>
     in if fake_rd_bad_lunpba d = None then (- ENOMEM, d, err_free d)
     else let d = d\<lparr>fake_wr_bad_lunppa := vmalloc_zeroed ok 4 (fake_wr_bad_lunppa_size g)\<rparr>
     in if fake_wr_bad_lunppa d = None then (- ENOMEM, d, err_free d)
     else let d = d\<lparr>fake_er_bad_block := vmalloc_zeroed ok 5 (fake_er_bad_block_size g)\<rparr>
     in if fake_er_bad_block d = None then (- ENOMEM, d, err_free d)
     else let d = d\<lparr>fake_twin_rd_bad_lunpba := vmalloc_zeroed ok 6 (fake_twin_rd_bad_lunpba_size g)\<rparr>
     in if fake_twin_rd_bad_lunpba d = None then (- ENOMEM, d, err_free d)
     else (0, d\<lparr>rwe_err_buf_done := True\<rparr>, []))"

definition release_err_injection :: "err_array list" where
  "release_err_injection = [BadLun, CmdTimeout, RdBadLun, RdBadLunpba, WrBadLunppa, ErBadBlock, TwinRd]"

section \<open>Random pairs of read errors\<close>

text \<open>\<open>get_random(min, max)\<close> on \<open>unsigned\<close>; \<open>rnd k\<close> is the \<open>k\<close>-th random word. \<open>None\<close>: division by zero, when
  \<open>max - min + 1\<close> wraps.\<close>

definition get_random :: "(nat \<Rightarrow> u32) \<Rightarrow> nat \<Rightarrow> nat \<Rightarrow> nat \<Rightarrow> (nat \<times> nat) option" where
  "get_random rnd k mn mx =
    (if mn \<ge> mx then Some (mx, k)
     else if mx - mn + 1 = 2 ^ 32 then None
     else Some (unat (rnd k) mod (mx - mn + 1) + mn, Suc k))"

text \<open>\<open>n - 1\<close> as an \<open>unsigned\<close> argument.\<close>

definition u_pred :: "nat \<Rightarrow> nat" where "u_pred n = (if n = 0 then 2 ^ 32 - 1 else n - 1)"

record sub_group =
  phy_index :: int
  available_luns :: int
  start_lun :: nat

definition group_valid :: "(nat \<Rightarrow> sub_group) \<Rightarrow> nat \<Rightarrow> bool" where
  "group_valid groups grp \<longleftrightarrow> \<not> (phy_index (groups grp) < 0 \<or> available_luns (groups grp) < 2)"

text \<open>The search loops: cyclic, at most one round.\<close>

function find_group :: "(nat \<Rightarrow> bool) \<Rightarrow> nat \<Rightarrow> nat \<Rightarrow> nat \<Rightarrow> nat option" where
  "find_group valid n grp limit =
    (if valid grp then Some grp
     else if limit + 1 \<ge> n then None
     else find_group valid n ((grp + 1) mod n) (limit + 1))"
  by pat_completeness auto
termination by (relation "measure (\<lambda>(valid, n, grp, limit). n - limit)") auto

declare find_group.simps [simp del]

text \<open>The unit search marks what it takes in \<open>luns_mask\<close>; the inner option is "not found".\<close>

function find_lun :: "(nat \<Rightarrow> bool) \<Rightarrow> nat \<Rightarrow> bitmap \<Rightarrow> nat \<Rightarrow> nat \<Rightarrow> (nat \<times> bitmap) option option" where
  "find_lun bad n luns_mask offset limit =
    (case (if bad offset then Some (True, luns_mask) else shannon_test_and_set_bit offset luns_mask) of None \<Rightarrow> None
     | Some (busy, luns_mask) \<Rightarrow>
        if \<not> busy then Some (Some (offset, luns_mask))
        else if limit + 1 \<ge> n then Some None
        else find_lun bad n luns_mask ((offset + 1) mod n) (limit + 1))"
  by pat_completeness auto
termination by (relation "measure (\<lambda>(bad, n, m, offset, limit). n - limit)") auto

declare find_lun.simps [simp del]

text \<open>One round of the loop over pages: the step, which is at least 1, the next random word and the device.\<close>

definition pattern_step ::
    "(nat \<Rightarrow> u32) \<Rightarrow> nat \<Rightarrow> nat \<Rightarrow> nat \<Rightarrow> nat \<Rightarrow> nat \<Rightarrow> err_dev \<Rightarrow> (nat \<times> nat \<times> err_dev) option" where
  "pattern_step rnd k ch lun0 lun1 head_index d =
    (let g = ed_geo d in
     case get_random rnd k 0 (shared_pages g * 4) of None \<Rightarrow> None
     | Some (st, k) \<Rightarrow>
    (case get_random rnd k st (shared_pages g * 8) of None \<Rightarrow> None
     | Some (st, k) \<Rightarrow>
      let st = (if st \<noteq> 0 then st else 1) in
    (case (if planes g = 1 then Some (0, k) else get_random rnd k 0 (u_pred (planes g))) of None \<Rightarrow> None
     | Some (pl, k) \<Rightarrow>
    (case get_random rnd k 0 (u_pred (logicbs_in_page g)) of None \<Rightarrow> None
     | Some (sector, k) \<Rightarrow>
      let pba = ch * logicbs_in_page g + pl * logicbs_in_eblock g + sector in
    (case mark_fake_twin_rd_bad_lunpba lun0 pba head_index d of None \<Rightarrow> None
     | Some d \<Rightarrow> map_option (\<lambda>d. (st, k, d)) (mark_fake_twin_rd_bad_lunpba lun1 pba head_index d))))))"

lemma pattern_step_pos: "pattern_step rnd k ch l0 l1 h d = Some (st, k', d') \<Longrightarrow> 0 < st"
  by (auto simp: pattern_step_def Let_def split: option.splits if_splits)

function pattern_loop :: "(nat \<Rightarrow> u32) \<Rightarrow> nat \<Rightarrow> nat \<Rightarrow> nat \<Rightarrow> nat \<Rightarrow> nat \<Rightarrow> nat \<Rightarrow> err_dev \<Rightarrow> err_dev option" where
  "pattern_loop rnd pages k ch lun0 lun1 head_index d =
    (if ch < pages then
       (case pattern_step rnd k ch lun0 lun1 head_index d of None \<Rightarrow> None
        | Some (st, k, d) \<Rightarrow> pattern_loop rnd pages k (ch + st) lun0 lun1 head_index d)
     else Some d)"
  by pat_completeness auto
termination
  by (relation "measure (\<lambda>(rnd, pages, k, ch, l0, l1, h, d). pages - ch)") (auto dest!: pattern_step_pos)

declare pattern_loop.simps [simp del]

definition update_fake_pattern ::
    "(nat \<Rightarrow> u32) \<Rightarrow> (nat \<Rightarrow> sub_group) \<Rightarrow> (nat \<Rightarrow> bool) \<Rightarrow> nat \<Rightarrow> err_dev \<Rightarrow> err_dev option" where
  "update_fake_pattern rnd groups is_bad_lun head_index d =
    (let g = ed_geo d in
     if \<not> twin_read_err d then Some d
     else case get_random rnd 0 0 (u_pred (parity_groups g)) of None \<Rightarrow> None
     | Some (grp, k) \<Rightarrow>
       case find_group (group_valid groups) (parity_groups g) grp 0 of None \<Rightarrow> Some d
       | Some grp \<Rightarrow>
         let start = start_lun (groups grp); bad = (\<lambda>off. is_bad_lun (start + off)); n = max_luns_in_group g in
         case get_random rnd k 0 (u_pred n) of None \<Rightarrow> None
         | Some (off0, k) \<Rightarrow>
           (case find_lun bad n (replicate 4 0) off0 0 of None \<Rightarrow> None | Some None \<Rightarrow> Some d
            | Some (Some (off0, luns_mask)) \<Rightarrow>
              (case get_random rnd k 0 (u_pred n) of None \<Rightarrow> None
               | Some (off1, k) \<Rightarrow>
                 (case find_lun bad n luns_mask off1 0 of None \<Rightarrow> None | Some None \<Rightarrow> Some d
                  | Some (Some (off1, luns_mask)) \<Rightarrow>
                    (case get_random rnd k 0 (u_pred (shared_pages g)) of None \<Rightarrow> None
                     | Some (st, k) \<Rightarrow>
                       pattern_loop rnd (mbr_pages_in_eblock g) k st ((start + off0) mod n) ((start + off1) mod n) head_index d)))))"

section \<open>Marking through an index\<close>

text \<open>All marking functions have one shape: an array of the device, the bit number a position has, and an update
  of that array alone.\<close>

locale err_marker =
  fixes mark :: "'k \<Rightarrow> err_dev \<Rightarrow> err_dev option"
    and sel :: "err_dev \<Rightarrow> bitmap option"
    and upd :: "bitmap option \<Rightarrow> err_dev \<Rightarrow> err_dev"
    and idx :: "geometry \<Rightarrow> 'k \<Rightarrow> nat"
  assumes mark_eq: "rwe_err_buf_done d \<Longrightarrow> mark x d = map_option (\<lambda>p. upd p d) (set_in (idx (ed_geo d) x) (sel d))"
    and mark_off: "\<not> rwe_err_buf_done d \<Longrightarrow> mark x d = Some d"
    and sel_upd: "sel (upd p d) = p"
    and upd_frame: "rwe_err_buf_done (upd p d) = rwe_err_buf_done d" "ed_geo (upd p d) = ed_geo d"
    and upd_upd: "upd p (upd q d) = upd p d"
    and upd_sel: "upd (sel d) d = d"
begin

lemma marks_bitmap:
  "rwe_err_buf_done d \<Longrightarrow> sel d = Some m \<Longrightarrow>
   fold_opt mark xs d = map_option (\<lambda>m'. upd (Some m') d) (fold_opt shannon_set_bit (map (idx (ed_geo d)) xs) m)"
proof (induction xs arbitrary: d m)
  case Nil
  then show ?case using upd_sel [of d] by simp
next
  case (Cons x xs)
  show ?case
  proof (cases "shannon_set_bit (idx (ed_geo d) x) m")
    case None
    then show ?thesis using Cons.prems mark_eq by (simp add: set_in_def)
  next
    case (Some m1)
    then have "mark x d = Some (upd (Some m1) d)" using Cons.prems mark_eq by (simp add: set_in_def)
    then show ?thesis
      using Some Cons.IH [of "upd (Some m1) d" m1] Cons.prems sel_upd upd_frame upd_upd by (simp add: option.map_comp comp_def)
  qed
qed

text \<open>Marks inside the array never fail, and exactly the marked positions test true afterwards.\<close>

lemma marks_exact:
  assumes "rwe_err_buf_done d" "sel d = Some m" "\<forall>x \<in> set xs. idx (ed_geo d) x div 64 < length m"
  shows "\<exists>m'. fold_opt mark xs d = Some (upd (Some m') d) \<and> length m' = length m \<and>
    (\<forall>i. i div 64 < length m \<longrightarrow>
       shannon_test_bit i m' = Some (i \<in> idx (ed_geo d) ` set xs \<or> shannon_test_bit i m = Some True))"
proof -
  have "\<forall>i \<in> set (map (idx (ed_geo d)) xs). i div 64 < length m" using assms(3) by simp
  from kb.mark_all [OF this] obtain m' where m': "fold_opt shannon_set_bit (map (idx (ed_geo d)) xs) m = Some m'"
      "\<forall>j. (j div 64 < length m') = (j div 64 < length m)"
      "\<forall>j. j div 64 < length m \<longrightarrow> shannon_test_bit j m' = Some (j \<in> set (map (idx (ed_geo d)) xs) \<or> shannon_test_bit j m = Some True)"
    by blast
  have "length m' = length m"
  proof (rule antisym)
    show "length m' \<le> length m" using m'(2) [rule_format, of "64 * length m"] by simp
    show "length m \<le> length m'" using m'(2) [rule_format, of "64 * length m'"] by simp
  qed
  then show ?thesis using m' marks_bitmap [OF assms(1,2), of xs] by auto
qed

end

lemma word_bit_id [simp]: "word_bit n = n"
  by (simp add: word_bit_def Let_def)

interpretation lum: err_marker mark_fake_bad_lun fake_bad_lun "\<lambda>p d. d\<lparr>fake_bad_lun := p\<rparr>" "\<lambda>g lun. lun"
  by unfold_locales (auto simp: mark_fake_bad_lun_def)

interpretation ctm: err_marker mark_fake_cmd_timeout_lun fake_cmd_timeout_lun
  "\<lambda>p d. d\<lparr>fake_cmd_timeout_lun := p\<rparr>" "\<lambda>g lun. lun"
  by unfold_locales (auto simp: mark_fake_cmd_timeout_lun_def)

interpretation rlm: err_marker mark_fake_rd_bad_lun fake_rd_bad_lun "\<lambda>p d. d\<lparr>fake_rd_bad_lun := p\<rparr>" "\<lambda>g lun. lun"
  by unfold_locales (auto simp: mark_fake_rd_bad_lun_def)

section \<open>Sizes\<close>

lemma to_int32_small: "n < 2 ^ 31 \<Longrightarrow> to_int32 n = int n"
  by (simp add: to_int32_def signed_of_nat signed_take_bit_int_eq_self)

lemma round_page_ge: "n \<le> round_page n"
proof -
  have "(n + 4095) div 4096 * 4096 + (n + 4095) mod 4096 = n + 4095" by simp
  moreover have "(n + 4095) mod 4096 < 4096" by simp
  ultimately show ?thesis unfolding round_page_def by linarith
qed

text \<open>An array of \<open>round_page b\<close> bytes has a bit for every number below \<open>8 * b\<close>.\<close>

lemma round_page_words: "i < 8 * b \<Longrightarrow> i div 64 < round_page b div 8"
proof -
  assume i: "i < 8 * b"
  have "8 dvd round_page b" by (simp add: round_page_def dvd_mult)
  then obtain c where c: "round_page b = 8 * c" by blast
  have "i < 64 * c" using i round_page_ge [of b] c by linarith
  then show ?thesis using c by (simp add: div_less_iff_less_mult mult.commute)
qed

text \<open>A position of unit and offset, and the number it has.\<close>

lemma flat_index:
  fixes n :: nat
  assumes "l < L" "p < n"
  shows "l * n + p < L * n" and "l' * n + p' = l * n + p \<Longrightarrow> p' < n \<Longrightarrow> l' = l \<and> p' = p"
proof -
  have "l * n + p < Suc l * n" using assms(2) by simp
  also have "\<dots> \<le> L * n" by (rule mult_le_mono1) (use assms(1) in simp)
  finally show "l * n + p < L * n" .
  assume e: "l' * n + p' = l * n + p" "p' < n"
  have "(l' * n + p') div n = l'" "(l * n + p) div n = l" using assms(2) e(2) by simp_all
  then show "l' = l \<and> p' = p" using e(1) by simp
qed

section \<open>Properties\<close>

text \<open>Bits per unit of the three large arrays, and the geometries for which the sizes are exact and fit an \<open>int\<close>.\<close>

definition wr_bits :: "geometry \<Rightarrow> nat" where "wr_bits g = sb_count g * planes g * pages_in_eblock g"
definition rd_bits :: "geometry \<Rightarrow> nat" where "rd_bits g = sb_count g * logicbs_in_sibling_eblock g"

definition geometry_ok :: "geometry \<Rightarrow> bool" where
  "geometry_ok g \<longleftrightarrow> 0 < lun_count g \<and> lun_count g < 2 ^ 31 \<and> 0 < pages_in_eblock g \<and> 0 < logicbs_in_page g \<and>
     0 < wr_bits g \<and> 0 < rd_bits g \<and> 0 < eblocks_in_lun g \<and> 0 < logicbs_in_sibling_eblock g \<and>
     8 dvd lun_count g * wr_bits g \<and> 8 dvd lun_count g * rd_bits g \<and> 4 dvd lun_count g * logicbs_in_sibling_eblock g \<and>
     round_page (lun_count g * wr_bits g div 8) < 2 ^ 31 \<and> round_page (lun_count g * rd_bits g div 8) < 2 ^ 31 \<and>
     round_page ((eblocks_in_lun g * lun_count g + 7) div 8) < 2 ^ 31 \<and>
     round_page (lun_count g * logicbs_in_sibling_eblock g * 2 div 8) < 2 ^ 31"

text \<open>The positions of each array.\<close>

definition in_array :: "geometry \<Rightarrow> nat \<Rightarrow> nat \<times> nat \<Rightarrow> bool" where
  "in_array g n x \<longleftrightarrow> fst x < lun_count g \<and> snd x < n"

definition zeroed :: "nat \<Rightarrow> bitmap" where "zeroed bytes = replicate (bytes div 8) 0"

lemma round_page_pos: "0 < n \<Longrightarrow> 0 < round_page n"
  using round_page_ge [of n] by simp

lemma vmalloc_round: "0 < n \<Longrightarrow> round_page n < 2 ^ 31 \<Longrightarrow> ok i \<Longrightarrow>
   vmalloc_zeroed ok i (to_int32 (round_page n)) = Some (zeroed (round_page n))"
  using round_page_pos [of n] by (simp add: vmalloc_zeroed_def to_int32_small zeroed_def)

lemma init_success:
  assumes g: "geometry_ok (ed_geo d)" and ok: "\<forall>i. ok i"
  shows "init_err_injection ok d =
    (let g = ed_geo d; lb = Some (replicate ((lun_count g + 63) div 64) 0) in
     (0, d\<lparr>fake_bad_lun := lb, fake_cmd_timeout_lun := lb, fake_rd_bad_lun := lb,
         fake_rd_bad_lunpba := Some (zeroed (round_page (lun_count g * rd_bits g div 8))),
         fake_wr_bad_lunppa := Some (zeroed (round_page (lun_count g * wr_bits g div 8))),
         fake_er_bad_block := Some (zeroed (round_page ((eblocks_in_lun g * lun_count g + 7) div 8))),
         fake_twin_rd_bad_lunpba := Some (zeroed (round_page (lun_count g * logicbs_in_sibling_eblock g * 2 div 8))),
         rwe_err_buf_done := True\<rparr>, []))"
proof -
  let ?g = "ed_geo d"
  have "4 dvd lun_count ?g * logicbs_in_sibling_eblock ?g" "0 < lun_count ?g * logicbs_in_sibling_eblock ?g"
    using g by (auto simp: geometry_ok_def)
  then have four: "4 \<le> logicbs_in_sibling_eblock ?g * lun_count ?g" by (metis dvd_imp_le mult.commute)
  have pos: "0 < lun_count ?g * wr_bits ?g div 8" "0 < lun_count ?g * rd_bits ?g div 8"
    "0 < (eblocks_in_lun ?g * lun_count ?g + 7) div 8" "0 < lun_count ?g * logicbs_in_sibling_eblock ?g * 2 div 8"
    using g four by (auto simp: geometry_ok_def div_greater_zero_iff dest: dvd_imp_le)
  have "(lun_count ?g + 63) div 64 * 8 < 2 ^ 31"
    using g by (simp add: geometry_ok_def) linarith
  moreover have "0 < (lun_count ?g + 63) div 64" using g by (simp add: geometry_ok_def div_greater_zero_iff)
  ultimately have lun: "vmalloc_zeroed ok i (fake_bad_lun_size ?g) = Some (replicate ((lun_count ?g + 63) div 64) 0)" for i
    using ok by (simp add: vmalloc_zeroed_def fake_bad_lun_size_def to_int32_small nat_mult_distrib add.commute)
  have rd: "vmalloc_zeroed ok i (fake_rd_bad_lunpba_size ?g) = Some (zeroed (round_page (lun_count ?g * rd_bits ?g div 8)))" for i
    using vmalloc_round [OF pos(2), of ok i] g ok by (simp add: geometry_ok_def fake_rd_bad_lunpba_size_def rd_bits_def mult.assoc)
  have wr: "vmalloc_zeroed ok i (fake_wr_bad_lunppa_size ?g) = Some (zeroed (round_page (lun_count ?g * wr_bits ?g div 8)))" for i
  proof -
    have "pages_in_eblock ?g * planes ?g * sb_count ?g * lun_count ?g = lun_count ?g * wr_bits ?g"
      by (simp add: wr_bits_def ac_simps)
    then have size_eq: "fake_wr_bad_lunppa_size ?g = to_int32 (round_page (lun_count ?g * wr_bits ?g div 8))"
      by (simp only: fake_wr_bad_lunppa_size_def)
    show ?thesis
      unfolding size_eq by (rule vmalloc_round [OF pos(1)]) (use g ok in \<open>simp_all add: geometry_ok_def\<close>)
  qed
  have er: "vmalloc_zeroed ok i (fake_er_bad_block_size ?g) =
      Some (zeroed (round_page ((eblocks_in_lun ?g * lun_count ?g + 7) div 8)))" for i
    using vmalloc_round [OF pos(3), of ok i] g ok by (simp add: geometry_ok_def fake_er_bad_block_size_def)
  have tw: "vmalloc_zeroed ok i (fake_twin_rd_bad_lunpba_size ?g) =
      Some (zeroed (round_page (lun_count ?g * logicbs_in_sibling_eblock ?g * 2 div 8)))" for i
    using vmalloc_round [OF pos(4), of ok i] g ok by (simp add: geometry_ok_def fake_twin_rd_bad_lunpba_size_def)
  show ?thesis by (simp add: init_err_injection_def Let_def lun rd wr er tw)
qed

lemma test_zeroed: "i div 64 < n \<Longrightarrow> shannon_test_bit i (replicate n 0) = Some False"
  by (simp add: shannon_test_bit_def)

lemma lun_word: "lun < n \<Longrightarrow> lun div 64 < (n + 63) div (64 :: nat)"
  by (simp add: div_less_iff_less_mult)

text \<open>The verdicts on a device whose unit arrays are clear.\<close>

lemma clear_lun:
  assumes "rwe_err_buf_done d" "fake_bad_lun d = Some (replicate ((n + 63) div 64) 0)" "lun < n"
  shows "is_fake_bad_lun lun d = Some False" "bad_lun_verdict lun blk d = Some False"
  using assms test_zeroed [OF lun_word [OF assms(3)]]
  by (simp_all add: is_fake_bad_lun_def bad_lun_verdict_def test_in_def)

text \<open>Positions in range have distinct bit numbers inside the array.\<close>

lemma in_array_index:
  assumes "\<forall>x \<in> set xs. in_array g n x" "in_array g n y" "8 * b = lun_count g * n \<or> lun_count g * n \<le> 8 * b"
    and f: "f = (\<lambda>(l, p). l * n + p)"
  shows "\<forall>x \<in> set xs. f x div 64 < round_page b div 8" "f y div 64 < round_page b div 8"
    "f y \<in> f ` set xs \<longleftrightarrow> y \<in> set xs"
proof -
  have lt: "f x < lun_count g * n" if "in_array g n x" for x
    using flat_index(1) [of "fst x" "lun_count g" "snd x" n] that by (simp add: in_array_def f case_prod_beta)
  then have "f x < 8 * b" if "in_array g n x" for x using that assms(3) by fastforce
  then show "\<forall>x \<in> set xs. f x div 64 < round_page b div 8" "f y div 64 < round_page b div 8"
    using assms(1,2) round_page_words by blast+
  have inj: "x = y" if "in_array g n x" "f x = f y" for x
    using flat_index(2) [of "fst y" "lun_count g" "snd y" n "fst x" "snd x"] that assms(2)
    by (simp add: in_array_def f case_prod_beta prod_eq_iff)
  then show "f y \<in> f ` set xs \<longleftrightarrow> y \<in> set xs" using assms(1) by (auto simp: image_iff)
qed

text \<open>Arrays addressed by unit and position.\<close>

locale err_grid = err_marker mark sel upd idx
  for mark :: "nat \<times> nat \<Rightarrow> err_dev \<Rightarrow> err_dev option" and sel upd idx +
  fixes width :: "geometry \<Rightarrow> nat"
  assumes idx_flat: "idx g x = fst x * width g + snd x"
begin

lemma grid_exact:
  assumes d: "rwe_err_buf_done d" "sel d = Some (zeroed (round_page b))" "ed_geo d = g"
    and b: "lun_count g * width g \<le> 8 * b" and xs: "\<forall>x \<in> set xs. in_array g (width g) x"
  shows "\<exists>m'. fold_opt mark xs d = Some (upd (Some m') d) \<and>
    (\<forall>y. in_array g (width g) y \<longrightarrow> shannon_test_bit (idx g y) m' = Some (y \<in> set xs))"
proof -
  have ix: "idx g = (\<lambda>(l, p). l * width g + p)" using idx_flat by (simp add: fun_eq_iff)
  have "\<forall>x \<in> set xs. idx (ed_geo d) x div 64 < length (zeroed (round_page b))"
    using in_array_index(2) [OF xs _ disjI2 [OF b] ix] xs d(3) by (simp add: zeroed_def)
  from marks_exact [OF d(1,2) this] obtain m' where m': "fold_opt mark xs d = Some (upd (Some m') d)"
      "\<forall>i. i div 64 < length (zeroed (round_page b)) \<longrightarrow> shannon_test_bit i m' =
         Some (i \<in> idx (ed_geo d) ` set xs \<or> shannon_test_bit i (zeroed (round_page b)) = Some True)"
    by blast
  have "shannon_test_bit (idx g y) m' = Some (y \<in> set xs)" if "in_array g (width g) y" for y
    using m'(2) in_array_index(2,3) [OF xs that disjI2 [OF b] ix] d(3) test_zeroed by (simp add: zeroed_def)
  then show ?thesis using m'(1) by blast
qed

end

interpretation wrm: err_grid "\<lambda>(lun, ppa). mark_fake_wr_bad_lunppa lun ppa" fake_wr_bad_lunppa
  "\<lambda>p d. d\<lparr>fake_wr_bad_lunppa := p\<rparr>" "\<lambda>g (lun, ppa). wr_offset g lun ppa" wr_bits
  by unfold_locales (auto simp: mark_fake_wr_bad_lunppa_def wr_offset_def wr_bits_def mult.assoc)

interpretation rdm: err_grid "\<lambda>(lun, pba). mark_fake_rd_bad_lunpba lun pba" fake_rd_bad_lunpba
  "\<lambda>p d. d\<lparr>fake_rd_bad_lunpba := p\<rparr>" "\<lambda>g (lun, pba). rd_offset g lun pba" rd_bits
  by unfold_locales (auto simp: mark_fake_rd_bad_lunpba_def rd_offset_def rd_bits_def mult.assoc)

interpretation erm: err_grid "\<lambda>(lun, blk). mark_fake_er_bad_block lun blk" fake_er_bad_block
  "\<lambda>p d. d\<lparr>fake_er_bad_block := p\<rparr>" "\<lambda>g (lun, blk). lun * eblocks_in_lun g + blk" eblocks_in_lun
  by unfold_locales (auto simp: mark_fake_er_bad_block_def)

text \<open>A device right after a successful initialisation.\<close>

definition fresh_err_dev :: "geometry \<Rightarrow> err_dev \<Rightarrow> bool" where
  "fresh_err_dev g d \<longleftrightarrow> rwe_err_buf_done d \<and> ed_geo d = g \<and> geometry_ok g \<and>
     fake_bad_lun d = Some (replicate ((lun_count g + 63) div 64) 0) \<and>
     fake_rd_bad_lun d = Some (replicate ((lun_count g + 63) div 64) 0) \<and>
     fake_wr_bad_lunppa d = Some (zeroed (round_page (lun_count g * wr_bits g div 8))) \<and>
     fake_rd_bad_lunpba d = Some (zeroed (round_page (lun_count g * rd_bits g div 8))) \<and>
     fake_er_bad_block d = Some (zeroed (round_page ((eblocks_in_lun g * lun_count g + 7) div 8)))"

lemma init_fresh:
  "geometry_ok (ed_geo d0) \<Longrightarrow> \<forall>i. ok i \<Longrightarrow> init_err_injection ok d0 = (ret, d, freed) \<Longrightarrow> fresh_err_dev (ed_geo d0) d"
  using init_success [of d0 ok] by (auto simp: Let_def fresh_err_dev_def)

lemma wr_marks:
  assumes d: "fresh_err_dev g d" and xs: "\<forall>x \<in> set xs. in_array g (wr_bits g) x"
  shows "\<exists>d'. fold_opt (\<lambda>(lun, ppa). mark_fake_wr_bad_lunppa lun ppa) xs d = Some d' \<and>
    (\<forall>y. in_array g (wr_bits g) y \<longrightarrow> is_fake_wr_bad_lunppa (fst y) (snd y) d' = Some (y \<in> set xs))"
proof -
  note d' = d [unfolded fresh_err_dev_def geometry_ok_def]
  obtain m' where m': "fold_opt (\<lambda>(lun, ppa). mark_fake_wr_bad_lunppa lun ppa) xs d = Some (d\<lparr>fake_wr_bad_lunppa := Some m'\<rparr>)"
      "\<forall>y. in_array g (wr_bits g) y \<longrightarrow> shannon_test_bit (wr_offset g (fst y) (snd y)) m' = Some (y \<in> set xs)"
    using wrm.grid_exact [of d "lun_count g * wr_bits g div 8" g xs] xs d' by (auto simp: case_prod_beta)
  have "is_fake_wr_bad_lunppa (fst y) (snd y) (d\<lparr>fake_wr_bad_lunppa := Some m'\<rparr>) = Some (y \<in> set xs)"
    if y: "in_array g (wr_bits g) y" for y
  proof -
    have "bad_lun_verdict (fst y) blk (d\<lparr>fake_wr_bad_lunppa := Some m'\<rparr>) = Some False" for blk
      by (rule clear_lun(2)) (use d' y in \<open>auto simp: in_array_def\<close>)
    then show ?thesis
      using m'(2) y d' by (auto simp: is_fake_wr_bad_lunppa_def test_in_def Let_def split: bool.split)
  qed
  then show ?thesis using m'(1) by blast
qed

lemma rd_marks:
  assumes d: "fresh_err_dev g d" and xs: "\<forall>x \<in> set xs. in_array g (rd_bits g) x"
  shows "\<exists>d'. fold_opt (\<lambda>(lun, pba). mark_fake_rd_bad_lunpba lun pba) xs d = Some d' \<and>
    (\<forall>y. in_array g (rd_bits g) y \<longrightarrow> is_fake_rd_bad_lunpba (fst y) (snd y) d' = Some (y \<in> set xs))"
proof -
  note d' = d [unfolded fresh_err_dev_def geometry_ok_def]
  obtain m' where m': "fold_opt (\<lambda>(lun, pba). mark_fake_rd_bad_lunpba lun pba) xs d = Some (d\<lparr>fake_rd_bad_lunpba := Some m'\<rparr>)"
      "\<forall>y. in_array g (rd_bits g) y \<longrightarrow> shannon_test_bit (rd_offset g (fst y) (snd y)) m' = Some (y \<in> set xs)"
    using rdm.grid_exact [of d "lun_count g * rd_bits g div 8" g xs] xs d' by (auto simp: case_prod_beta)
  have "is_fake_rd_bad_lunpba (fst y) (snd y) (d\<lparr>fake_rd_bad_lunpba := Some m'\<rparr>) = Some (y \<in> set xs)"
    if y: "in_array g (rd_bits g) y" for y
  proof -
    have lun: "fst y < lun_count g" using y by (simp add: in_array_def)
    have "is_fake_bad_lun (fst y) (d\<lparr>fake_rd_bad_lunpba := Some m'\<rparr>) = Some False"
      by (rule clear_lun(1) [OF _ _ lun]) (use d' in auto)
    moreover have "is_fake_rd_bad_lun (fst y) (d\<lparr>fake_rd_bad_lunpba := Some m'\<rparr>) = Some False"
      using d' test_zeroed [OF lun_word [OF lun]] by (simp add: is_fake_rd_bad_lun_def test_in_def)
    ultimately show ?thesis
      using m'(2) y d' by (auto simp: is_fake_rd_bad_lunpba_def test_in_def Let_def split: bool.split)
  qed
  then show ?thesis using m'(1) by blast
qed

lemma er_marks:
  assumes d: "fresh_err_dev g d" and xs: "\<forall>x \<in> set xs. in_array g (eblocks_in_lun g) x"
  shows "\<exists>d'. fold_opt (\<lambda>(lun, blk). mark_fake_er_bad_block lun blk) xs d = Some d' \<and>
    (\<forall>y. in_array g (eblocks_in_lun g) y \<longrightarrow> is_fake_er_bad_block (fst y) (snd y) d' = Some (y \<in> set xs))"
proof -
  note d' = d [unfolded fresh_err_dev_def geometry_ok_def]
  have "lun_count g * eblocks_in_lun g \<le> 8 * ((eblocks_in_lun g * lun_count g + 7) div 8)"
    by (simp add: mult.commute)
  then obtain m' where m': "fold_opt (\<lambda>(lun, blk). mark_fake_er_bad_block lun blk) xs d = Some (d\<lparr>fake_er_bad_block := Some m'\<rparr>)"
      "\<forall>y. in_array g (eblocks_in_lun g) y \<longrightarrow> shannon_test_bit (fst y * eblocks_in_lun g + snd y) m' = Some (y \<in> set xs)"
    using erm.grid_exact [of d "(eblocks_in_lun g * lun_count g + 7) div 8" g xs] xs d' by (auto simp: case_prod_beta)
  have "is_fake_er_bad_block (fst y) (snd y) (d\<lparr>fake_er_bad_block := Some m'\<rparr>) = Some (y \<in> set xs)"
    if y: "in_array g (eblocks_in_lun g) y" for y
  proof -
    have "bad_lun_verdict (fst y) blk (d\<lparr>fake_er_bad_block := Some m'\<rparr>) = Some False" for blk
      by (rule clear_lun(2)) (use d' y in \<open>auto simp: in_array_def\<close>)
    then show ?thesis
      using m'(2) y d' by (auto simp: is_fake_er_bad_block_def test_in_def Let_def split: bool.split)
  qed
  then show ?thesis using m'(1) by blast
qed

text \<open>The index of a block is an \<open>int\<close> in the code; for a device with fewer than \<open>2\<^sup>3\<^sup>1\<close> blocks it is the number of the model.\<close>

lemma er_index_fits:
  assumes "in_array g (eblocks_in_lun g) (lun, blk)" "lun_count g * eblocks_in_lun g < 2 ^ 31"
  shows "sint (of_nat lun * of_nat (eblocks_in_lun g) + of_nat blk :: u32) = int (lun * eblocks_in_lun g + blk)"
proof -
  have b: "Suc lun \<le> lun_count g" "blk < eblocks_in_lun g" using assms(1) by (auto simp: in_array_def)
  have "lun * eblocks_in_lun g + blk < Suc lun * eblocks_in_lun g" using b(2) by simp
  also have "\<dots> \<le> lun_count g * eblocks_in_lun g" using b(1) by (rule mult_le_mono1)
  finally have "lun * eblocks_in_lun g + blk < 2 ^ 31" using assms(2) by linarith
  from sint_of_nat_small [OF this] show ?thesis by (simp only: of_nat_add of_nat_mult)
qed

text \<open>C26 (roundtrip). After the arrays were allocated for a geometry whose bit counts are whole bytes: every page, sector and
  block position of the device can be marked, in any order and any number, without touching memory
  outside the arrays, and afterwards the write, read and erase queries report exactly the marked
  positions as failing, for every unit and position.\<close>

theorem err_marks_exact:
  assumes "geometry_ok (ed_geo d0)" "\<forall>i. ok i" "init_err_injection ok d0 = (ret, d, freed)" "g = ed_geo d0"
  shows "(\<forall>xs. (\<forall>x \<in> set xs. in_array g (wr_bits g) x) \<longrightarrow>
      (\<exists>d'. fold_opt (\<lambda>(lun, ppa). mark_fake_wr_bad_lunppa lun ppa) xs d = Some d' \<and>
        (\<forall>y. in_array g (wr_bits g) y \<longrightarrow> is_fake_wr_bad_lunppa (fst y) (snd y) d' = Some (y \<in> set xs)))) \<and>
    (\<forall>xs. (\<forall>x \<in> set xs. in_array g (rd_bits g) x) \<longrightarrow>
      (\<exists>d'. fold_opt (\<lambda>(lun, pba). mark_fake_rd_bad_lunpba lun pba) xs d = Some d' \<and>
        (\<forall>y. in_array g (rd_bits g) y \<longrightarrow> is_fake_rd_bad_lunpba (fst y) (snd y) d' = Some (y \<in> set xs)))) \<and>
    (\<forall>xs. (\<forall>x \<in> set xs. in_array g (eblocks_in_lun g) x) \<longrightarrow>
      (\<exists>d'. fold_opt (\<lambda>(lun, blk). mark_fake_er_bad_block lun blk) xs d = Some d' \<and>
        (\<forall>y. in_array g (eblocks_in_lun g) y \<longrightarrow> is_fake_er_bad_block (fst y) (snd y) d' = Some (y \<in> set xs))))"
proof -
  have "fresh_err_dev g d" using init_fresh assms by blast
  then show ?thesis by (intro conjI allI impI wr_marks rd_marks er_marks)
qed

definition sample_geo :: geometry where
  "sample_geo = \<lparr>lun_count = 2, sb_count = 2, planes = 2, pages_in_eblock = 4, logicbs_in_sibling_eblock = 16,
     logicbs_in_page = 2, logicbs_in_eblock = 8, eblocks_in_lun = 4, mbr_eblocks = 1, max_luns_in_group = 2,
     parity_groups = 1, shared_pages = 1, mbr_pages_in_eblock = 4\<rparr>"

definition sample_err_dev :: err_dev where
  "sample_err_dev = \<lparr>ed_geo = sample_geo, rwe_err_buf_done = False, fake_bad_lun = None,
     fake_cmd_timeout_lun = None, fake_rd_bad_lun = None, fake_rd_bad_lunpba = None, fake_wr_bad_lunppa = None,
     fake_er_bad_block = None, fake_twin_rd_bad_lunpba = None, fake_bad_lun_skipmbr = False, twin_read_err = False\<rparr>"

lemma sample_geo_ok: "geometry_ok (ed_geo sample_err_dev)"
  by (simp add: sample_err_dev_def sample_geo_def geometry_ok_def wr_bits_def rd_bits_def round_page_def)

theorem err_marks_exact_witness:
  "geometry_ok (ed_geo sample_err_dev) \<and>
   (let d = fst (snd (init_err_injection (\<lambda>i. True) sample_err_dev)) in
    \<exists>d'. fold_opt (\<lambda>(lun, ppa). mark_fake_wr_bad_lunppa lun ppa) [(1, 5), (0, 15)] d = Some d' \<and>
      is_fake_wr_bad_lunppa 1 5 d' = Some True \<and> is_fake_wr_bad_lunppa 1 6 d' = Some False)"
proof -
  let ?d = "fst (snd (init_err_injection (\<lambda>i. True) sample_err_dev))"
  have g: "sample_geo = ed_geo sample_err_dev" by (simp add: sample_err_dev_def)
  have init: "init_err_injection (\<lambda>i. True) sample_err_dev =
      (fst (init_err_injection (\<lambda>i. True) sample_err_dev), ?d, snd (snd (init_err_injection (\<lambda>i. True) sample_err_dev)))"
    by (simp only: prod.collapse)
  have arr: "in_array sample_geo (wr_bits sample_geo) x" if "x \<in> {(1, 5), (0, 15), (1, 6)}" for x
    using that by (auto simp: in_array_def wr_bits_def sample_geo_def)
  then have "\<forall>x \<in> set [(1, 5), (0, 15)]. in_array sample_geo (wr_bits sample_geo) x" by simp
  then obtain d' where "fold_opt (\<lambda>(lun, ppa). mark_fake_wr_bad_lunppa lun ppa) [(1, 5), (0, 15)] ?d = Some d'"
      "\<forall>y. in_array sample_geo (wr_bits sample_geo) y \<longrightarrow>
         is_fake_wr_bad_lunppa (fst y) (snd y) d' = Some (y \<in> set [(1, 5), (0, 15)])"
    using conjunct1 [OF err_marks_exact [OF sample_geo_ok _ init g], THEN spec, THEN mp] by blast
  then have "is_fake_wr_bad_lunppa 1 5 d' = Some True" "is_fake_wr_bad_lunppa 1 6 d' = Some False"
    "fold_opt (\<lambda>(lun, ppa). mark_fake_wr_bad_lunppa lun ppa) [(1, 5), (0, 15)] ?d = Some d'"
    using arr [of "(1, 5)"] arr [of "(1, 6)"] by force+
  then show ?thesis unfolding Let_def using sample_geo_ok by blast
qed

text \<open>The sizes in the order of allocation, and the outcome of the \<open>i\<close>-th allocation.\<close>

definition err_sizes :: "geometry \<Rightarrow> int list" where
  "err_sizes g = [fake_bad_lun_size g, fake_bad_lun_size g, fake_bad_lun_size g, fake_rd_bad_lunpba_size g,
     fake_wr_bad_lunppa_size g, fake_er_bad_block_size g, fake_twin_rd_bad_lunpba_size g]"

definition err_alloc :: "(nat \<Rightarrow> bool) \<Rightarrow> geometry \<Rightarrow> nat \<Rightarrow> bitmap option" where
  "err_alloc ok g i = vmalloc_zeroed ok i (err_sizes g ! i)"

definition no_err_arrays :: "err_dev \<Rightarrow> bool" where
  "no_err_arrays d \<longleftrightarrow> (\<forall>a. array_of a d = None)"

text \<open>The search for the first failing allocation, and the run it determines.\<close>

lemma first_failure:
  fixes n :: nat
  shows "(\<forall>i < n. P i) \<or> (\<exists>k < n. (\<forall>i < k. P i) \<and> \<not> P k)"
proof (induction n)
  case (Suc n)
  then show ?case by (cases "P n") (auto simp: less_Suc_eq)
qed simp

lemma below_seven: "(\<forall>i < 7. P i) \<longleftrightarrow> P 0 \<and> P 1 \<and> P 2 \<and> P 3 \<and> P 4 \<and> P 5 \<and> P (6 :: nat)"
  by (auto simp: numeral_eq_Suc All_less_Suc)

lemma err_alloc_simps:
  "vmalloc_zeroed ok 0 (fake_bad_lun_size g) = err_alloc ok g 0"
  "vmalloc_zeroed ok 1 (fake_bad_lun_size g) = err_alloc ok g 1"
  "vmalloc_zeroed ok (Suc 0) (fake_bad_lun_size g) = err_alloc ok g 1"
  "vmalloc_zeroed ok 2 (fake_bad_lun_size g) = err_alloc ok g 2"
  "vmalloc_zeroed ok 3 (fake_rd_bad_lunpba_size g) = err_alloc ok g 3"
  "vmalloc_zeroed ok 4 (fake_wr_bad_lunppa_size g) = err_alloc ok g 4"
  "vmalloc_zeroed ok 5 (fake_er_bad_block_size g) = err_alloc ok g 5"
  "vmalloc_zeroed ok 6 (fake_twin_rd_bad_lunpba_size g) = err_alloc ok g 6"
  by (simp_all add: err_alloc_def err_sizes_def)

lemma init_failing_at:
  assumes "no_err_arrays d" "k < 7" "\<forall>i < k. err_alloc ok (ed_geo d) i \<noteq> None" "err_alloc ok (ed_geo d) k = None"
  shows "fst (init_err_injection ok d) = - ENOMEM \<and>
    rwe_err_buf_done (fst (snd (init_err_injection ok d))) = rwe_err_buf_done d \<and>
    distinct (snd (snd (init_err_injection ok d))) \<and>
    set (snd (snd (init_err_injection ok d))) = set (take k release_err_injection)"
proof -
  have none: "array_of a d = None" for a using assms(1) by (simp add: no_err_arrays_def)
  note none' = none [of BadLun, simplified array_of_def err_array.case] none [of CmdTimeout, simplified array_of_def err_array.case]
    none [of RdBadLun, simplified array_of_def err_array.case] none [of RdBadLunpba, simplified array_of_def err_array.case]
    none [of WrBadLunppa, simplified array_of_def err_array.case] none [of ErBadBlock, simplified array_of_def err_array.case]
    none [of TwinRd, simplified array_of_def err_array.case]
  note before = assms(3) [rule_format, of 0] assms(3) [rule_format, of 1] assms(3) [rule_format, of 2]
    assms(3) [rule_format, of 3] assms(3) [rule_format, of 4] assms(3) [rule_format, of 5]
  consider "k = 0" | "k = 1" | "k = 2" | "k = 3" | "k = 4" | "k = 5" | "k = 6" using assms(2) by linarith
  then show ?thesis
    by cases (use before assms(4) none' in \<open>simp_all del: not_None_eq add: init_err_injection_def Let_def err_alloc_simps err_free_def array_of_def
        release_err_injection_def insert_commute\<close>)
qed

lemma init_all_allocated:
  assumes "\<forall>i < 7. err_alloc ok (ed_geo d) i \<noteq> None"
  shows "\<exists>d'. init_err_injection ok d = (0, d', []) \<and> rwe_err_buf_done d' \<and> (\<forall>a. array_of a d' \<noteq> None)"
  using assms unfolding below_seven
  by (simp del: not_None_eq add: init_err_injection_def Let_def err_alloc_simps array_of_def split: err_array.split)

text \<open>C32 (error). Initialisation of a device without arrays is all or nothing: if all seven allocations succeed it
  returns 0, every array is set, the arrays are marked ready and nothing is freed, and
  \<open>release_err_injection\<close> then frees each of the seven exactly once; if allocation \<open>k\<close> is the first to
  fail it returns \<open>-ENOMEM\<close>, the ready flag keeps its value and exactly the \<open>k\<close> arrays allocated before
  are freed, each once.\<close>

theorem init_err_injection_result:
  assumes "no_err_arrays d" and "init_err_injection ok d = (ret, d', freed)"
  shows "(\<forall>i < 7. err_alloc ok (ed_geo d) i \<noteq> None) \<and> ret = 0 \<and> rwe_err_buf_done d' \<and> freed = [] \<and>
      (\<forall>a. array_of a d' \<noteq> None) \<and> distinct release_err_injection \<and> set release_err_injection = UNIV
    \<or> (\<exists>k < 7. (\<forall>i < k. err_alloc ok (ed_geo d) i \<noteq> None) \<and> err_alloc ok (ed_geo d) k = None \<and>
      ret = - ENOMEM \<and> rwe_err_buf_done d' = rwe_err_buf_done d \<and> distinct freed \<and>
      set freed = set (take k release_err_injection))"
  using first_failure [of 7 "\<lambda>i. err_alloc ok (ed_geo d) i \<noteq> None"]
proof
  assume all: "\<forall>i < 7. err_alloc ok (ed_geo d) i \<noteq> None"
  have "x \<in> set release_err_injection" for x by (cases x) (simp_all add: release_err_injection_def)
  then have "set release_err_injection = UNIV" "distinct release_err_injection"
    by (auto simp: release_err_injection_def)
  then show ?thesis using init_all_allocated [OF all] all assms(2) by auto
next
  assume "\<exists>k < 7. (\<forall>i < k. err_alloc ok (ed_geo d) i \<noteq> None) \<and> \<not> err_alloc ok (ed_geo d) k \<noteq> None"
  then obtain k where k: "k < 7" "\<forall>i < k. err_alloc ok (ed_geo d) i \<noteq> None" "err_alloc ok (ed_geo d) k = None" by blast
  then show ?thesis using init_failing_at [OF assms(1) k] assms(2) by auto
qed

theorem init_err_injection_result_witness:
  "no_err_arrays sample_err_dev \<and>
   (case init_err_injection (\<lambda>i. i < 1) sample_err_dev of (ret, d', freed) \<Rightarrow> ret = - ENOMEM \<and> set freed = {BadLun})"
proof -
  have none: "no_err_arrays sample_err_dev"
    by (simp add: no_err_arrays_def array_of_def sample_err_dev_def split: err_array.split)
  have a1: "err_alloc (\<lambda>i. i < 1) (ed_geo sample_err_dev) 1 = None" by (simp add: err_alloc_def vmalloc_zeroed_def)
  have a0: "err_alloc (\<lambda>i. i < 1) (ed_geo sample_err_dev) 0 \<noteq> None"
    by (simp add: err_alloc_def vmalloc_zeroed_def err_sizes_def sample_err_dev_def sample_geo_def
        fake_bad_lun_size_def to_int32_small)
  obtain ret d' freed where run: "init_err_injection (\<lambda>i. i < 1) sample_err_dev = (ret, d', freed)" by (metis prod.collapse)
  consider "ret = 0" "err_alloc (\<lambda>i. i < 1) (ed_geo sample_err_dev) 1 \<noteq> None"
    | k where "\<forall>i < k. err_alloc (\<lambda>i. i < 1) (ed_geo sample_err_dev) i \<noteq> None"
        "err_alloc (\<lambda>i. i < 1) (ed_geo sample_err_dev) k = None" "ret = - ENOMEM"
        "set freed = set (take k release_err_injection)"
    using init_err_injection_result [OF none run] by (metis One_nat_def one_less_numeral_iff semiring_norm(77))
  then show ?thesis
  proof cases
    case (2 k)
    have "k = 1" using 2(1,2) a0 a1 by (metis One_nat_def less_Suc0 nat_neq_iff)
    then show ?thesis using 2 none run by (simp add: release_err_injection_def)
  qed (use a1 in blast)
qed

text \<open>The arrays of the two write heads share bits when the bits of one head are not a multiple of 64.\<close>

lemma twin_heads_share_bits:
  "twin_bit (sample_geo\<lparr>lun_count := 1, logicbs_in_sibling_eblock := 65\<rparr>) 0 64 0 =
   twin_bit (sample_geo\<lparr>lun_count := 1, logicbs_in_sibling_eblock := 65\<rparr>) 0 0 1"
  by (simp add: twin_bit_def)

text \<open>The size of the page array rounds the number of bytes down: the last positions can lie outside.\<close>

lemma wr_size_rounds_down:
  "let g = sample_geo\<lparr>lun_count := 1, sb_count := 1, planes := 1, pages_in_eblock := 32769\<rparr> in
   32768 < wr_bits g \<and> int (wr_offset g 0 32768 div 8) \<ge> fake_wr_bad_lunppa_size g"
  by (simp add: wr_offset_def wr_bits_def fake_wr_bad_lunppa_size_def sample_geo_def round_page_def to_int32_small)

end
