(* ===== verification/Pci.thy ===== *)
theory Pci
  imports Kcore "HOL-Library.State_Monad"
begin

text \<open>
  PCI access (\<^verbatim>\<open>shannon_pci.c\<close>). The functions read and write configuration space, sleep, save and
  restore the state of a device. They are programs of the state monad over the history of these
  events; what a read returns may depend on the whole history, so nothing is assumed of the hardware.
  A small calculus of emitted events (\<open>emits\<close>) carries the proofs.
\<close>

section \<open>Devices and events\<close>

datatype pci_event = Rd nat nat | Wr nat nat u32 | Msleep nat | SaveState nat | RestoreState nat

text \<open>The hardware: the result code and value of a read, given the history, and the position of a capability.\<close>

record pci_hw =
  hw_read :: "pci_event list \<Rightarrow> nat \<Rightarrow> nat \<Rightarrow> int \<times> u32"
  hw_cap :: "nat \<Rightarrow> nat \<Rightarrow> nat"

text \<open>The fields of \<open>struct pci_dev\<close> and of its bus and slot that the driver uses; \<open>bus_number\<close> is
  \<open>None\<close> without a bus, \<open>bus_self\<close> is the bridge above, \<open>slot\<close> the slot with its hotplug controller.\<close>

record pci_dev =
  pd_id :: nat
  devfn :: u32
  vendor :: u16
  device :: u16
  subsystem_vendor :: u16
  subsystem_device :: u16
  pci_class :: u32
  pd_irq :: u32
  bus_number :: "u8 option"
  bus_is_root :: bool
  bus_self :: "nat option"
  bus_devices :: "nat list"
  subordinate :: bool
  pm_cap :: nat
  current_state :: nat
  d3_delay :: nat
  slot :: "nat option option"

type_synonym 'a pci = "(pci_event list, 'a) state"

definition emit :: "pci_event \<Rightarrow> unit pci" where
  "emit e = State (\<lambda>tr. ((), tr @ [e]))"

definition cfg_read :: "pci_hw \<Rightarrow> nat \<Rightarrow> nat \<Rightarrow> (int \<times> u32) pci" where
  "cfg_read hw d off = State (\<lambda>tr. (hw_read hw tr d off, tr @ [Rd d off]))"

definition pci_read_config_dword :: "pci_hw \<Rightarrow> nat \<Rightarrow> nat \<Rightarrow> (int \<times> u32) pci" where
  "pci_read_config_dword hw d off = cfg_read hw d off"

definition pci_read_config_word :: "pci_hw \<Rightarrow> nat \<Rightarrow> nat \<Rightarrow> (int \<times> u16) pci" where
  "pci_read_config_word hw d off = do { r \<leftarrow> cfg_read hw d off; State_Monad.return (fst r, ucast (snd r)) }"

definition pci_read_config_byte :: "pci_hw \<Rightarrow> nat \<Rightarrow> nat \<Rightarrow> (int \<times> u8) pci" where
  "pci_read_config_byte hw d off = do { r \<leftarrow> cfg_read hw d off; State_Monad.return (fst r, ucast (snd r)) }"

definition pci_write_config_word :: "nat \<Rightarrow> nat \<Rightarrow> u16 \<Rightarrow> unit pci" where
  "pci_write_config_word d off v = emit (Wr d off (ucast v))"

definition pci_write_config_byte :: "nat \<Rightarrow> nat \<Rightarrow> u8 \<Rightarrow> unit pci" where
  "pci_write_config_byte d off v = emit (Wr d off (ucast v))"

definition shannon_msleep :: "nat \<Rightarrow> unit pci" where "shannon_msleep ms = emit (Msleep ms)"
definition pci_save_state :: "nat \<Rightarrow> unit pci" where "pci_save_state d = emit (SaveState d)"
definition pci_restore_state :: "nat \<Rightarrow> unit pci" where "pci_restore_state d = emit (RestoreState d)"

text \<open>Register offsets and bits (\<^verbatim>\<open><uapi/linux/pci_regs.h>\<close>).\<close>

definition PCI_CAP_ID_EXP :: nat where [kernel_consts]: "PCI_CAP_ID_EXP = 0x10"
definition PCI_CAP_ID_AF :: nat where [kernel_consts]: "PCI_CAP_ID_AF = 0x13"
definition PCI_COMMAND :: nat where [kernel_consts]: "PCI_COMMAND = 4"
definition PCI_COMMAND_INTX_DISABLE :: u16 where [kernel_consts]: "PCI_COMMAND_INTX_DISABLE = 0x400"
definition PCI_BRIDGE_CONTROL :: nat where [kernel_consts]: "PCI_BRIDGE_CONTROL = 0x3e"
definition PCI_BRIDGE_CTL_BUS_RESET :: u16 where [kernel_consts]: "PCI_BRIDGE_CTL_BUS_RESET = 0x40"
definition PCI_EXP_FLAGS :: nat where [kernel_consts]: "PCI_EXP_FLAGS = 2"
definition PCI_EXP_FLAGS_VERS :: u16 where [kernel_consts]: "PCI_EXP_FLAGS_VERS = 0xf"
definition PCI_EXP_DEVCAP :: nat where [kernel_consts]: "PCI_EXP_DEVCAP = 4"
definition PCI_EXP_DEVCAP_FLR :: u32 where [kernel_consts]: "PCI_EXP_DEVCAP_FLR = 0x10000000"
definition PCI_EXP_DEVCTL :: nat where [kernel_consts]: "PCI_EXP_DEVCTL = 8"
definition PCI_EXP_DEVCTL_CERE :: u16 where [kernel_consts]: "PCI_EXP_DEVCTL_CERE = 1"
definition PCI_EXP_DEVCTL_PAYLOAD :: u16 where [kernel_consts]: "PCI_EXP_DEVCTL_PAYLOAD = 0xe0"
definition PCI_EXP_DEVCTL_READRQ :: u16 where [kernel_consts]: "PCI_EXP_DEVCTL_READRQ = 0x7000"
definition PCI_EXP_DEVCTL_BCR_FLR :: u16 where [kernel_consts]: "PCI_EXP_DEVCTL_BCR_FLR = 0x8000"
definition PCI_EXP_DEVSTA :: nat where [kernel_consts]: "PCI_EXP_DEVSTA = 10"
definition PCI_EXP_DEVSTA_TRPND :: u16 where [kernel_consts]: "PCI_EXP_DEVSTA_TRPND = 0x20"
definition PCI_EXP_LNKCAP :: nat where [kernel_consts]: "PCI_EXP_LNKCAP = 12"
definition PCI_EXP_LNKCTL :: nat where [kernel_consts]: "PCI_EXP_LNKCTL = 16"
definition PCI_EXP_LNKCTL_LD :: u16 where [kernel_consts]: "PCI_EXP_LNKCTL_LD = 0x10"
definition PCI_EXP_LNKCTL_RL :: u16 where [kernel_consts]: "PCI_EXP_LNKCTL_RL = 0x20"
definition PCI_EXP_LNKSTA :: nat where [kernel_consts]: "PCI_EXP_LNKSTA = 18"
definition PCI_EXP_SLTCTL :: nat where [kernel_consts]: "PCI_EXP_SLTCTL = 24"
definition PCI_EXP_SLTCTL_HPIE :: u16 where [kernel_consts]: "PCI_EXP_SLTCTL_HPIE = 0x20"
definition PCI_EXP_DEVCAP2 :: nat where [kernel_consts]: "PCI_EXP_DEVCAP2 = 36"
definition PCI_EXP_DEVCTL2 :: nat where [kernel_consts]: "PCI_EXP_DEVCTL2 = 40"
definition PCI_AF_CAP :: nat where [kernel_consts]: "PCI_AF_CAP = 3"
definition PCI_AF_CAP_TP :: u8 where [kernel_consts]: "PCI_AF_CAP_TP = 1"
definition PCI_AF_CAP_FLR :: u8 where [kernel_consts]: "PCI_AF_CAP_FLR = 2"
definition PCI_AF_CTRL :: nat where [kernel_consts]: "PCI_AF_CTRL = 4"
definition PCI_AF_CTRL_FLR :: u8 where [kernel_consts]: "PCI_AF_CTRL_FLR = 1"
definition PCI_AF_STATUS :: nat where [kernel_consts]: "PCI_AF_STATUS = 5"
definition PCI_AF_STATUS_TP :: u8 where [kernel_consts]: "PCI_AF_STATUS_TP = 1"
definition PCI_PM_CTRL :: nat where [kernel_consts]: "PCI_PM_CTRL = 4"
definition PCI_PM_CTRL_NO_SOFT_RESET :: u16 where [kernel_consts]: "PCI_PM_CTRL_NO_SOFT_RESET = 8"
definition PCI_PM_CTRL_STATE_MASK :: u16 where [kernel_consts]: "PCI_PM_CTRL_STATE_MASK = 3"
definition PCI_D0 :: nat where [kernel_consts]: "PCI_D0 = 0"
definition PCI_D3hot :: u16 where [kernel_consts]: "PCI_D3hot = 3"
definition PCI_EXP_DEVCAP2_TIMEOUT :: u32 where [kernel_consts]: "PCI_EXP_DEVCAP2_TIMEOUT = 0xf"
definition PCI_EXP_TIMEOUT_RANGE_B :: u32 where [kernel_consts]: "PCI_EXP_TIMEOUT_RANGE_B = 0x2"

section \<open>Interrupt vectors\<close>

record msix_entry =
  me_vector :: u32
  me_entry :: u16

text \<open>The table, if it was allocated, and the result; \<open>range_ret\<close> is what the kernel call returns and \<open>vec\<close>
  the vectors it assigns on success.\<close>

definition shannon_pci_enable_msix ::
    "bool \<Rightarrow> int \<Rightarrow> (nat \<Rightarrow> u32) \<Rightarrow> nat \<Rightarrow> int \<times> msix_entry list option" where
  "shannon_pci_enable_msix alloc_ok range_ret vec nvec =
    (if \<not> alloc_ok then (- ENOMEM, None)
     else let msix_data = map (\<lambda>i. \<lparr>me_vector = 0, me_entry = of_nat i\<rparr>) [0 ..< nvec]
     in if range_ret < 0 then (range_ret, Some msix_data)
        else (0, Some (map (\<lambda>(i, e). e\<lparr>me_vector := vec i\<rparr>) (zip [0 ..< nvec] msix_data))))"

text \<open>The table is handed to \<open>shannon_kfree\<close> and the pointer cleared.\<close>

definition shannon_pci_disable_msix :: "msix_entry list option \<Rightarrow> msix_entry list option \<times> msix_entry list option" where
  "shannon_pci_disable_msix msix_data = (msix_data, None)"

text \<open>The first entry with the vector, or \<open>entry_count\<close>; \<open>None\<close> for a read behind the table.\<close>

function msix_entry_from :: "msix_entry list \<Rightarrow> u32 \<Rightarrow> nat \<Rightarrow> nat \<Rightarrow> nat option" where
  "msix_entry_from tab irq entry_count entry =
    (if entry < entry_count then
       (if entry \<ge> length tab then None
        else if me_vector (tab ! entry) = irq then Some entry
        else msix_entry_from tab irq entry_count (entry + 1))
     else Some entry)"
  by pat_completeness auto
termination by (relation "measure (\<lambda>(tab, irq, n, e). n - e)") auto

declare msix_entry_from.simps [simp del]

definition shannon_pci_get_msix_entry :: "msix_entry list \<Rightarrow> u32 \<Rightarrow> nat \<Rightarrow> nat option" where
  "shannon_pci_get_msix_entry tab irq entry_count = msix_entry_from tab irq entry_count 0"

definition shannon_pci_get_msix_vector :: "msix_entry list \<Rightarrow> nat \<Rightarrow> nat \<Rightarrow> int option" where
  "shannon_pci_get_msix_vector tab index entry_count =
    (if index < entry_count then (if index < length tab then Some (sint (me_vector (tab ! index))) else None)
     else Some (- 1))"

section \<open>Hotplug slot\<close>

definition check_hot_pluggable :: "pci_dev \<Rightarrow> int" where
  "check_hot_pluggable dev = (case slot dev of None \<Rightarrow> 0 | Some None \<Rightarrow> 0 | Some (Some hp) \<Rightarrow> 1)"

text \<open>\<open>None\<close>: no slot or no controller. \<open>query\<close> is the controller's method: a result code and the status.\<close>

definition shannon_get_adapter_status :: "(nat \<Rightarrow> int \<times> u8) \<Rightarrow> pci_dev \<Rightarrow> int option" where
  "shannon_get_adapter_status query dev =
    (case slot dev of Some (Some hotplug) \<Rightarrow>
       (let (ret, adapter_status) = query hotplug
        in Some (if ret \<noteq> 0 then ret else uint adapter_status))
     | _ \<Rightarrow> None)"


text \<open>The controller whose \<open>disable_slot\<close> is called.\<close>

definition shannon_disable_slot :: "pci_dev \<Rightarrow> (int \<times> nat) option" where
  "shannon_disable_slot dev = (case slot dev of Some (Some hotplug) \<Rightarrow> Some (0, hotplug) | _ \<Rightarrow> None)"

section \<open>Link and bridge settings\<close>

definition shannon_pci_pcie_cap :: "pci_hw \<Rightarrow> nat \<Rightarrow> nat" where
  "shannon_pci_pcie_cap hw d = hw_cap hw d PCI_CAP_ID_EXP"

definition shannon_disable_correctable_aer :: "pci_hw \<Rightarrow> pci_dev \<Rightarrow> unit pci" where
  "shannon_disable_correctable_aer hw dev =
    (case bus_self dev of None \<Rightarrow> State_Monad.return ()
     | Some br \<Rightarrow>
        let bus_cap = shannon_pci_pcie_cap hw br in
        if bus_cap = 0 then State_Monad.return ()
        else do {
          bus_val \<leftarrow> pci_read_config_word hw br (bus_cap + PCI_EXP_DEVCTL);
          pci_write_config_word br (bus_cap + PCI_EXP_DEVCTL) (snd bus_val AND NOT PCI_EXP_DEVCTL_CERE)
        })"

definition shannon_set_max_payload_size :: "pci_hw \<Rightarrow> pci_dev \<Rightarrow> unit pci" where
  "shannon_set_max_payload_size hw dev =
    (case bus_self dev of None \<Rightarrow> State_Monad.return ()
     | Some br \<Rightarrow>
        let dev_cap = shannon_pci_pcie_cap hw (pd_id dev) in
        if dev_cap = 0 then State_Monad.return ()
        else do {
          val \<leftarrow> pci_read_config_word hw (pd_id dev) (dev_cap + PCI_EXP_DEVCTL);
          let bus_cap = shannon_pci_pcie_cap hw br;
          if bus_cap = 0 then State_Monad.return ()
          else do {
            bus_val \<leftarrow> pci_read_config_word hw br (bus_cap + PCI_EXP_DEVCTL);
            let mps = snd val AND PCI_EXP_DEVCTL_PAYLOAD;
            let bus_mps = snd bus_val AND PCI_EXP_DEVCTL_PAYLOAD;
            if mps \<noteq> bus_mps
            then pci_write_config_word (pd_id dev) (dev_cap + PCI_EXP_DEVCTL)
                   ((snd val AND NOT PCI_EXP_DEVCTL_PAYLOAD) OR bus_mps)
            else State_Monad.return ()
          }
        })"

definition shannon_set_bridge_timeout :: "pci_hw \<Rightarrow> pci_dev \<Rightarrow> unit pci" where
  "shannon_set_bridge_timeout hw dev =
    (case bus_self dev of None \<Rightarrow> State_Monad.return ()
     | Some bridge \<Rightarrow>
        let pos = shannon_pci_pcie_cap hw bridge in
        if pos = 0 then State_Monad.return ()
        else do {
          flags \<leftarrow> pci_read_config_word hw bridge (pos + PCI_EXP_FLAGS);
          if (snd flags AND PCI_EXP_FLAGS_VERS) < 2 then State_Monad.return ()
          else do {
            cap \<leftarrow> pci_read_config_dword hw bridge (pos + PCI_EXP_DEVCAP2);
            if snd cap AND PCI_EXP_DEVCAP2_TIMEOUT = 0 then State_Monad.return ()
            else if snd cap AND PCI_EXP_TIMEOUT_RANGE_B \<noteq> 0 then do {
              ctrl \<leftarrow> pci_read_config_word hw bridge (pos + PCI_EXP_DEVCTL2);
              pci_write_config_word bridge (pos + PCI_EXP_DEVCTL2) ((snd ctrl AND 0xf) OR 0x6)
            }
            else State_Monad.return ()
          }
        })"

text \<open>The variant for kernels before 2.6.23; on later ones it is a kernel call.\<close>

definition shannon_pcie_set_readrq :: "pci_hw \<Rightarrow> nat \<Rightarrow> nat \<Rightarrow> int pci" where
  "shannon_pcie_set_readrq hw d rq =
    (if rq < 128 \<or> rq > 4096 \<or> rq AND (rq - 1) \<noteq> 0 then State_Monad.return (- EINVAL)
     else let v = push_bit 12 (of_nat (ffs_word (of_nat rq) + 1 - 8)) :: u16;
              cap = hw_cap hw d PCI_CAP_ID_EXP
     in if cap = 0 then State_Monad.return (- EINVAL)
        else do {
          r \<leftarrow> pci_read_config_word hw d (cap + PCI_EXP_DEVCTL);
          if fst r \<noteq> 0 then State_Monad.return (fst r)
          else if snd r AND PCI_EXP_DEVCTL_READRQ \<noteq> v then do {
            pci_write_config_word d (cap + PCI_EXP_DEVCTL) ((snd r AND NOT PCI_EXP_DEVCTL_READRQ) OR v);
            State_Monad.return 0
          }
          else State_Monad.return 0
        })"

section \<open>Device information\<close>

record shannon_pci_info =
  pi_devfn :: u32
  vendor_id :: u16
  device_id :: u16
  subsystem_vendor_id :: u16
  subsystem_device_id :: u16
  pi_class :: u32
  pci_bus_number :: u8
  pci_slot_number :: u8
  pci_func_number :: u8
  lnkcap :: u32
  lnksta :: u16

definition get_pci_info :: "pci_hw \<Rightarrow> pci_dev \<Rightarrow> shannon_pci_info pci" where
  "get_pci_info hw dev =
    (let info = \<lparr>pi_devfn = devfn dev, vendor_id = vendor dev, device_id = device dev,
           subsystem_vendor_id = subsystem_vendor dev, subsystem_device_id = subsystem_device dev,
           pi_class = pci_class dev,
           pci_bus_number = (case bus_number dev of Some n \<Rightarrow> n | None \<Rightarrow> 255),
           pci_slot_number = ucast (drop_bit 3 (devfn dev) AND 0x1f),
           pci_func_number = ucast (devfn dev AND 0x07), lnkcap = 0, lnksta = 0\<rparr>;
         cap = hw_cap hw (pd_id dev) PCI_CAP_ID_EXP
     in if cap \<noteq> 0 then do {
          sta \<leftarrow> pci_read_config_word hw (pd_id dev) (cap + PCI_EXP_LNKSTA);
          lc \<leftarrow> pci_read_config_dword hw (pd_id dev) (cap + PCI_EXP_LNKCAP);
          State_Monad.return (info\<lparr>lnksta := (if fst sta \<noteq> 0 then 0 else snd sta),
                                   lnkcap := (if fst lc \<noteq> 0 then 0 else snd lc)\<rparr>)
        }
        else State_Monad.return info)"

definition zero_pci_info :: shannon_pci_info where
  "zero_pci_info = \<lparr>pi_devfn = 0, vendor_id = 0, device_id = 0, subsystem_vendor_id = 0, subsystem_device_id = 0,
     pi_class = 0, pci_bus_number = 0, pci_slot_number = 0, pci_func_number = 0, lnkcap = 0, lnksta = 0\<rparr>"

text \<open>\<open>dev_of\<close> gives the bridge its device.\<close>

definition get_pci_bus_info :: "pci_hw \<Rightarrow> (nat \<Rightarrow> pci_dev) \<Rightarrow> pci_dev \<Rightarrow> shannon_pci_info pci" where
  "get_pci_bus_info hw dev_of dev =
    (case (bus_number dev, bus_self dev) of (Some n, Some br) \<Rightarrow> get_pci_info hw (dev_of br)
     | _ \<Rightarrow> State_Monad.return zero_pci_info)"

definition dev_is_8639 :: "pci_dev \<Rightarrow> int" where "dev_is_8639 dev = (if device dev = 0x1275 then 1 else 0)"
definition dev_is_g5_ffsa :: "pci_dev \<Rightarrow> int" where "dev_is_g5_ffsa dev = (if device dev = 0x05a5 then 1 else 0)"
definition dev_is_g5_fpga :: "pci_dev \<Rightarrow> int" where
  "dev_is_g5_fpga dev = (if device dev = 0x25a5 \<or> device dev = 0x35a5 then 1 else 0)"

definition shannon_pci_get_max_linkwidth :: "shannon_pci_info option \<Rightarrow> nat" where
  "shannon_pci_get_max_linkwidth info = (case info of None \<Rightarrow> 0 | Some i \<Rightarrow> unat (drop_bit 4 (lnkcap i) AND 0x3f))"
definition shannon_pci_get_cur_linkwidth :: "shannon_pci_info option \<Rightarrow> nat" where
  "shannon_pci_get_cur_linkwidth info = (case info of None \<Rightarrow> 0 | Some i \<Rightarrow> unat (drop_bit 4 (lnksta i) AND 0x3f))"
definition shannon_pci_get_max_linkspeed :: "shannon_pci_info option \<Rightarrow> nat" where
  "shannon_pci_get_max_linkspeed info = (case info of None \<Rightarrow> 0 | Some i \<Rightarrow> unat (lnkcap i AND 0xf))"
definition shannon_pci_get_cur_linkspeed :: "shannon_pci_info option \<Rightarrow> nat" where
  "shannon_pci_get_cur_linkspeed info = (case info of None \<Rightarrow> 0 | Some i \<Rightarrow> unat (lnksta i AND 0xf))"

section \<open>Reset\<close>

text \<open>The waits for the pending bit: \<open>i\<close> runs from 0 to 3, with growing pauses from the second on.\<close>

fun wait_pending :: "('v \<Rightarrow> bool) \<Rightarrow> (int \<times> 'v) pci \<Rightarrow> nat list \<Rightarrow> unit pci" where
  "wait_pending pending status [] = State_Monad.return ()"
| "wait_pending pending status (i # is) = do {
     (if i \<noteq> 0 then shannon_msleep (2 ^ (i - 1) * 100) else State_Monad.return ());
     s \<leftarrow> status;
     if \<not> pending (snd s) then State_Monad.return () else wait_pending pending status is
   }"

definition shannon_pcie_flr :: "pci_hw \<Rightarrow> nat \<Rightarrow> int pci" where
  "shannon_pcie_flr hw d =
    (let pos = hw_cap hw d PCI_CAP_ID_EXP in
     if pos = 0 then State_Monad.return (- ENOTTY)
     else do {
       cap \<leftarrow> pci_read_config_dword hw d (pos + PCI_EXP_DEVCAP);
       if snd cap AND PCI_EXP_DEVCAP_FLR = 0 then State_Monad.return (- ENOTTY)
       else do {
         wait_pending (\<lambda>st. st AND PCI_EXP_DEVSTA_TRPND \<noteq> 0) (pci_read_config_word hw d (pos + PCI_EXP_DEVSTA)) [0 ..< 4];
         control \<leftarrow> pci_read_config_word hw d (pos + PCI_EXP_DEVCTL);
         pci_write_config_word d (pos + PCI_EXP_DEVCTL) (snd control OR PCI_EXP_DEVCTL_BCR_FLR);
         shannon_msleep 100;
         State_Monad.return 0
       }
     })"

definition shannon_pci_af_flr :: "pci_hw \<Rightarrow> nat \<Rightarrow> int pci" where
  "shannon_pci_af_flr hw d =
    (let pos = hw_cap hw d PCI_CAP_ID_AF in
     if pos = 0 then State_Monad.return (- ENOTTY)
     else do {
       cap \<leftarrow> pci_read_config_byte hw d (pos + PCI_AF_CAP);
       if snd cap AND PCI_AF_CAP_TP = 0 \<or> snd cap AND PCI_AF_CAP_FLR = 0 then State_Monad.return (- ENOTTY)
       else do {
         wait_pending (\<lambda>st. st AND PCI_AF_STATUS_TP \<noteq> 0) (pci_read_config_byte hw d (pos + PCI_AF_STATUS)) [0 ..< 4];
         pci_write_config_byte d (pos + PCI_AF_CTRL) PCI_AF_CTRL_FLR;
         shannon_msleep 100;
         State_Monad.return 0
       }
     })"

definition shannon_pci_dev_d3_sleep :: "pci_dev \<Rightarrow> unit pci" where
  "shannon_pci_dev_d3_sleep dev = shannon_msleep (d3_delay dev)"

definition shannon_pci_pm_reset :: "pci_hw \<Rightarrow> pci_dev \<Rightarrow> int pci" where
  "shannon_pci_pm_reset hw dev =
    (if pm_cap dev = 0 then State_Monad.return (- ENOTTY)
     else do {
       r \<leftarrow> pci_read_config_word hw (pd_id dev) (pm_cap dev + PCI_PM_CTRL);
       let csr = snd r;
       if csr AND PCI_PM_CTRL_NO_SOFT_RESET \<noteq> 0 then State_Monad.return (- ENOTTY)
       else if current_state dev \<noteq> PCI_D0 then State_Monad.return (- EINVAL)
       else do {
         let csr = (csr AND NOT PCI_PM_CTRL_STATE_MASK) OR PCI_D3hot;
         pci_write_config_word (pd_id dev) (pm_cap dev + PCI_PM_CTRL) csr;
         shannon_pci_dev_d3_sleep dev;
         let csr = (csr AND NOT PCI_PM_CTRL_STATE_MASK) OR of_nat PCI_D0;
         pci_write_config_word (pd_id dev) (pm_cap dev + PCI_PM_CTRL) csr;
         shannon_pci_dev_d3_sleep dev;
         State_Monad.return (- ENOTTY)
       }
     })"

text \<open>The device is alone on a bus below a bridge.\<close>

definition alone_on_bus :: "pci_dev \<Rightarrow> nat option" where
  "alone_on_bus dev =
    (if bus_is_root dev \<or> subordinate dev \<or> bus_self dev = None then None
     else if \<exists>p \<in> set (bus_devices dev). p \<noteq> pd_id dev then None
     else bus_self dev)"

definition shannon_pci_parent_bus_reset :: "pci_hw \<Rightarrow> pci_dev \<Rightarrow> int pci" where
  "shannon_pci_parent_bus_reset hw dev =
    (case alone_on_bus dev of None \<Rightarrow> State_Monad.return (- ENOTTY)
     | Some br \<Rightarrow> do {
         r \<leftarrow> pci_read_config_word hw br PCI_BRIDGE_CONTROL;
         let ctrl = snd r OR PCI_BRIDGE_CTL_BUS_RESET;
         pci_write_config_word br PCI_BRIDGE_CONTROL ctrl;
         shannon_msleep 100;
         let ctrl = ctrl AND NOT PCI_BRIDGE_CTL_BUS_RESET;
         pci_write_config_word br PCI_BRIDGE_CONTROL ctrl;
         shannon_msleep 100;
         State_Monad.return (- ENOTTY)
       })"

definition shannon_pci_reset_function :: "pci_hw \<Rightarrow> pci_dev option \<Rightarrow> int pci" where
  "shannon_pci_reset_function hw pdev =
    (case pdev of None \<Rightarrow> State_Monad.return (- 1)
     | Some dev \<Rightarrow> do {
         pci_save_state (pd_id dev);
         pci_write_config_word (pd_id dev) PCI_COMMAND PCI_COMMAND_INTX_DISABLE;
         rc \<leftarrow> do {
           rc \<leftarrow> shannon_pcie_flr hw (pd_id dev);
           if rc \<noteq> - ENOTTY then State_Monad.return rc
           else do {
             rc \<leftarrow> shannon_pci_af_flr hw (pd_id dev);
             if rc \<noteq> - ENOTTY then State_Monad.return rc
             else do {
               rc \<leftarrow> shannon_pci_pm_reset hw dev;
               if rc \<noteq> - ENOTTY then State_Monad.return rc
               else shannon_pci_parent_bus_reset hw dev
             }
           }
         };
         pci_restore_state (pd_id dev);
         State_Monad.return rc
       })"

definition shannon_pci_bus_retrain :: "pci_hw \<Rightarrow> pci_dev option \<Rightarrow> int pci" where
  "shannon_pci_bus_retrain hw pdev =
    (case pdev of None \<Rightarrow> State_Monad.return (- 1)
     | Some dev \<Rightarrow> do {
         pci_save_state (pd_id dev);
         pci_write_config_word (pd_id dev) PCI_COMMAND PCI_COMMAND_INTX_DISABLE;
         rc \<leftarrow> (case alone_on_bus dev of None \<Rightarrow> State_Monad.return (- ENOTTY)
           | Some br \<Rightarrow>
              let cap = shannon_pci_pcie_cap hw br in
              if cap = 0 then State_Monad.return (- ENOTTY)
              else do {
                sltctl \<leftarrow> pci_read_config_word hw br (cap + PCI_EXP_SLTCTL);
                pci_write_config_word br (cap + PCI_EXP_SLTCTL) (snd sltctl AND NOT PCI_EXP_SLTCTL_HPIE);
                shannon_msleep 1;
                r \<leftarrow> pci_read_config_word hw br (cap + PCI_EXP_LNKCTL);
                let ctrl = snd r OR PCI_EXP_LNKCTL_LD;
                pci_write_config_word br (cap + PCI_EXP_LNKCTL) ctrl;
                shannon_msleep 200;
                let ctrl = (ctrl AND NOT PCI_EXP_LNKCTL_LD) OR PCI_EXP_LNKCTL_RL;
                pci_write_config_word br (cap + PCI_EXP_LNKCTL) ctrl;
                shannon_msleep 200;
                pci_write_config_word br (cap + PCI_EXP_SLTCTL) (snd sltctl);
                State_Monad.return 0
              });
         pci_restore_state (pd_id dev);
         State_Monad.return rc
       })"

section \<open>Emitted events\<close>

text \<open>Whatever the history was, the program adds events that satisfy \<open>Q\<close> together with the result.\<close>

definition emits :: "'a pci \<Rightarrow> ('a \<Rightarrow> pci_event list \<Rightarrow> bool) \<Rightarrow> bool" where
  "emits m Q \<longleftrightarrow> (\<forall>tr. \<exists>evs. snd (run_state m tr) = tr @ evs \<and> Q (fst (run_state m tr)) evs)"

named_theorems emits_rules \<open>rules that compute the events of a program\<close>

lemma emits_return [emits_rules]: "Q a [] \<Longrightarrow> emits (State_Monad.return a) Q"
  by (simp add: emits_def)

lemma emits_bind [emits_rules]:
  "emits m (\<lambda>a e1. emits (f a) (\<lambda>b e2. Q b (e1 @ e2))) \<Longrightarrow> emits (m \<bind> f) Q"
  unfolding emits_def by (simp add: case_prod_beta) (metis append.assoc)

lemma emits_emit: "Q () [e] \<Longrightarrow> emits (emit e) Q"
  by (simp add: emits_def emit_def)

lemma emits_read: "(\<And>r. Q r [Rd d off]) \<Longrightarrow> emits (cfg_read hw d off) Q"
  by (simp add: emits_def cfg_read_def)

lemma emits_access [emits_rules]:
  "Q () [Wr d off (ucast v)] \<Longrightarrow> emits (pci_write_config_word d off v) Q"
  "Q () [Wr d off (ucast b)] \<Longrightarrow> emits (pci_write_config_byte d off b) Q"
  "Q () [Msleep n] \<Longrightarrow> emits (shannon_msleep n) Q"
  "Q () [SaveState d] \<Longrightarrow> emits (pci_save_state d) Q"
  "Q () [RestoreState d] \<Longrightarrow> emits (pci_restore_state d) Q"
  by (simp_all add: pci_write_config_word_def pci_write_config_byte_def shannon_msleep_def
      pci_save_state_def pci_restore_state_def emits_emit)

lemma emits_reads [emits_rules]:
  "(\<And>r. Q4 r [Rd d off]) \<Longrightarrow> emits (pci_read_config_dword hw d off) Q4"
  "(\<And>r. Q2 r [Rd d off]) \<Longrightarrow> emits (pci_read_config_word hw d off) Q2"
  "(\<And>r. Q1 r [Rd d off]) \<Longrightarrow> emits (pci_read_config_byte hw d off) Q1"
  by (auto simp: pci_read_config_dword_def pci_read_config_word_def pci_read_config_byte_def
      intro!: emits_rules emits_read)

lemma emits_if [emits_rules]:
  "(c \<Longrightarrow> emits a Q) \<Longrightarrow> (\<not> c \<Longrightarrow> emits b Q) \<Longrightarrow> emits (if c then a else b) Q"
  by simp

lemma emits_weaken: "emits m Q \<Longrightarrow> (\<And>a e. Q a e \<Longrightarrow> R a e) \<Longrightarrow> emits m R"
  unfolding emits_def by blast

lemma emits_run: "emits m Q \<Longrightarrow> run_state m [] = (a, tr) \<Longrightarrow> Q a tr"
  unfolding emits_def by (metis append_Nil fst_conv snd_conv)

section \<open>Properties\<close>

definition slept :: "pci_event list \<Rightarrow> nat" where
  "slept evs = sum_list (map (\<lambda>e. case e of Msleep n \<Rightarrow> n | _ \<Rightarrow> 0) evs)"

definition writes :: "pci_event list \<Rightarrow> (nat \<times> nat \<times> u32) list" where
  "writes evs = concat (map (\<lambda>e. case e of Wr d off v \<Rightarrow> [(d, off, v)] | _ \<Rightarrow> []) evs)"

definition state_events :: "pci_event list \<Rightarrow> pci_event list" where
  "state_events evs = filter (\<lambda>e. case e of SaveState d \<Rightarrow> True | RestoreState d \<Rightarrow> True | _ \<Rightarrow> False) evs"

lemma events_simps [simp]:
  "slept [] = 0" "writes [] = []" "state_events [] = []"
  "slept (e # es) = (case e of Msleep n \<Rightarrow> n | _ \<Rightarrow> 0) + slept es"
  "writes (e # es) = (case e of Wr d off v \<Rightarrow> [(d, off, v)] | _ \<Rightarrow> []) @ writes es"
  "state_events (e # es) = (case e of SaveState d \<Rightarrow> [e] | RestoreState d \<Rightarrow> [e] | _ \<Rightarrow> []) @ state_events es"
  "slept (es @ fs) = slept es + slept fs" "writes (es @ fs) = writes es @ writes fs"
  "state_events (es @ fs) = state_events es @ state_events fs"
  by (simp_all add: slept_def writes_def state_events_def split: pci_event.split)

text \<open>Waiting for the pending bit ends after at most the pauses of the list, without a write.\<close>

fun pauses :: "nat list \<Rightarrow> nat" where
  "pauses [] = 0"
| "pauses (i # is) = (if i \<noteq> 0 then 2 ^ (i - 1) * 100 else 0) + pauses is"

lemma emits_wait_pending:
  assumes status: "\<And>Q. (\<And>r. Q r [Rd d off]) \<Longrightarrow> emits status Q"
    and post: "\<And>evs. slept evs \<le> pauses is \<Longrightarrow> writes evs = [] \<Longrightarrow> state_events evs = [] \<Longrightarrow> Q () evs"
  shows "emits (wait_pending pending status is) Q"
  using post
proof (induction "is" arbitrary: Q)
  case Nil
  then show ?case by (auto intro!: emits_rules)
next
  case (Cons i "is")
  have step: "emits (do { s \<leftarrow> status; if \<not> pending (snd s) then State_Monad.return () else wait_pending pending status is }) R"
    if R: "\<And>evs. slept evs \<le> pauses is \<Longrightarrow> writes evs = [] \<Longrightarrow> state_events evs = [] \<Longrightarrow> R () evs" for R
    by (intro emits_rules status Cons.IH) (use R in auto)
  show ?case by (cases "i = 0") (auto intro!: emits_rules step Cons.prems)
qed

text \<open>The write that starts a function level reset.\<close>

definition flr_write :: "pci_hw \<Rightarrow> nat \<Rightarrow> nat \<times> nat \<times> u32 \<Rightarrow> bool" where
  "flr_write hw d w \<longleftrightarrow>
    (\<exists>v. w = (d, hw_cap hw d PCI_CAP_ID_EXP + PCI_EXP_DEVCTL, v) \<and> bit v 15) \<or>
    w = (d, hw_cap hw d PCI_CAP_ID_AF + PCI_AF_CTRL, 1)"

lemma emits_flr:
  assumes fail: "\<And>evs. slept evs = 0 \<Longrightarrow> writes evs = [] \<Longrightarrow> state_events evs = [] \<Longrightarrow> Q (- ENOTTY) evs"
    and ok: "\<And>evs w. slept evs \<le> 800 \<Longrightarrow> writes evs = [w] \<Longrightarrow> state_events evs = [] \<Longrightarrow> flr_write hw d w \<Longrightarrow> Q 0 evs"
  shows "emits (shannon_pcie_flr hw d) Q" "emits (shannon_pci_af_flr hw d) Q"
proof -
  have le: "pauses [0 ..< 4] = 700" by (simp add: upt_rec)
  have bit15: "bit (ucast (v OR PCI_EXP_DEVCTL_BCR_FLR :: u16) :: u32) 15" for v
    by (simp add: PCI_EXP_DEVCTL_BCR_FLR_def bit_simps)
  have one: "(ucast PCI_AF_CTRL_FLR :: u32) = 1" by (simp add: PCI_AF_CTRL_FLR_def)
  show "emits (shannon_pcie_flr hw d) Q"
    unfolding shannon_pcie_flr_def Let_def
    by (intro emits_rules emits_wait_pending [where d = d and off = "hw_cap hw d PCI_CAP_ID_EXP + PCI_EXP_DEVSTA"] fail)
      (auto simp: le flr_write_def bit15 intro!: ok)
  show "emits (shannon_pci_af_flr hw d) Q"
    unfolding shannon_pci_af_flr_def Let_def
    by (intro emits_rules emits_wait_pending [where d = d and off = "hw_cap hw d PCI_CAP_ID_AF + PCI_AF_STATUS"] fail)
      (auto simp: le flr_write_def one intro!: ok)
qed

text \<open>A power state reset leaves the device in D0, a bus reset leaves the reset bit clear.\<close>

definition pm_writes :: "pci_dev \<Rightarrow> (nat \<times> nat \<times> u32) list \<Rightarrow> bool" where
  "pm_writes dev ws \<longleftrightarrow> ws = [] \<or>
    (\<exists>v1 v2. ws = [(pd_id dev, pm_cap dev + PCI_PM_CTRL, v1), (pd_id dev, pm_cap dev + PCI_PM_CTRL, v2)] \<and>
       v1 AND 3 = 3 \<and> v2 AND 3 = 0)"

definition bus_writes :: "pci_dev \<Rightarrow> (nat \<times> nat \<times> u32) list \<Rightarrow> bool" where
  "bus_writes dev ws \<longleftrightarrow> ws = [] \<or>
    (\<exists>br v1 v2. alone_on_bus dev = Some br \<and> ws = [(br, PCI_BRIDGE_CONTROL, v1), (br, PCI_BRIDGE_CONTROL, v2)] \<and>
       bit v1 6 \<and> \<not> bit v2 6 \<and> (\<forall>n. n \<noteq> 6 \<longrightarrow> bit v1 n = bit v2 n))"

lemma bit_3: "bit (3 :: 'a::len word) n \<longleftrightarrow> n < LENGTH('a) \<and> n < 2"
  using bit_mask_iff [of 2 n, where 'a = "'a word"] by (simp add: mask_eq_exp_minus_1)

lemma bit_64: "bit (64 :: 'a::len word) n \<longleftrightarrow> n < LENGTH('a) \<and> n = 6"
proof -
  have "(64 :: 'a word) = 2 ^ 6" by simp
  then show ?thesis by (auto simp only: bit_exp_iff possible_bit_word)
qed

lemmas word_bit_iffs = bit_and_iff bit_or_iff bit_not_iff bit_unsigned_iff possible_bit_word bit_3 bit_64 bit_0_eq

lemma emits_pm_reset:
  assumes "\<And>rc evs. rc \<in> {- ENOTTY, - EINVAL} \<Longrightarrow> slept evs \<le> 2 * d3_delay dev \<Longrightarrow> pm_writes dev (writes evs) \<Longrightarrow>
    state_events evs = [] \<Longrightarrow> Q rc evs"
  shows "emits (shannon_pci_pm_reset hw dev) Q"
proof -
  have d3: "(ucast ((csr AND NOT PCI_PM_CTRL_STATE_MASK) OR PCI_D3hot) :: u32) AND 3 = 3" for csr
    unfolding PCI_PM_CTRL_STATE_MASK_def PCI_D3hot_def by (rule bit_word_eqI) (simp only: word_bit_iffs, auto)
  have d0: "(ucast ((x AND NOT PCI_PM_CTRL_STATE_MASK) OR of_nat PCI_D0) :: u32) AND 3 = 0" for x
    unfolding PCI_PM_CTRL_STATE_MASK_def PCI_D0_def of_nat_0 by (rule bit_word_eqI) (simp only: word_bit_iffs, auto)
  show ?thesis
    unfolding shannon_pci_pm_reset_def Let_def shannon_pci_dev_d3_sleep_def
    by (intro emits_rules assms) (auto simp: pm_writes_def d3 d0)
qed

lemma emits_bus_reset:
  assumes "\<And>evs. slept evs \<le> 200 \<Longrightarrow> bus_writes dev (writes evs) \<Longrightarrow> state_events evs = [] \<Longrightarrow> Q (- ENOTTY) evs"
  shows "emits (shannon_pci_parent_bus_reset hw dev) Q"
proof (cases "alone_on_bus dev")
  case (Some br)
  have "bit (ucast (v OR 0x40 :: u16) :: u32) 6" "\<not> bit (ucast ((v OR 0x40) AND NOT 0x40 :: u16) :: u32) 6"
    "n \<noteq> 6 \<Longrightarrow> bit (ucast (v OR 0x40 :: u16) :: u32) n = bit (ucast ((v OR 0x40) AND NOT 0x40 :: u16) :: u32) n" for v n
    unfolding word_bit_iffs by (auto dest: bit_imp_le_length)
  then have "bus_writes dev [(br, PCI_BRIDGE_CONTROL, ucast (v OR PCI_BRIDGE_CTL_BUS_RESET)),
      (br, PCI_BRIDGE_CONTROL, ucast ((v OR PCI_BRIDGE_CTL_BUS_RESET) AND NOT PCI_BRIDGE_CTL_BUS_RESET))]" for v
    unfolding bus_writes_def using Some by (auto simp: PCI_BRIDGE_CTL_BUS_RESET_def)
  then show ?thesis
    unfolding shannon_pci_parent_bus_reset_def Let_def Some option.case
    by (intro emits_rules assms) simp_all
qed (auto simp: shannon_pci_parent_bus_reset_def bus_writes_def intro!: emits_rules assms)

text \<open>C28 (safety). Whatever the hardware answers, a function reset of a device ends: it saves the configuration first and
  restores it last, and touches the saved state nowhere else. It returns 0 only if the last and only
  register it wrote in between is the one that starts a function level reset; then it slept at most
  800 ms. Otherwise it returns \<open>-ENOTTY\<close> or \<open>-EINVAL\<close>, wrote only a power state cycle that ends in D0
  and a bus reset that it withdrew again (and this only on a bus the device has for itself), and
  slept at most twice the device's D3 delay plus 200 ms.\<close>

theorem pci_reset_bracketed:
  assumes "run_state (shannon_pci_reset_function hw (Some dev)) [] = (rc, tr)"
  shows "\<exists>mid. tr = [SaveState (pd_id dev), Wr (pd_id dev) PCI_COMMAND (ucast PCI_COMMAND_INTX_DISABLE)] @ mid @ [RestoreState (pd_id dev)] \<and>
    state_events mid = [] \<and>
    (rc = 0 \<and> slept mid \<le> 800 \<and> (\<exists>w. writes mid = [w] \<and> flr_write hw (pd_id dev) w) \<or>
     rc \<in> {- ENOTTY, - EINVAL} \<and> slept mid \<le> 2 * d3_delay dev + 200 \<and>
     (\<exists>pm bus. writes mid = pm @ bus \<and> pm_writes dev pm \<and> bus_writes dev bus))"
    (is "?P rc tr")
proof (rule emits_run [OF _ assms])
  let ?R = "\<lambda>rc mid. state_events mid = [] \<and>
    (rc = 0 \<and> slept mid \<le> 800 \<and> (\<exists>w. writes mid = [w] \<and> flr_write hw (pd_id dev) w) \<or>
     rc \<in> {- ENOTTY, - EINVAL} \<and> slept mid \<le> 2 * d3_delay dev + 200 \<and>
     (\<exists>pm bus. writes mid = pm @ bus \<and> pm_writes dev pm \<and> bus_writes dev bus))"
  have pm_only: "?R rc mid" if "rc \<in> {- ENOTTY, - EINVAL}" "slept mid \<le> 2 * d3_delay dev"
      "pm_writes dev (writes mid)" "state_events mid = []" for rc mid
  proof -
    have "writes mid = writes mid @ [] \<and> pm_writes dev (writes mid) \<and> bus_writes dev []"
      using that by (simp add: bus_writes_def)
    then show ?thesis using that(1,2,4) by (metis trans_le_add1)
  qed
  have pm_bus: "?R (- ENOTTY) (e1 @ e2)" if "slept e1 \<le> 2 * d3_delay dev" "pm_writes dev (writes e1)"
      "state_events e1 = []" "slept e2 \<le> 200" "bus_writes dev (writes e2)" "state_events e2 = []" for e1 e2
  proof -
    have "writes (e1 @ e2) = writes e1 @ writes e2" "slept (e1 @ e2) \<le> 2 * d3_delay dev + 200" using that by simp_all
    then show ?thesis using that by (metis append.right_neutral events_simps(9) insertI1)
  qed
  have nz: "0 \<noteq> - ENOTTY" by (simp add: kernel_consts)
  have pm: "emits (do { rc \<leftarrow> shannon_pci_pm_reset hw dev;
      if rc \<noteq> - ENOTTY then State_Monad.return rc else shannon_pci_parent_bus_reset hw dev }) ?R"
    by (intro emits_rules emits_pm_reset emits_bus_reset) (unfold append_Nil2, (rule pm_only; assumption), (rule pm_bus; assumption))
  have inner: "emits (do { rc \<leftarrow> shannon_pcie_flr hw (pd_id dev);
      if rc \<noteq> - ENOTTY then State_Monad.return rc
      else do { rc \<leftarrow> shannon_pci_af_flr hw (pd_id dev);
        if rc \<noteq> - ENOTTY then State_Monad.return rc
        else do { rc \<leftarrow> shannon_pci_pm_reset hw dev;
          if rc \<noteq> - ENOTTY then State_Monad.return rc else shannon_pci_parent_bus_reset hw dev } } }) ?R"
    by (intro emits_rules emits_flr emits_weaken [OF pm]) (use nz in auto)
  show "emits (shannon_pci_reset_function hw (Some dev)) ?P"
    unfolding shannon_pci_reset_function_def option.case
    by (intro emits_rules emits_weaken [OF inner]) auto
qed

definition sample_pci_dev :: pci_dev where
  "sample_pci_dev = \<lparr>pd_id = 1, devfn = 0, vendor = 0x1cb0, device = 0x1275, subsystem_vendor = 0, subsystem_device = 0,
     pci_class = 0, pd_irq = 0, bus_number = Some 3, bus_is_root = False, bus_self = Some 0, bus_devices = [1],
     subordinate = False, pm_cap = 0x40, current_state = 0, d3_delay = 10, slot = None\<rparr>"

text \<open>Hardware without function level reset: both fall-backs are carried out, yet the result is \<open>-ENOTTY\<close>.\<close>

definition sample_pci_hw :: pci_hw where
  "sample_pci_hw = \<lparr>hw_read = (\<lambda>tr d off. (0, 0)), hw_cap = (\<lambda>d c. 0)\<rparr>"

lemma sample_reset_run:
  "run_state (shannon_pci_reset_function sample_pci_hw (Some sample_pci_dev)) [] =
    (- ENOTTY, [SaveState 1, Wr 1 4 0x400, Rd 1 68, Wr 1 68 3, Msleep 10, Wr 1 68 0, Msleep 10,
       Rd 0 0x3e, Wr 0 0x3e 0x40, Msleep 100, Wr 0 0x3e 0, Msleep 100, RestoreState 1])"
  by (simp add: shannon_pci_reset_function_def shannon_pcie_flr_def shannon_pci_af_flr_def shannon_pci_pm_reset_def
      shannon_pci_parent_bus_reset_def shannon_pci_dev_d3_sleep_def alone_on_bus_def sample_pci_hw_def sample_pci_dev_def
      pci_read_config_word_def pci_write_config_word_def cfg_read_def emit_def shannon_msleep_def
      pci_save_state_def pci_restore_state_def Let_def kernel_consts)

theorem pci_reset_bracketed_witness:
  "\<exists>rc tr mid. run_state (shannon_pci_reset_function sample_pci_hw (Some sample_pci_dev)) [] = (rc, tr) \<and>
    tr = [SaveState 1, Wr 1 4 0x400] @ mid @ [RestoreState 1] \<and> state_events mid = []"
  using pci_reset_bracketed [OF sample_reset_run] sample_reset_run
  by (auto simp: sample_pci_dev_def PCI_COMMAND_def PCI_COMMAND_INTX_DISABLE_def)

text \<open>Retraining the link: either nothing but the interrupt mask was touched, or the bridge got the full sequence, its
  hotplug interrupt setting back and its link enabled.\<close>

lemma bus_retrain_events:
  assumes "run_state (shannon_pci_bus_retrain hw (Some dev)) [] = (rc, tr)"
  shows "\<exists>mid. tr = [SaveState (pd_id dev), Wr (pd_id dev) PCI_COMMAND (ucast PCI_COMMAND_INTX_DISABLE)] @ mid @ [RestoreState (pd_id dev)] \<and>
    (rc = - ENOTTY \<and> mid = [] \<or>
     rc = 0 \<and> slept mid = 401 \<and>
     (\<exists>br cap s c. alone_on_bus dev = Some br \<and> cap = hw_cap hw br PCI_CAP_ID_EXP \<and>
       writes mid = [(br, cap + PCI_EXP_SLTCTL, ucast (s AND NOT PCI_EXP_SLTCTL_HPIE)),
         (br, cap + PCI_EXP_LNKCTL, ucast (c OR PCI_EXP_LNKCTL_LD)),
         (br, cap + PCI_EXP_LNKCTL, ucast (((c OR PCI_EXP_LNKCTL_LD) AND NOT PCI_EXP_LNKCTL_LD) OR PCI_EXP_LNKCTL_RL)),
         (br, cap + PCI_EXP_SLTCTL, ucast (s :: u16))]))"
    (is "?P rc tr")
proof (rule emits_run [OF _ assms])
  show "emits (shannon_pci_bus_retrain hw (Some dev)) ?P"
  proof (cases "alone_on_bus dev")
    case None
    then show ?thesis
      unfolding shannon_pci_bus_retrain_def option.case None by (intro emits_rules) auto
  next
    case (Some br)
    show ?thesis
      unfolding shannon_pci_bus_retrain_def option.case Some Let_def shannon_pci_pcie_cap_def
      by (intro emits_rules) auto
  qed
qed

text \<open>The bridge's payload setting becomes that of the device, whose other control bits stay.\<close>

lemma max_payload_write:
  assumes "run_state (shannon_set_max_payload_size hw dev) [] = (u, tr)"
  shows "writes tr = [] \<or>
    (\<exists>br val bus. bus_self dev = Some br \<and>
      writes tr = [(pd_id dev, hw_cap hw (pd_id dev) PCI_CAP_ID_EXP + PCI_EXP_DEVCTL,
        ucast ((val AND NOT PCI_EXP_DEVCTL_PAYLOAD) OR (bus AND PCI_EXP_DEVCTL_PAYLOAD) :: u16))])"
    (is "?P tr")
proof -
  have "emits (shannon_set_max_payload_size hw dev) (\<lambda>u. ?P)"
  proof (cases "bus_self dev")
    case None
    then show ?thesis by (auto simp: shannon_set_max_payload_size_def intro!: emits_rules)
  next
    case (Some br)
    show ?thesis
      unfolding shannon_set_max_payload_size_def Some option.case Let_def shannon_pci_pcie_cap_def
      by (intro emits_rules) auto
  qed
  from emits_run [OF this assms] show ?thesis .
qed

text \<open>The timeout of the bridge is masked with \<open>0xf\<close> instead of its complement: control bits above the timeout field
  are cleared, and the field becomes 6 (65 ms to 210 ms) only if its bits 0 and 3 were clear.\<close>

lemma bridge_timeout_value:
  fixes ctrl :: u16
  shows "(ctrl AND 0xf) OR 0x6 < 16" "(0x6029 AND 0xf) OR 0x6 = (0xf :: u16)"
proof -
  have "(ctrl AND mask 4) OR (0x6 AND mask 4) = (ctrl OR 0x6) AND mask 4"
    by (rule bit_word_eqI) (auto simp: bit_and_iff bit_or_iff)
  then have "(ctrl AND 0xf) OR 0x6 = (ctrl OR 0x6) AND mask 4" by (simp add: mask_eq_exp_minus_1)
  also have "\<dots> < 2 ^ 4" by (rule and_mask_less') simp
  finally show "(ctrl AND 0xf) OR 0x6 < 16" by simp
qed simp

text \<open>A vector that occurs once is found at its own entry.\<close>

lemma msix_entry_from_found:
  assumes "i < n" "n \<le> length tab" "\<forall>j. e \<le> j \<and> j < i \<longrightarrow> me_vector (tab ! j) \<noteq> me_vector (tab ! i)" "e \<le> i"
  shows "msix_entry_from tab (me_vector (tab ! i)) n e = Some i"
  using assms
proof (induction "i - e" arbitrary: e)
  case 0
  then show ?case by (subst msix_entry_from.simps) auto
next
  case (Suc k)
  then have "e < i" by simp
  then show ?case using Suc by (subst msix_entry_from.simps) (auto intro!: Suc.hyps(1))
qed

end
