(* ===== verification/Module_Init.thy ===== *)
theory Module_Init
  imports List_Head Kcore
begin

text \<open>
  Loading and unloading of the module and the operations of the disks and control devices
  (\<^verbatim>\<open>shannon_module_init.c\<close>). What the kernel and the precompiled core answer is an argument; the
  resources taken and given back are recorded as events, in order.
\<close>

section \<open>Disk operations\<close>

record hd_geometry =
  heads :: u8
  sectors :: u8
  cylinders :: u16

text \<open>\<open>get_shannon_dev_sectors\<close> belongs to the core; the quotient is computed in 64 bits and stored in 16.\<close>

definition shannon_getgeo :: "u64 \<Rightarrow> int \<times> hd_geometry" where
  "shannon_getgeo dev_sectors =
    (let h = 32 :: u8; s = 32 :: u8
     in (0, \<lparr>heads = h, sectors = s, cylinders = ucast (dev_sectors div (ucast h * ucast s))\<rparr>))"

definition shannon_getgeo_ns :: "u64 \<Rightarrow> int \<times> hd_geometry" where
  "shannon_getgeo_ns ns_sectors =
    (let h = 32 :: u8; s = 32 :: u8
     in (0, \<lparr>heads = h, sectors = s, cylinders = ucast (ns_sectors div (ucast h * ucast s))\<rparr>))"

text \<open>A disk as far as opening is concerned: its capacity, the capacity the core reports and the users it counts.\<close>

record disk_users =
  capacity :: u64
  core_sectors :: u64
  users :: nat

definition shannon_revalidate :: "disk_users \<Rightarrow> int \<times> disk_users" where
  "shannon_revalidate disk = (0, disk\<lparr>capacity := core_sectors disk\<rparr>)"

definition shannon_revalidate_ns :: "disk_users \<Rightarrow> int \<times> disk_users" where
  "shannon_revalidate_ns disk = (0, disk\<lparr>capacity := core_sectors disk\<rparr>)"

text \<open>\<open>inc\<close> and \<open>dec\<close> stand for \<open>sh_increase_users\<close> and \<open>sh_decrease_users\<close> of the core (kernels from 6.0 on).\<close>

definition shannon_open :: "(disk_users \<Rightarrow> int \<times> disk_users) \<Rightarrow> bool \<Rightarrow> disk_users \<Rightarrow> int \<times> disk_users" where
  "shannon_open inc media_change disk =
    (let disk = (if media_change then snd (shannon_revalidate disk) else disk) in inc disk)"

definition shannon_open_ns :: "(disk_users \<Rightarrow> int \<times> disk_users) \<Rightarrow> bool \<Rightarrow> disk_users \<Rightarrow> int \<times> disk_users" where
  "shannon_open_ns inc media_change disk =
    (let disk = (if media_change then snd (shannon_revalidate_ns disk) else disk) in inc disk)"

definition shannon_release :: "(disk_users \<Rightarrow> int \<times> disk_users) \<Rightarrow> disk_users \<Rightarrow> disk_users" where
  "shannon_release dec disk = snd (dec disk)"

definition shannon_release_ns :: "(disk_users \<Rightarrow> int \<times> disk_users) \<Rightarrow> disk_users \<Rightarrow> disk_users" where
  "shannon_release_ns dec disk = snd (dec disk)"

section \<open>Control devices\<close>

text \<open>The loop of both open functions: the entry of the break, or the last one visited.\<close>

fun misc_scan :: "(ptr \<Rightarrow> int) \<Rightarrow> int \<Rightarrow> ptr option \<Rightarrow> ptr list \<Rightarrow> ptr option" where
  "misc_scan minor_of m c [] = c"
| "misc_scan minor_of m c (x # xs) = (if minor_of x = m then Some x else misc_scan minor_of m (Some x) xs)"

text \<open>The result and \<open>filp->private_data\<close>; the outer option is the fuel of the list traversal.\<close>

definition shannon_ctrl_miscdevice_open ::
    "nat \<Rightarrow> list_heap \<Rightarrow> ptr \<Rightarrow> (ptr \<Rightarrow> int) \<Rightarrow> int \<Rightarrow> (int \<times> ptr option) option" where
  "shannon_ctrl_miscdevice_open n h shannon_dev_list minor_of m =
    map_option (\<lambda>es.
      let c = misc_scan minor_of m None es
      in if c = None \<or> minor_of (the c) \<noteq> m then (- ENODEV, None) else (0, c))
      (shannon_list_for_each n h shannon_dev_list)"

text \<open>The pool variant takes a reference on the pool it finds, under the mutex; the third component are the pools
  referenced.\<close>

definition shannon_pool_miscdevice_open ::
    "nat \<Rightarrow> list_heap \<Rightarrow> ptr \<Rightarrow> (ptr \<Rightarrow> int) \<Rightarrow> int \<Rightarrow> (int \<times> ptr option \<times> ptr list) option" where
  "shannon_pool_miscdevice_open n h shannon_pool_list minor_of m =
    map_option (\<lambda>es.
      let c = misc_scan minor_of m None es;
          refs = (case c of Some x \<Rightarrow> if minor_of x = m then [x] else [] | None \<Rightarrow> [])
      in if c = None \<or> minor_of (the c) \<noteq> m then (- ENODEV, None, refs) else (0, c, refs))
      (shannon_list_for_each n h shannon_pool_list)"

definition shannon_pool_miscdevice_release :: "ptr option \<Rightarrow> int \<times> ptr option" where
  "shannon_pool_miscdevice_release private_data = (0, private_data)"

datatype misc_fops = CtrlFops | PoolFops

record miscdevice =
  md_minor :: int
  md_name :: string
  md_nodename :: "string option"
  md_fops :: misc_fops

definition MISC_DYNAMIC_MINOR :: int where [kernel_consts]: "MISC_DYNAMIC_MINOR = 255"

definition miscdevice_init :: "string \<Rightarrow> miscdevice" where
  "miscdevice_init cdev_name =
    \<lparr>md_minor = MISC_DYNAMIC_MINOR, md_name = cdev_name, md_nodename = None, md_fops = CtrlFops\<rparr>"

definition pool_miscdevice_init :: "string \<Rightarrow> string \<Rightarrow> miscdevice" where
  "pool_miscdevice_init cdev_name nodename =
    \<lparr>md_minor = MISC_DYNAMIC_MINOR, md_name = cdev_name, md_nodename = Some nodename, md_fops = PoolFops\<rparr>"

definition shannon_create_miscdevice ::
    "(miscdevice \<Rightarrow> int \<times> miscdevice) \<Rightarrow> string \<Rightarrow> string \<Rightarrow> bool \<Rightarrow> int \<times> miscdevice" where
  "shannon_create_miscdevice misc_register cdev_name nodename for_sdev =
    misc_register (if for_sdev then miscdevice_init cdev_name else pool_miscdevice_init cdev_name nodename)"

section \<open>Probing\<close>

definition PCI_VENDOR_ID_SHANNON :: u16 where "PCI_VENDOR_ID_SHANNON = 0x1cb0"
definition PCI_VENDOR_ID_XILINX :: u16 where "PCI_VENDOR_ID_XILINX = 0x10ee"

definition shannon_id_table :: "(u16 \<times> u16) list" where
  "shannon_id_table = [(PCI_VENDOR_ID_XILINX, 0x6024), (PCI_VENDOR_ID_SHANNON, 0x0265), (PCI_VENDOR_ID_SHANNON, 0x0275),
     (PCI_VENDOR_ID_SHANNON, 0x1275), (PCI_VENDOR_ID_SHANNON, 0x2275), (PCI_VENDOR_ID_SHANNON, 0x1285),
     (PCI_VENDOR_ID_SHANNON, 0x3275), (PCI_VENDOR_ID_SHANNON, 0x05a5), (PCI_VENDOR_ID_SHANNON, 0x25a5),
     (PCI_VENDOR_ID_SHANNON, 0x35a5)]"

definition shannon_probe_wrapper :: "bool \<Rightarrow> ('d \<Rightarrow> int \<times> 'd) \<Rightarrow> ('d \<Rightarrow> int \<times> 'd) \<Rightarrow> 'd \<Rightarrow> int \<times> 'd" where
  "shannon_probe_wrapper scsi_mode scsi_probe probe pdev = (if scsi_mode then scsi_probe pdev else probe pdev)"

definition shannon_remove_wrapper :: "bool \<Rightarrow> ('d \<Rightarrow> 'd) \<Rightarrow> ('d \<Rightarrow> 'd) \<Rightarrow> 'd \<Rightarrow> 'd" where
  "shannon_remove_wrapper scsi_mode scsi_remove remove pdev = (if scsi_mode then scsi_remove pdev else remove pdev)"

definition shannon_pci_reset_notify :: "('d \<Rightarrow> 'd) \<Rightarrow> ('d \<Rightarrow> 'd) \<Rightarrow> bool \<Rightarrow> 'd \<Rightarrow> 'd" where
  "shannon_pci_reset_notify reset_prepare reset_finished prepare pdev =
    (if prepare then reset_prepare pdev else reset_finished pdev)"

text \<open>\<open>config_x86\<close>, \<open>dma_reorder\<close>: \<open>CONFIG_X86\<close> and \<open>CONFIG_SHANNON_DMA_REORDER\<close>.\<close>

definition check_has_dma_delay :: "bool \<Rightarrow> bool \<Rightarrow> bool \<Rightarrow> bool" where
  "check_has_dma_delay config_x86 dma_reorder vendor_intel =
    (if config_x86 then (if dma_reorder then True else \<not> vendor_intel) else dma_reorder)"

section \<open>Module init and exit\<close>

datatype mod_event = RegBlkdev int int | UnregBlkdev int | CreateWq | DestroyWq | AllocMempool | FreeMempool
  | RegDriver | UnregDriver

text \<open>What the kernel and the core answer: \<open>register_blkdev\<close> by the requested number, the work queue, the memory pools
  and the driver registration.\<close>

record init_env =
  register_blkdev :: "int \<Rightarrow> int"
  create_workqueue_ok :: bool
  alloc_mempool :: int
  pci_register_driver :: int

record mod_state =
  shannon_scsi_mode :: bool
  shannon_use_percpu_wq :: bool
  shannon_pm_qos_disable :: bool
  shannon_major :: int
  shannon_percpu_wq :: bool            \<comment> \<open>the pointer is not NULL\<close>
  dev_lists :: list_heap

definition SHANNON_DEV_LIST :: ptr where "SHANNON_DEV_LIST = 1"
definition SHANNON_POOL_LIST :: ptr where "SHANNON_POOL_LIST = 2"

text \<open>The labels of the failure path, each falling through to the next.\<close>

definition init_unregister_blkdev :: "mod_state \<Rightarrow> mod_event list" where
  "init_unregister_blkdev st = [UnregBlkdev (shannon_major st)]"
definition init_destroy_wq :: "mod_state \<Rightarrow> mod_event list" where
  "init_destroy_wq st = (if shannon_percpu_wq st then [DestroyWq] else []) @ init_unregister_blkdev st"
definition init_free_mempool :: "mod_state \<Rightarrow> mod_event list" where
  "init_free_mempool st = [FreeMempool] @ init_destroy_wq st"

definition shannon_init :: "init_env \<Rightarrow> mod_state \<Rightarrow> int \<times> mod_state \<times> mod_event list" where
  "shannon_init env st =
    (let st = (if shannon_scsi_mode st then st\<lparr>shannon_use_percpu_wq := True, shannon_pm_qos_disable := True\<rparr> else st);
         st = st\<lparr>dev_lists := SHANNON_INIT_LIST_HEAD (dev_lists st) SHANNON_DEV_LIST\<rparr>;
         request = shannon_major st;
         st = st\<lparr>shannon_major := register_blkdev env request\<rparr>;
         ev = [RegBlkdev request (shannon_major st)];
         st = st\<lparr>dev_lists := SHANNON_INIT_LIST_HEAD (dev_lists st) SHANNON_DEV_LIST\<rparr>;
         st = st\<lparr>dev_lists := SHANNON_INIT_LIST_HEAD (dev_lists st) SHANNON_POOL_LIST\<rparr>
     in if shannon_use_percpu_wq st \<and> \<not> create_workqueue_ok env
        then (- ENOMEM, st\<lparr>shannon_percpu_wq := False\<rparr>, ev @ init_unregister_blkdev st)
     else let ev = ev @ (if shannon_use_percpu_wq st then [CreateWq] else []);
              st = (if shannon_use_percpu_wq st then st\<lparr>shannon_percpu_wq := True\<rparr> else st)
     in if alloc_mempool env \<noteq> 0 then (- ENOMEM, st, ev @ init_destroy_wq st)
     else let ev = ev @ [AllocMempool]; result = pci_register_driver env
     in if result \<noteq> 0 then (result, st, ev @ init_free_mempool st)
     else (0, st, ev @ [RegDriver]))"

definition shannon_exit :: "mod_state \<Rightarrow> mod_event list" where
  "shannon_exit st = [UnregDriver, FreeMempool] @ (if shannon_percpu_wq st then [DestroyWq] else []) @
     [UnregBlkdev (shannon_major st)]"

section \<open>Properties\<close>

text \<open>The block major a registration makes the kernel hold: none if it failed, the number the kernel chose
  for request 0, the request itself otherwise.\<close>

definition held_major :: "int \<Rightarrow> int \<Rightarrow> int option" where
  "held_major request ret = (if ret < 0 then None else if request = 0 then Some ret else Some request)"

text \<open>What \<open>register_blkdev\<close> documents: for a request other than 0 it returns 0 or a negative error.\<close>

definition blkdev_contract :: "init_env \<Rightarrow> bool" where
  "blkdev_contract env \<longleftrightarrow> (\<forall>m. m \<noteq> 0 \<longrightarrow> register_blkdev env m \<le> 0)"

text \<open>The resources the module holds, the latest first. A queue, the pools or the driver may only be given
  back when they were taken last and are still held, the major when nothing above it is held;
  unregistering another number than the one that is held has no effect.\<close>

datatype mod_res = HeldMajor int | HeldWq | HeldPool | HeldDriver

fun give_back :: "mod_res \<Rightarrow> mod_res list \<Rightarrow> mod_res list option" where
  "give_back r [] = None"
| "give_back r (x # held) = (if x = r then Some held else None)"

fun held_after :: "mod_event \<Rightarrow> mod_res list \<Rightarrow> mod_res list option" where
  "held_after (RegBlkdev request ret) held =
     Some (case held_major request ret of None \<Rightarrow> held | Some m \<Rightarrow> HeldMajor m # held)"
| "held_after (UnregBlkdev m) [] = Some []"
| "held_after (UnregBlkdev m) (HeldMajor m' # held) = Some (if m = m' then held else HeldMajor m' # held)"
| "held_after (UnregBlkdev m) (_ # held) = None"
| "held_after CreateWq held = Some (HeldWq # held)"
| "held_after DestroyWq held = give_back HeldWq held"
| "held_after AllocMempool held = Some (HeldPool # held)"
| "held_after FreeMempool held = give_back HeldPool held"
| "held_after RegDriver held = Some (HeldDriver # held)"
| "held_after UnregDriver held = give_back HeldDriver held"

definition major_taken :: "init_env \<Rightarrow> mod_state \<Rightarrow> mod_res list" where
  "major_taken env st = (case held_major (shannon_major st) (register_blkdev env (shannon_major st)) of
     None \<Rightarrow> [] | Some m \<Rightarrow> [HeldMajor m])"

definition init_succeeds :: "init_env \<Rightarrow> mod_state \<Rightarrow> bool" where
  "init_succeeds env st \<longleftrightarrow> (shannon_use_percpu_wq st \<or> shannon_scsi_mode st \<longrightarrow> create_workqueue_ok env) \<and>
     alloc_mempool env = 0 \<and> pci_register_driver env = 0"

lemma lists_initialised:
  "dll (SHANNON_INIT_LIST_HEAD (SHANNON_INIT_LIST_HEAD h SHANNON_DEV_LIST) SHANNON_POOL_LIST) SHANNON_DEV_LIST []"
  "dll (SHANNON_INIT_LIST_HEAD h SHANNON_POOL_LIST) SHANNON_POOL_LIST []"
  using dll_init [of h SHANNON_DEV_LIST] dll_init [of h SHANNON_POOL_LIST]
  by (simp_all add: dll_Nil init_frame SHANNON_DEV_LIST_def SHANNON_POOL_LIST_def)

text \<open>C18 (error). Loading the module takes block major, per-CPU work queue (if configured or in SCSI mode), memory
  pools and PCI driver in this order, and returns 0 exactly if queue, pools and driver are granted; a
  failed registration of the major is not noticed. If one is refused, what was taken before is
  given back exactly once, in reverse order, and nothing else is; otherwise the device and pool lists
  are empty rings, and unloading gives everything back in reverse order. The one exception, in
  both cases, is a major that was requested by number (the module parameter): its registration
  returns 0, which overwrites the number, and it stays registered.\<close>

theorem module_init_unwinds:
  assumes "blkdev_contract env" "\<not> shannon_percpu_wq st" and "shannon_init env st = (result, st', ev)"
  shows "(result = 0 \<longleftrightarrow> init_succeeds env st) \<and>
    (let kept = (if shannon_major st = 0 then [] else major_taken env st) in
     if result \<noteq> 0 then fold_opt held_after ev [] = Some kept
     else fold_opt held_after ev [] = Some ([HeldDriver, HeldPool] @
         (if shannon_use_percpu_wq st \<or> shannon_scsi_mode st then [HeldWq] else []) @ major_taken env st) \<and>
       fold_opt held_after (ev @ shannon_exit st') [] = Some kept \<and>
       dll (dev_lists st') SHANNON_DEV_LIST [] \<and> dll (dev_lists st') SHANNON_POOL_LIST [])"
proof -
  define wq where "wq \<longleftrightarrow> shannon_use_percpu_wq st \<or> shannon_scsi_mode st"
  have major: "shannon_major st \<noteq> 0 \<longrightarrow> register_blkdev env (shannon_major st) \<le> 0"
    using assms(1) by (simp add: blkdev_contract_def)
  note defs = shannon_init_def Let_def init_succeeds_def init_unregister_blkdev_def init_destroy_wq_def
    init_free_mempool_def shannon_exit_def lists_initialised kernel_consts major_taken_def held_major_def
  consider (wq) "wq" "\<not> create_workqueue_ok env" | (pool) "wq \<longrightarrow> create_workqueue_ok env" "alloc_mempool env \<noteq> 0"
    | (driver) "wq \<longrightarrow> create_workqueue_ok env" "alloc_mempool env = 0" "pci_register_driver env \<noteq> 0"
    | (ok) "wq \<longrightarrow> create_workqueue_ok env" "alloc_mempool env = 0" "pci_register_driver env = 0" by blast
  then show ?thesis
    by cases (use assms(2,3) major in \<open>auto simp: defs wq_def split: if_splits\<close>)
qed

definition sample_mod_state :: mod_state where
  "sample_mod_state = \<lparr>shannon_scsi_mode = True, shannon_use_percpu_wq = False, shannon_pm_qos_disable = False,
     shannon_major = 0, shannon_percpu_wq = False, dev_lists = \<lparr>nxt = id, prv = id\<rparr>\<rparr>"

definition sample_init_env :: init_env where
  "sample_init_env = \<lparr>register_blkdev = (\<lambda>m. if m = 0 then 252 else 0), create_workqueue_ok = True, alloc_mempool = 0,
     pci_register_driver = - EIO\<rparr>"

theorem module_init_unwinds_witness:
  "blkdev_contract sample_init_env \<and> \<not> shannon_percpu_wq sample_mod_state \<and>
   (case shannon_init sample_init_env sample_mod_state of (result, st', ev) \<Rightarrow>
      result = - 5 \<and> fold_opt held_after ev [] = Some []) \<and>
   (case shannon_init sample_init_env (sample_mod_state\<lparr>shannon_major := 200\<rparr>) of (result, st', ev) \<Rightarrow>
      result = - 5 \<and> fold_opt held_after ev [] = Some [HeldMajor 200])"
proof -
  have env: "blkdev_contract sample_init_env" by (simp add: blkdev_contract_def sample_init_env_def)
  have held: "fold_opt held_after ev [] = Some (if m = 0 then [] else [HeldMajor m]) \<and> result = - 5"
    if run: "shannon_init sample_init_env (sample_mod_state\<lparr>shannon_major := m\<rparr>) = (result, st', ev)" for m result st' ev
  proof -
    have wq: "\<not> shannon_percpu_wq (sample_mod_state\<lparr>shannon_major := m\<rparr>)" by (simp add: sample_mod_state_def)
    have "result = - 5"
      using run by (auto simp: shannon_init_def Let_def sample_init_env_def sample_mod_state_def EIO_def)
    then show ?thesis using module_init_unwinds [OF env wq run]
      by (auto simp: Let_def major_taken_def held_major_def sample_init_env_def split: if_splits)
  qed
  have m: "sample_mod_state = sample_mod_state\<lparr>shannon_major := 0\<rparr>" by (simp add: sample_mod_state_def)
  show ?thesis
    using env held [of 200] held [of 0] m by (auto simp: sample_mod_state_def split: prod.split)
qed

text \<open>With the module parameter \<open>shannon_major\<close> set, the result 0 of a successful registration overwrites the number:
  unloading unregisters major 0 and the requested one stays registered.\<close>

lemma static_major_lost:
  assumes "request \<noteq> 0" "register_blkdev env request = 0" "shannon_major st = request" "\<not> shannon_percpu_wq st"
    "shannon_init env st = (0, st', ev)"
  shows "held_major request (shannon_major st') = Some request \<and> UnregBlkdev request \<notin> set (shannon_exit st')"
  using assms
  by (auto simp: shannon_init_def Let_def held_major_def shannon_exit_def kernel_consts split: if_splits)

lemma misc_scan_find:
  "misc_scan minor_of m c xs =
    (case find (\<lambda>x. minor_of x = m) xs of Some x \<Rightarrow> Some x | None \<Rightarrow> if xs = [] then c else Some (last xs))"
  by (induction xs arbitrary: c) (auto split: option.split)

lemma misc_scan_hit:
  "misc_scan minor_of m None xs = Some x \<and> minor_of x = m \<longleftrightarrow> find (\<lambda>x. minor_of x = m) xs = Some x"
proof (cases "find (\<lambda>x. minor_of x = m) xs")
  case None
  then have "minor_of (last xs) \<noteq> m" if "xs \<noteq> []" using that by (simp add: find_None_iff)
  then show ?thesis using None by (auto simp: misc_scan_find)
next
  case (Some y)
  then have "minor_of y = m" by (auto simp: find_Some_iff)
  then show ?thesis using Some by (auto simp: misc_scan_find)
qed

text \<open>Opening a control device returns 0 with the first device of the list that has this minor
  number, or \<open>-ENODEV\<close> with no private data when none has; opening a pool device is the same on the
  pool list and takes exactly one reference, on the pool it returns.\<close>

theorem miscdevice_open_finds:
  assumes "dll h head xs" "length xs < n"
  shows "shannon_ctrl_miscdevice_open n h head minor_of m =
      Some (case find (\<lambda>x. minor_of x = m) xs of None \<Rightarrow> (- ENODEV, None) | Some x \<Rightarrow> (0, Some x)) \<and>
    shannon_pool_miscdevice_open n h head minor_of m =
      Some (case find (\<lambda>x. minor_of x = m) xs of None \<Rightarrow> (- ENODEV, None, []) | Some x \<Rightarrow> (0, Some x, [x]))"
proof -
  have walk: "shannon_list_for_each n h head = Some xs" by (rule for_each_dll [OF assms])
  show ?thesis
  proof (cases "find (\<lambda>x. minor_of x = m) xs")
    case None
    then have "misc_scan minor_of m None xs = None \<or> minor_of (the (misc_scan minor_of m None xs)) \<noteq> m"
      using misc_scan_hit [of minor_of m xs] by (cases "misc_scan minor_of m None xs") auto
    then show ?thesis
      using None walk by (auto simp: shannon_ctrl_miscdevice_open_def shannon_pool_miscdevice_open_def Let_def split: option.split)
  next
    case (Some x)
    then have "misc_scan minor_of m None xs = Some x" "minor_of x = m" using misc_scan_hit [of minor_of m xs x] by auto
    then show ?thesis
      using Some walk by (simp add: shannon_ctrl_miscdevice_open_def shannon_pool_miscdevice_open_def Let_def)
  qed
qed

theorem miscdevice_open_finds_witness:
  "dll \<lparr>nxt = (\<lambda>x. if x = 1 then 5 else if x = 5 then 6 else 1), prv = (\<lambda>x. if x = 1 then 6 else if x = 5 then 1 else 5)\<rparr> 1 [5, 6] \<and>
   shannon_ctrl_miscdevice_open 3 \<lparr>nxt = (\<lambda>x. if x = 1 then 5 else if x = 5 then 6 else 1),
     prv = (\<lambda>x. if x = 1 then 6 else if x = 5 then 1 else 5)\<rparr> 1 int 6 = Some (0, Some 6)"
proof -
  let ?h = "\<lparr>nxt = (\<lambda>x. if x = 1 then 5 else if x = 5 then 6 else 1), prv = (\<lambda>x. if x = 1 then 6 else if x = 5 then 1 else 5)\<rparr> :: list_heap"
  have "dll ?h 1 [5, 6]" by (simp add: dll_def)
  from miscdevice_open_finds [OF this, of 3 int 6] this show ?thesis by simp
qed

text \<open>The geometry reported for a disk never covers more sectors than the disk has, and it covers all
  but the last incomplete cylinder exactly when the disk has fewer than 65536 cylinders of 1024 sectors;
  on larger disks the cylinder count wraps.\<close>

theorem getgeo_bound:
  "let geo = snd (shannon_getgeo n);
       covered = unat (cylinders geo) * unat (heads geo) * unat (sectors geo) in
   covered \<le> unat n \<and> (covered = unat n div 1024 * 1024 \<longleftrightarrow> unat n < 65536 * 1024)"
proof -
  have cyl: "unat (cylinders (snd (shannon_getgeo n))) = unat n div 1024 mod 65536"
    by (simp add: shannon_getgeo_def Let_def unat_div unsigned_ucast_eq take_bit_eq_mod)
  have geo: "unat (heads (snd (shannon_getgeo n))) = 32" "unat (sectors (snd (shannon_getgeo n))) = 32"
    by (simp_all add: shannon_getgeo_def Let_def)
  define q where "q = unat n div 1024"
  have "q mod 65536 \<le> q" "q * 1024 \<le> unat n" by (simp_all add: q_def)
  then have "q mod 65536 * 1024 \<le> unat n" by (meson mult_le_mono1 order_trans)
  moreover have "q mod 65536 * 1024 = q * 1024 \<longleftrightarrow> q < 65536"
    using mod_less_divisor [of 65536 q] by (metis mod_less mult_right_cancel numeral_eq_iff zero_neq_numeral zero_less_numeral)
  moreover have "q < 65536 \<longleftrightarrow> unat n < 65536 * 1024" by (simp add: q_def div_less_iff_less_mult)
  ultimately show ?thesis by (simp add: Let_def cyl geo q_def mult.assoc)
qed

end
