(* ===== verification/Block_Queue.thy ===== *)
theory Block_Queue
  imports Kcore
begin

text \<open>
  Request queues and disks (\<^verbatim>\<open>shannon_block.c\<close>): creation of the queue with or without the I/O scheduler,
  allocation and registration of the disk, the limits, cleanup, and attaching a device. The
  configuration is that of kernels from 6.9 on. \<open>queue->queuedata\<close> is an untyped pointer that holds a disk,
  the driver's own object or the multi-queue data at different times; here it is a datatype, and a cast
  to the wrong kind is undefined (\<open>None\<close>), like a NULL dereference or \<open>SHN_BUG_ON\<close>.
\<close>

section \<open>Objects\<close>

datatype qdata = QNull | QDisk nat | QDriver nat | QMq nat

record queue_limits =
  logical_block_size :: u32
  physical_block_size :: u32
  max_hw_sectors :: u32
  io_min :: u32
  io_opt :: u32
  discard_granularity :: u32
  max_discard_sectors :: u32
  max_write_zeroes_sectors :: u32

record request_queue =
  queuedata :: qdata
  limits :: queue_limits
  queue_flags :: "nat set"

datatype disk_ops = OpsUnset | ShannonOps | ShannonOpsNs

record gendisk =
  gd_queue :: nat
  disk_name :: string
  major :: int
  minors :: int
  first_minor :: int
  private_data :: "nat option"
  fops :: disk_ops
  gd_capacity :: u64
  gd_ro :: bool

text \<open>Queues, disks and the multi-queue data (its \<open>original_data\<close>), each by address; \<open>submit_bio\<close> is the member of
  the shared operations table \<open>shannon_ops\<close> that the scheduler mode clears.\<close>

record blk_heap =
  qs :: "nat \<Rightarrow> request_queue"
  gds :: "nat \<Rightarrow> gendisk"
  mqs :: "nat \<Rightarrow> nat option"
  shannon_ops_submit_bio :: bool

datatype blk_event = KzallocMq nat | KfreeMq nat | AllocTagSet nat | FreeTagSet nat | PutDisk nat | AddDisk nat
  | SysfsLink | Detach

section \<open>Queue limits\<close>

definition with_limits :: "(queue_limits \<Rightarrow> queue_limits) \<Rightarrow> nat \<Rightarrow> blk_heap \<Rightarrow> blk_heap" where
  "with_limits f q h = h\<lparr>qs := (qs h)(q := (qs h q)\<lparr>limits := f (limits (qs h q))\<rparr>)\<rparr>"

definition shannon_blk_queue_block_size :: "nat \<Rightarrow> u32 \<Rightarrow> u32 \<Rightarrow> blk_heap \<Rightarrow> blk_heap" where
  "shannon_blk_queue_block_size q lsize psize =
    with_limits (\<lambda>l. l\<lparr>logical_block_size := lsize, physical_block_size := psize\<rparr>) q"

definition shannon_blk_queue_max_hw_sectors :: "nat \<Rightarrow> u32 \<Rightarrow> blk_heap \<Rightarrow> blk_heap" where
  "shannon_blk_queue_max_hw_sectors q n = with_limits (\<lambda>l. l\<lparr>max_hw_sectors := n\<rparr>) q"

definition shannon_blk_queue_io_min :: "nat \<Rightarrow> u32 \<Rightarrow> blk_heap \<Rightarrow> blk_heap" where
  "shannon_blk_queue_io_min q n = with_limits (\<lambda>l. l\<lparr>io_min := n\<rparr>) q"

definition shannon_blk_queue_io_opt :: "nat \<Rightarrow> u32 \<Rightarrow> blk_heap \<Rightarrow> blk_heap" where
  "shannon_blk_queue_io_opt q n = with_limits (\<lambda>l. l\<lparr>io_opt := n\<rparr>) q"

text \<open>\<open>(UINT_MAX >> 9) & ~7\<close> sectors.\<close>

definition shannon_trim_setting :: "nat \<Rightarrow> blk_heap \<Rightarrow> blk_heap" where
  "shannon_trim_setting q =
    with_limits (\<lambda>l. l\<lparr>discard_granularity := of_nat PAGE_SIZE,
      max_discard_sectors := drop_bit 9 (- 1) AND NOT 7,
      max_write_zeroes_sectors := drop_bit 9 (- 1) AND NOT 7\<rparr>) q"

definition shannon_queue_flag_set :: "nat \<Rightarrow> nat \<Rightarrow> blk_heap \<Rightarrow> blk_heap" where
  "shannon_queue_flag_set flag q h = h\<lparr>qs := (qs h)(q := (qs h q)\<lparr>queue_flags := insert flag (queue_flags (qs h q))\<rparr>)\<rparr>"

definition shannon_queue_flag_clear :: "nat \<Rightarrow> nat \<Rightarrow> blk_heap \<Rightarrow> blk_heap" where
  "shannon_queue_flag_clear flag q h = h\<lparr>qs := (qs h)(q := (qs h q)\<lparr>queue_flags := queue_flags (qs h q) - {flag}\<rparr>)\<rparr>"

text \<open>From 6.9 on there is nothing to set.\<close>

definition shannon_rotational_setting :: "nat \<Rightarrow> blk_heap \<Rightarrow> blk_heap" where
  "shannon_rotational_setting q h = h"

section \<open>Creating a queue\<close>

text \<open>What the kernel answers: the memory of the multi-queue data, the tag set, the queue (an address or an error pointer),
  the disk with its queue, the disk for an existing queue, and \<open>add_disk\<close>. \<open>debug\<close> says whether messages of
  level 0 are printed.\<close>

record blk_env =
  kzalloc_mq :: "nat option"
  alloc_tag_set_ret :: int
  mq_alloc_queue :: "(int, nat) sum"            \<comment> \<open>an error, or an address, where 0 is NULL\<close>
  alloc_disk :: "(int, nat \<times> nat) sum"
  alloc_disk_for_queue :: "(int, nat) sum"
  add_disk_ret :: int
  debug :: bool

definition shannon_blk_mq_init_tag_set :: "blk_env \<Rightarrow> nat \<Rightarrow> int \<times> blk_event list" where
  "shannon_blk_mq_init_tag_set env m =
    (let ret = alloc_tag_set_ret env in (ret, if ret = 0 then [AllocTagSet m] else []))"

text \<open>The queue with the I/O scheduler: the queue (\<open>None\<close> is NULL), the heap and the resources taken and returned.
  \<open>blk_mq_alloc_queue\<close> stores its last argument in \<open>queuedata\<close>.\<close>

definition shannon_init_queue :: "blk_env \<Rightarrow> nat \<Rightarrow> blk_heap \<Rightarrow> nat option \<times> blk_heap \<times> blk_event list" where
  "shannon_init_queue env data h =
    (case kzalloc_mq env of None \<Rightarrow> (None, h, [])
     | Some m \<Rightarrow>
        let ev = [KzallocMq m]; (ret, tev) = shannon_blk_mq_init_tag_set env m; ev = ev @ tev
        in if ret \<noteq> 0 then (None, h, ev @ [KfreeMq m])
        else (case mq_alloc_queue env of
            Inl err \<Rightarrow> (None, h, ev @ [FreeTagSet m, KfreeMq m])
          | Inr q \<Rightarrow>
              if q = 0 then (None, h, ev @ [FreeTagSet m, KfreeMq m])
              else let h = h\<lparr>qs := (qs h)(q := (qs h q)\<lparr>queuedata := QMq m\<rparr>)\<rparr>
                   in (Some q, h\<lparr>mqs := (mqs h)(m := Some data)\<rparr>, ev)))"

text \<open>The queue without scheduler comes with its disk: the disk keeps the driver's object, the queue the disk. An
  error pointer is a bug.\<close>

definition shannon_alloc_queue :: "blk_env \<Rightarrow> nat \<Rightarrow> blk_heap \<Rightarrow> (nat option \<times> blk_heap) option" where
  "shannon_alloc_queue env data h =
    (case alloc_disk env of Inl err \<Rightarrow> None
     | Inr (disk, q) \<Rightarrow>
        let h = h\<lparr>gds := (gds h)(disk := (gds h disk)\<lparr>gd_queue := q\<rparr>)\<rparr>;
            h = h\<lparr>gds := (gds h)(disk := (gds h disk)\<lparr>private_data := Some data\<rparr>)\<rparr>;
            h = h\<lparr>qs := (qs h)(q := (qs h q)\<lparr>queuedata := QDisk disk\<rparr>)\<rparr>
        in Some (Some q, h))"

definition shannon_create_blkqueue ::
    "blk_env \<Rightarrow> bool \<Rightarrow> nat \<Rightarrow> bool \<Rightarrow> blk_heap \<Rightarrow> (nat option \<times> blk_heap \<times> blk_event list) option" where
  "shannon_create_blkqueue env shannon_use_iosched data ns h =
    (if shannon_use_iosched \<and> \<not> ns then Some (shannon_init_queue env data h)
     else map_option (\<lambda>(q, h). (q, h, [])) (shannon_alloc_queue env data h))"

definition shannon_blk_cleanup_queue :: "bool \<Rightarrow> nat \<Rightarrow> bool \<Rightarrow> blk_heap \<Rightarrow> (blk_heap \<times> blk_event list) option" where
  "shannon_blk_cleanup_queue shannon_use_iosched q ns h =
    (if shannon_use_iosched \<and> \<not> ns then
       (case queuedata (qs h q) of QMq m \<Rightarrow> Some (h\<lparr>mqs := (mqs h)(m := None)\<rparr>, [FreeTagSet m, KfreeMq m]) | _ \<Rightarrow> None)
     else Some (h, []))"

section \<open>The disk of a queue\<close>

text \<open>The debug message reads \<open>disk->queue\<close> before the result is tested.\<close>

definition shannon_alloc_disk :: "blk_env \<Rightarrow> bool \<Rightarrow> nat \<Rightarrow> blk_heap \<Rightarrow> (nat option \<times> blk_heap) option" where
  "shannon_alloc_disk env shannon_use_iosched q h =
    (if queuedata (qs h q) \<noteq> QNull \<and> \<not> shannon_use_iosched then
       (case queuedata (qs h q) of
          QDisk disk \<Rightarrow>
            let dq = gd_queue (gds h disk)
            in Some (Some disk, h\<lparr>qs := (qs h)(dq := (qs h dq)\<lparr>queuedata :=
                 (case private_data (gds h disk) of None \<Rightarrow> QNull | Some d \<Rightarrow> QDriver d)\<rparr>)\<rparr>)
        | _ \<Rightarrow> None)
     else if shannon_use_iosched then
       (case alloc_disk_for_queue env of Inl err \<Rightarrow> None
        | Inr disk \<Rightarrow> if disk = 0 then (if debug env then None else Some (None, h))
            else Some (Some disk, h\<lparr>gds := (gds h)(disk := (gds h disk)\<lparr>gd_queue := q\<rparr>)\<rparr>))
     else if debug env then None else Some (None, h))"

text \<open>The source passes \<open>name\<close> to \<open>snprintf\<close> as the format; the definition gives the result for names without \<open>%\<close>, which are
  cut at the size of the field.\<close>

definition shannon_init_gendisk ::
    "bool \<Rightarrow> nat \<Rightarrow> string \<Rightarrow> int \<Rightarrow> int \<Rightarrow> int \<Rightarrow> nat option \<Rightarrow> blk_heap \<Rightarrow> blk_heap" where
  "shannon_init_gendisk shannon_use_iosched disk name maj minor_span first pri h =
    (let h = h\<lparr>gds := (gds h)(disk := (gds h disk)\<lparr>disk_name := take 31 name, major := maj, minors := minor_span,
              first_minor := first, private_data := pri,
              fops := (if name = [] \<or> hd name \<noteq> CHR ''d'' then ShannonOpsNs else ShannonOps)\<rparr>)\<rparr>
     in if shannon_use_iosched then h\<lparr>shannon_ops_submit_bio := False\<rparr> else h)"

definition shannon_set_capacity :: "nat \<Rightarrow> u64 \<Rightarrow> blk_heap \<Rightarrow> blk_heap" where
  "shannon_set_capacity disk n h = h\<lparr>gds := (gds h)(disk := (gds h disk)\<lparr>gd_capacity := n\<rparr>)\<rparr>"

definition shannon_set_disk_ro :: "nat \<Rightarrow> bool \<Rightarrow> blk_heap \<Rightarrow> blk_heap" where
  "shannon_set_disk_ro disk flag h = h\<lparr>gds := (gds h)(disk := (gds h disk)\<lparr>gd_ro := flag\<rparr>)\<rparr>"

definition shannon_add_disk :: "blk_env \<Rightarrow> nat \<Rightarrow> int \<times> blk_event list" where
  "shannon_add_disk env disk =
    (let err = add_disk_ret env in if err \<noteq> 0 then (err, [PutDisk disk]) else (0, [AddDisk disk]))"

section \<open>Attaching a device\<close>

record shannon_sdev =
  sd_disk :: "nat option"
  sd_queue :: nat
  sd_self :: nat
  sd_disk_name :: string
  sd_major :: int
  sd_minor :: int
  sd_capacity :: u64
  limit1 :: u64
  limit2 :: u64
  sd_state :: nat
  counter1 :: u32
  counter2 :: u32
  param1 :: u32
  param2 :: u32

text \<open>From the assignment of \<open>sdev->disk\<close> to the device parameters, before the disk is added.\<close>

definition attach_setup :: "bool \<Rightarrow> nat \<Rightarrow> shannon_sdev \<Rightarrow> blk_heap \<Rightarrow> shannon_sdev \<times> blk_heap" where
  "attach_setup shannon_use_iosched disk sdev h =
    (let sdev = sdev\<lparr>sd_disk := Some disk\<rparr>;
         h = shannon_init_gendisk shannon_use_iosched disk (sd_disk_name sdev) (sd_major sdev) 64
               (sd_minor sdev * 64) (Some (sd_self sdev)) h;
         h = shannon_set_capacity disk (sd_capacity sdev) h;
         sdev = (if limit1 sdev > limit2 sdev then sdev\<lparr>limit2 := limit1 sdev\<rparr> else sdev)
     in (sdev\<lparr>sd_state := 2, counter1 := 0, counter2 := param1 sdev * param2 sdev * 3\<rparr>, h))"

text \<open>\<open>sysfs_link\<close> is the result of \<open>shannon_sysfs_link\<close>, \<open>detach\<close> what \<open>shannon_detach\<close> of the core does to the device.\<close>

definition shannon_attach_sdev ::
    "blk_env \<Rightarrow> bool \<Rightarrow> int \<Rightarrow> (shannon_sdev \<Rightarrow> shannon_sdev) \<Rightarrow> shannon_sdev \<Rightarrow> blk_heap \<Rightarrow>
     (int \<times> shannon_sdev \<times> blk_heap \<times> blk_event list) option" where
  "shannon_attach_sdev env shannon_use_iosched sysfs_link detach sdev h =
    (if sd_disk sdev \<noteq> None then Some (- 1, sdev, h, [])
     else case shannon_alloc_disk env shannon_use_iosched (sd_queue sdev) h of None \<Rightarrow> None
     | Some (None, h) \<Rightarrow> Some (- 1, sdev, h, [])
     | Some (Some disk, h) \<Rightarrow>
        let (sdev, h) = attach_setup shannon_use_iosched disk sdev h;
            (err, ev) = shannon_add_disk env disk
        in if err \<noteq> 0 then Some (- 1, detach sdev, h, ev @ [Detach])
        else if sysfs_link \<noteq> 0 then Some (- 1, detach sdev, h, ev @ [SysfsLink, Detach])
        else Some (0, sdev, h, ev @ [SysfsLink]))"

section \<open>Properties\<close>

text \<open>The object a request function finds: \<open>shannon_make_request\<close> and its namespace variant take \<open>queuedata\<close> itself,
  \<open>shannon_disk_request\<close> the \<open>original_data\<close> behind it.\<close>

definition make_request_owner :: "nat \<Rightarrow> blk_heap \<Rightarrow> nat option" where
  "make_request_owner q h = (case queuedata (qs h q) of QDriver d \<Rightarrow> Some d | _ \<Rightarrow> None)"

definition disk_request_owner :: "nat \<Rightarrow> blk_heap \<Rightarrow> nat option" where
  "disk_request_owner q h = (case queuedata (qs h q) of QMq m \<Rightarrow> mqs h m | _ \<Rightarrow> None)"

text \<open>C22 (roundtrip). A queue created for a driver object leads its request function back to that object: after the disk was
  allocated, \<open>shannon_disk_request\<close> (I/O scheduler, not for namespaces) and \<open>shannon_make_request\<close> (no
  scheduler) find exactly the object, the disk belongs to the queue, and cleaning the queue up frees
  the tag set and the multi-queue data exactly if the creation allocated them.\<close>

theorem queue_owner_roundtrip:
  assumes create: "shannon_create_blkqueue env iosched data ns h = Some (Some q, h1, ev)"
    and disk: "shannon_alloc_disk env' iosched q h1 = Some (Some d, h2)" and mode: "\<not> (iosched \<and> ns)"
  shows "gd_queue (gds h2 d) = q \<and>
    (if iosched then disk_request_owner q h2 else make_request_owner q h2) = Some data \<and>
    (\<exists>h3 ev'. shannon_blk_cleanup_queue iosched q ns h2 = Some (h3, ev') \<and>
      (\<forall>m. KfreeMq m \<in> set ev' \<longleftrightarrow> KzallocMq m \<in> set ev) \<and> (\<forall>m. FreeTagSet m \<in> set ev' \<longleftrightarrow> AllocTagSet m \<in> set ev))"
proof (cases iosched)
  case True
  then have ini: "shannon_init_queue env data h = (Some q, h1, ev)" using create mode by (simp add: shannon_create_blkqueue_def)
  then obtain m where m: "kzalloc_mq env = Some m" by (auto simp: shannon_init_queue_def split: option.splits)
  with ini have h1: "queuedata (qs h1 q) = QMq m" "mqs h1 m = Some data" "ev = [KzallocMq m, AllocTagSet m]"
    by (auto simp: shannon_init_queue_def shannon_blk_mq_init_tag_set_def Let_def split: sum.splits if_splits)
  moreover have "h2 = h1\<lparr>gds := (gds h1)(d := (gds h1 d)\<lparr>gd_queue := q\<rparr>)\<rparr>"
    using disk True by (auto simp: shannon_alloc_disk_def split: sum.splits if_splits)
  ultimately show ?thesis
    using True mode by (auto simp: disk_request_owner_def shannon_blk_cleanup_queue_def)
next
  case False
  then obtain d0 where h1: "queuedata (qs h1 q) = QDisk d0" "gd_queue (gds h1 d0) = q" "private_data (gds h1 d0) = Some data" "ev = []"
    using create by (auto simp: shannon_create_blkqueue_def shannon_alloc_queue_def Let_def split: sum.splits prod.splits)
  then have "d = d0" "h2 = h1\<lparr>qs := (qs h1)(q := (qs h1 q)\<lparr>queuedata := QDriver data\<rparr>)\<rparr>"
    using disk False by (auto simp: shannon_alloc_disk_def Let_def)
  then show ?thesis using h1 False by (simp add: make_request_owner_def shannon_blk_cleanup_queue_def)
qed

definition sample_blk_env :: blk_env where
  "sample_blk_env = \<lparr>kzalloc_mq = Some 7, alloc_tag_set_ret = 0, mq_alloc_queue = Inr 3, alloc_disk = Inr (4, 5),
     alloc_disk_for_queue = Inr 6, add_disk_ret = 0, debug = False\<rparr>"

definition sample_blk_heap :: blk_heap where
  "sample_blk_heap = \<lparr>qs = (\<lambda>q. \<lparr>queuedata = QNull, limits = \<lparr>logical_block_size = 512, physical_block_size = 512,
       max_hw_sectors = 0, io_min = 0, io_opt = 0, discard_granularity = 0, max_discard_sectors = 0,
       max_write_zeroes_sectors = 0\<rparr>, queue_flags = {}\<rparr>),
     gds = (\<lambda>d. \<lparr>gd_queue = 0, disk_name = [], major = 0, minors = 0, first_minor = 0, private_data = None,
       fops = OpsUnset, gd_capacity = 0, gd_ro = False\<rparr>),
     mqs = (\<lambda>m. None), shannon_ops_submit_bio = True\<rparr>"

theorem queue_owner_roundtrip_witness:
  "\<exists>h1 h2 ev. shannon_create_blkqueue sample_blk_env False 99 False sample_blk_heap = Some (Some 5, h1, ev) \<and>
    shannon_alloc_disk sample_blk_env False 5 h1 = Some (Some 4, h2) \<and> make_request_owner 5 h2 = Some 99"
proof -
  obtain h1 ev where c: "shannon_create_blkqueue sample_blk_env False 99 False sample_blk_heap = Some (Some 5, h1, ev)"
    "queuedata (qs h1 5) = QDisk 4"
    by (simp add: shannon_create_blkqueue_def shannon_alloc_queue_def sample_blk_env_def Let_def)
  obtain h2 where d: "shannon_alloc_disk sample_blk_env False 5 h1 = Some (Some 4, h2)"
    using c(2) by (simp add: shannon_alloc_disk_def Let_def)
  show ?thesis using queue_owner_roundtrip [OF c(1) d] c d by simp
qed

text \<open>In scheduler mode the queue of a namespace is created without scheduler, but its disk is allocated as if it had
  one: the queue keeps the disk in \<open>queuedata\<close>, which \<open>shannon_make_request_ns\<close> takes for the namespace.\<close>

lemma ns_queue_with_iosched:
  assumes "shannon_create_blkqueue env True data True h = Some (Some q, h1, ev)"
    and "shannon_alloc_disk env' True q h1 = Some (Some d, h2)"
  shows "\<exists>d0. queuedata (qs h2 q) = QDisk d0"
  using assms
  by (auto simp: shannon_create_blkqueue_def shannon_alloc_queue_def shannon_alloc_disk_def Let_def
      split: sum.splits prod.splits if_splits)

text \<open>A second disk cannot be allocated from the same queue: \<open>queuedata\<close> then holds the driver object, which is
  taken for a disk.\<close>

lemma realloc_takes_driver_object_for_disk:
  assumes "shannon_alloc_disk env False q h = Some (Some d, h')" "gd_queue (gds h d) = q" "private_data (gds h d) = Some data"
  shows "shannon_alloc_disk env' False q h' = None"
  using assms by (auto simp: shannon_alloc_disk_def Let_def split: qdata.splits if_splits)

lemma attach_setup_fields:
  assumes "attach_setup iosched disk sdev h = (s, h')"
  shows "sd_disk s = Some disk \<and> sd_state s = 2 \<and> limit1 s \<le> limit2 s \<and> gd_capacity (gds h' disk) = sd_capacity sdev \<and>
    private_data (gds h' disk) = Some (sd_self sdev) \<and> first_minor (gds h' disk) = sd_minor sdev * 64 \<and> minors (gds h' disk) = 64"
  using assms by (auto simp: attach_setup_def Let_def shannon_init_gendisk_def shannon_set_capacity_def)

definition sample_sdev :: shannon_sdev where
  "sample_sdev = \<lparr>sd_disk = None, sd_queue = 3, sd_self = 42, sd_disk_name = ''dfa'', sd_major = 252, sd_minor = 1,
     sd_capacity = 4096, limit1 = 2, limit2 = 1, sd_state = 0, counter1 = 5, counter2 = 0, param1 = 2, param2 = 3\<rparr>"

text \<open>Attaching succeeds only on a device without disk; then the disk has the device's capacity, name, number
  range and back pointer before it becomes visible, the device is in state 2, and the disk was added and
  linked. On failure the result is \<open>-1\<close>: either nothing happened to the device, or it was detached as
  the last step, after a disk that could not be added was released.\<close>

theorem attach_sdev_outcome:
  assumes "shannon_attach_sdev env iosched sysfs_link detach sdev h = Some (ret, sdev', h', ev)"
  shows "if ret = 0
    then \<exists>disk. sd_disk sdev = None \<and> sd_disk sdev' = Some disk \<and> sd_state sdev' = 2 \<and> limit1 sdev' \<le> limit2 sdev' \<and>
      gd_capacity (gds h' disk) = sd_capacity sdev \<and> private_data (gds h' disk) = Some (sd_self sdev) \<and>
      first_minor (gds h' disk) = sd_minor sdev * 64 \<and> minors (gds h' disk) = 64 \<and> ev = [AddDisk disk, SysfsLink]
    else ret = - 1 \<and>
      (ev = [] \<and> sdev' = sdev \<or>
       (\<exists>disk s. sdev' = detach s \<and> sd_disk sdev = None \<and> sd_disk s = Some disk \<and>
         (ev = [PutDisk disk, Detach] \<or> ev = [AddDisk disk, SysfsLink, Detach])))"
proof (cases "sd_disk sdev")
  case (Some d)
  then show ?thesis using assms by (auto simp: shannon_attach_sdev_def)
next
  case None
  then obtain r h1 where a: "shannon_alloc_disk env iosched (sd_queue sdev) h = Some (r, h1)"
    using assms by (auto simp: shannon_attach_sdev_def split: option.splits)
  show ?thesis
  proof (cases r)
    case None
    then show ?thesis using assms a \<open>sd_disk sdev = None\<close> by (auto simp: shannon_attach_sdev_def)
  next
    case (Some disk)
    obtain s hh where s: "attach_setup iosched disk sdev h1 = (s, hh)" by (metis prod.collapse)
    show ?thesis
      using assms a Some None attach_setup_fields [OF s]
      by (auto simp: shannon_attach_sdev_def s shannon_add_disk_def Let_def split: if_splits)
  qed
qed

theorem attach_sdev_outcome_witness:
  "\<exists>sdev' h' ev. shannon_attach_sdev sample_blk_env True 0 id sample_sdev sample_blk_heap = Some (0, sdev', h', ev) \<and>
     sd_disk sdev' = Some 6 \<and> ev = [AddDisk 6, SysfsLink]"
proof -
  obtain sdev' h' ev where run: "shannon_attach_sdev sample_blk_env True 0 id sample_sdev sample_blk_heap = Some (0, sdev', h', ev)"
      "ev = [AddDisk 6, SysfsLink]"
    by (simp add: shannon_attach_sdev_def shannon_alloc_disk_def sample_blk_env_def sample_sdev_def shannon_add_disk_def
        case_prod_beta)
  then show ?thesis using attach_sdev_outcome [OF run(1)] by auto
qed

end
