(* ===== verification/Scsi.thy ===== *)
theory Scsi
  imports Kcore
begin

text \<open>
  The SCSI front end (\<^verbatim>\<open>shannon_scsi.c\<close>): filling a command's buffer, building sense data, ending and queueing
  commands, the disk geometry, the host's life cycle. The mapping of a command's scatter list is in
  \<^verbatim>\<open>Request_Convert\<close>. The interpretation of commands is in the precompiled core.
\<close>

section \<open>Codes\<close>

definition DID_ERROR :: int where [kernel_consts]: "DID_ERROR = 7"
definition SHANNON_SCSI_SENSE_LEN :: nat where "SHANNON_SCSI_SENSE_LEN = 32"
definition SHN_DRIVER_SENSE :: nat where "SHN_DRIVER_SENSE = 0x08"
definition SENSE_KEY_ILLEGAL_REQUEST :: nat where "SENSE_KEY_ILLEGAL_REQUEST = 0x05"
definition ASC_LOGICAL_UNIT_NOT_READY :: nat where "ASC_LOGICAL_UNIT_NOT_READY = 0x04"
definition STATUS_CODE_GOOD :: nat where "STATUS_CODE_GOOD = 0x00"
definition STATUS_CODE_CHECK_CONDITION :: nat where "STATUS_CODE_CHECK_CONDITION = 0x02"
definition CHECK_CONDITION_STATUS :: nat where
  "CHECK_CONDITION_STATUS = push_bit 24 SHN_DRIVER_SENSE OR STATUS_CODE_CHECK_CONDITION"

datatype data_direction = DMA_BIDIRECTIONAL | DMA_TO_DEVICE | DMA_FROM_DEVICE | DMA_NONE

section \<open>Filling a command's buffer\<close>

text \<open>An entry of the command's scatter list: whether \<open>kmap_atomic\<close> gives an address, and its length.\<close>

record fill_entry =
  fe_mapped :: bool
  fe_length :: nat

text \<open>The loop of the variants before 2.6.26: \<open>Inl\<close> with what was copied when a page cannot be mapped, otherwise
  \<open>req_len\<close>, \<open>act_len\<close> and the bytes copied into each entry.\<close>

fun fill_loop :: "u8 list \<Rightarrow> nat \<Rightarrow> fill_entry list \<Rightarrow> bool \<Rightarrow> nat \<Rightarrow> nat \<Rightarrow> (u8 list list) + (nat \<times> nat \<times> u8 list list)" where
  "fill_loop arr arr_len [] active req_len act_len = Inr (req_len, act_len, [])"
| "fill_loop arr arr_len (sg # sgs) active req_len act_len =
    (if active then
       (if \<not> fe_mapped sg then Inl []
        else let len = fe_length sg;
                 over = (req_len + len > arr_len);
                 len = (if over then arr_len - req_len else len);
                 copied = take len (drop req_len arr)
             in case fill_loop arr arr_len sgs (\<not> over) (req_len + fe_length sg) (act_len + len) of
                  Inl ws \<Rightarrow> Inl (copied # ws)
                | Inr (r, a, ws) \<Rightarrow> Inr (r, a, copied # ws))
     else case fill_loop arr arr_len sgs False (req_len + fe_length sg) act_len of
            Inl ws \<Rightarrow> Inl ([] # ws)
          | Inr (r, a, ws) \<Rightarrow> Inr (r, a, [] # ws))"

record scsi_buffer =
  sdb_length :: nat
  sdb_sgl :: "fill_entry list option"
  sdb_resid :: int

text \<open>The residue after a transfer in the variants that lower one already set.\<close>

definition lower_resid :: "int \<Rightarrow> nat \<Rightarrow> nat \<Rightarrow> int" where
  "lower_resid resid req_len act_len = (if resid \<noteq> 0 then resid - int act_len else int req_len - int act_len)"

text \<open>The variant of 2.6.25; the result, the new residue and the bytes copied.\<close>

definition shannon_fill_from_dev_buffer_2_6_25 ::
    "scsi_buffer \<Rightarrow> bool \<Rightarrow> data_direction \<Rightarrow> u8 list \<Rightarrow> nat \<Rightarrow> int \<times> int \<times> u8 list list" where
  "shannon_fill_from_dev_buffer_2_6_25 sdb bidi dir arr arr_len =
    (if sdb_length sdb = 0 then (0, sdb_resid sdb, [])
     else case sdb_sgl sdb of None \<Rightarrow> (DID_ERROR * 2 ^ 16, sdb_resid sdb, [])
     | Some sgl \<Rightarrow>
        if \<not> (bidi \<or> dir = DMA_FROM_DEVICE) then (DID_ERROR * 2 ^ 16, sdb_resid sdb, [])
        else (case fill_loop arr arr_len sgl True 0 0 of
            Inl ws \<Rightarrow> (DID_ERROR * 2 ^ 16, sdb_resid sdb, ws)
          | Inr (req_len, act_len, ws) \<Rightarrow>
              (0, lower_resid (sdb_resid sdb) req_len act_len, ws)))"

text \<open>The command of kernels before 2.6.25: \<open>request_buffer\<close> is NULL, a flat buffer (\<open>use_sg\<close> is 0) or a table of
  \<open>use_sg\<close> entries.\<close>

datatype request_buffer = Null_Buffer | Flat_Buffer | Sg_Table "fill_entry list"

record request_command =
  request_bufflen :: nat
  request_buf :: request_buffer
  rc_resid :: int

definition shannon_fill_from_dev_buffer_2_6_24 ::
    "request_command \<Rightarrow> data_direction \<Rightarrow> u8 list \<Rightarrow> nat \<Rightarrow> int \<times> int \<times> u8 list list" where
  "shannon_fill_from_dev_buffer_2_6_24 scp dir arr arr_len =
    (let fail = (\<lambda>ws. (DID_ERROR * 2 ^ 16, rc_resid scp, ws))
     in if request_bufflen scp = 0 then (0, rc_resid scp, [])
        else if request_buf scp = Null_Buffer then fail []
        else if \<not> (dir = DMA_BIDIRECTIONAL \<or> dir = DMA_FROM_DEVICE) then fail []
        else (case request_buf scp of
            Sg_Table sgl \<Rightarrow>
              (case fill_loop arr arr_len sgl True 0 0 of
                 Inl ws \<Rightarrow> fail ws
               | Inr (req_len, act_len, ws) \<Rightarrow> (0, lower_resid (rc_resid scp) req_len act_len, ws))
          | _ \<Rightarrow>
              let req_len = request_bufflen scp;
                  act_len = (if req_len < arr_len then req_len else arr_len)
              in (0, lower_resid (rc_resid scp) req_len act_len, [take act_len arr])))"

text \<open>The variants that use \<open>sg_copy_from_buffer\<close> of the kernel: from 2.6.26 on, where kernels before 3.11
  (\<open>old\<close>) lower a residue already set, and from 5.1 on.\<close>

type_synonym sg_copy = "fill_entry list option \<Rightarrow> u8 list \<Rightarrow> nat \<Rightarrow> nat \<times> u8 list list"

definition shannon_fill_from_dev_buffer_2_6_26 ::
    "bool \<Rightarrow> sg_copy \<Rightarrow> scsi_buffer \<Rightarrow> bool \<Rightarrow> data_direction \<Rightarrow> u8 list \<Rightarrow> nat \<Rightarrow> int \<times> int \<times> u8 list list" where
  "shannon_fill_from_dev_buffer_2_6_26 old sg_copy_from_buffer sdb bidi dir arr arr_len =
    (if sdb_length sdb = 0 then (0, sdb_resid sdb, [])
     else if \<not> (bidi \<or> dir = DMA_FROM_DEVICE) then (DID_ERROR * 2 ^ 16, sdb_resid sdb, [])
     else let (act_len, ws) = sg_copy_from_buffer (sdb_sgl sdb) arr arr_len
          in (0, if old then lower_resid (sdb_resid sdb) (sdb_length sdb) act_len
                 else int (sdb_length sdb) - int act_len, ws))"

definition shannon_fill_from_dev_buffer ::
    "sg_copy \<Rightarrow> scsi_buffer \<Rightarrow> data_direction \<Rightarrow> u8 list \<Rightarrow> nat \<Rightarrow> int \<times> int \<times> u8 list list" where
  "shannon_fill_from_dev_buffer sg_copy_from_buffer sdb dir arr arr_len =
    (if sdb_length sdb = 0 then (0, sdb_resid sdb, [])
     else if dir \<noteq> DMA_FROM_DEVICE then (DID_ERROR * 2 ^ 16, sdb_resid sdb, [])
     else let (act_len, ws) = sg_copy_from_buffer (sdb_sgl sdb) arr arr_len
          in (0, int (sdb_length sdb) - int act_len, ws))"

section \<open>Ending and queueing commands\<close>

text \<open>\<open>build\<close> stands for \<open>scsi_build_sense_buffer\<close> of the kernel: the bytes it stores from the start of the buffer.\<close>

definition shannon_build_sense_buffer :: "(nat \<Rightarrow> nat \<Rightarrow> nat \<Rightarrow> u8 list) \<Rightarrow> nat \<Rightarrow> nat \<Rightarrow> nat \<Rightarrow> u8 list" where
  "shannon_build_sense_buffer build key asc asq =
    (let stored = build key asc asq; zero = replicate SHANNON_SCSI_SENSE_LEN (0 :: u8)
     in stored @ drop (length stored) zero)"

record scsi_command =
  sc_sense :: "u8 list"
  sc_result :: nat
  sc_scribble :: "nat option"
  sc_target :: nat
  sc_done :: nat                \<comment> \<open>how often the command was handed back\<close>

text \<open>\<open>None\<close>: NULL is dereferenced. The sense buffer of the command keeps what lies behind the 32 bytes.\<close>

definition end_scsi_cmnd :: "scsi_command option \<Rightarrow> nat \<Rightarrow> u8 list option \<Rightarrow> scsi_command option" where
  "end_scsi_cmnd scsi_cmnd scsi_status sense_buffer =
    (let scsi_cmnd =
       (if scsi_status AND 0xff = STATUS_CODE_CHECK_CONDITION then
          (case (scsi_cmnd, sense_buffer) of
             (Some c, Some sb) \<Rightarrow> Some (c\<lparr>sc_sense := take SHANNON_SCSI_SENSE_LEN sb @ drop SHANNON_SCSI_SENSE_LEN (sc_sense c)\<rparr>)
           | _ \<Rightarrow> scsi_cmnd)
        else scsi_cmnd)
     in map_option (\<lambda>c. c\<lparr>sc_result := scsi_status, sc_scribble := None, sc_done := Suc (sc_done c)\<rparr>) scsi_cmnd)"

datatype scsi_event = AllocSbio nat | FreeSbio nat | ToCore nat

text \<open>\<open>sbio\<close> is what \<open>alloc_sbio\<close> returns; the core's handler takes the command over with it. The result, the command and
  the events; \<open>None\<close> if the allocation failed, which is not tested.\<close>

definition shannon_scsi_queuecommand_lck ::
    "(nat \<Rightarrow> nat \<Rightarrow> nat \<Rightarrow> u8 list) \<Rightarrow> nat option \<Rightarrow> (scsi_command \<Rightarrow> int \<times> scsi_command) \<Rightarrow> scsi_command \<Rightarrow>
     (int \<times> scsi_command \<times> scsi_event list) option" where
  "shannon_scsi_queuecommand_lck build alloc receive_scsi_cmd scsi_cmnd =
    (case alloc of None \<Rightarrow> None
     | Some sbio \<Rightarrow>
        let scsi_cmnd = scsi_cmnd\<lparr>sc_scribble := Some sbio\<rparr>
        in if sc_target scsi_cmnd \<noteq> 0 then
             (let sense_buffer = shannon_build_sense_buffer build SENSE_KEY_ILLEGAL_REQUEST ASC_LOGICAL_UNIT_NOT_READY 0
              in map_option (\<lambda>c. (0, c, [AllocSbio sbio, FreeSbio sbio]))
                   (end_scsi_cmnd (Some scsi_cmnd) CHECK_CONDITION_STATUS (Some sense_buffer)))
           else let (ret, c) = receive_scsi_cmd scsi_cmnd in Some (ret, c, [AllocSbio sbio, ToCore sbio]))"

section \<open>Geometry and configuration\<close>

text \<open>\<open>cylinders\<close> is an \<open>int\<close>.\<close>

definition shannon_scsi_biosparam :: "u64 \<Rightarrow> int \<times> int \<times> int \<times> int" where
  "shannon_scsi_biosparam capacity =
    (let heads = 64; sectors = 32; cylinders = sint (ucast (capacity div (heads * sectors)) :: u32)
     in if cylinders > 1024 then
          (let heads = 255; sectors = 63; cylinders = sint (ucast (capacity div (heads * sectors)) :: u32)
           in (0, uint heads, uint sectors, cylinders))
        else (0, uint heads, uint sectors, cylinders))"

record scsi_device_cfg =
  max_cmd_len :: nat
  cmd_per_lun :: nat
  queue_depth :: nat
  max_segment_size :: nat

definition shannon_scsi_slave_configure :: "scsi_device_cfg \<Rightarrow> int \<times> scsi_device_cfg" where
  "shannon_scsi_slave_configure sdp =
    (let sdp = (if max_cmd_len sdp \<noteq> 32 then sdp\<lparr>max_cmd_len := 32\<rparr> else sdp);
         sdp = (if cmd_per_lun sdp \<noteq> 0 then sdp\<lparr>queue_depth := cmd_per_lun sdp\<rparr> else sdp)
     in (0, sdp\<lparr>max_segment_size := 512 * 1024\<rparr>))"

section \<open>The host\<close>

record shannon_scsi_private =
  scsi_host :: "nat option"
  hp_sdev :: "nat option"
  hp_sectors :: "u64 \<times> u64"
  hp_ios :: "u64 \<times> u64"
  hp_ticks :: "u64 \<times> u64"
  hp_in_flight :: "u64 \<times> u64"
  scsi_host_no :: nat

datatype host_event = HostAlloc nat | HostPut nat | CoreProbe | CoreRemove "nat option" | AddHost nat | ScanHost nat | RemoveHost nat

text \<open>\<open>None\<close>: \<open>scsi_host_alloc\<close> returned NULL, which is not tested.\<close>

definition shannon_scsi_probe ::
    "(nat \<times> nat) option \<Rightarrow> (shannon_scsi_private \<Rightarrow> int \<times> shannon_scsi_private) \<Rightarrow>
     (int \<times> shannon_scsi_private \<times> host_event list) option" where
  "shannon_scsi_probe host_alloc shannon_probe =
    (case host_alloc of None \<Rightarrow> None
     | Some (shost, host_no) \<Rightarrow>
        let hostdata = \<lparr>scsi_host = Some shost, hp_sdev = None, hp_sectors = (0, 0), hp_ios = (0, 0), hp_ticks = (0, 0),
              hp_in_flight = (0, 0), scsi_host_no = host_no\<rparr>;
            (ret, hostdata) = shannon_probe hostdata
        in Some (ret, hostdata, [HostAlloc shost, CoreProbe]))"

definition shannon_scsi_remove :: "shannon_scsi_private \<Rightarrow> host_event list option" where
  "shannon_scsi_remove hostdata =
    map_option (\<lambda>shost. [CoreRemove (hp_sdev hostdata), HostPut shost]) (scsi_host hostdata)"

definition shannon_attach_scsi :: "(nat \<Rightarrow> int) \<Rightarrow> shannon_scsi_private \<Rightarrow> (int \<times> host_event list) option" where
  "shannon_attach_scsi scsi_add_host priv =
    map_option (\<lambda>shost. if scsi_add_host shost \<noteq> 0 then (- 1, []) else (0, [AddHost shost, ScanHost shost])) (scsi_host priv)"

definition shannon_detach_scsi :: "shannon_scsi_private \<Rightarrow> host_event list option" where
  "shannon_detach_scsi priv = map_option (\<lambda>shost. [RemoveHost shost]) (scsi_host priv)"

section \<open>Properties\<close>

definition total_length :: "fill_entry list \<Rightarrow> nat" where "total_length sgl = sum_list (map fe_length sgl)"

lemma fill_loop_inactive:
  "fill_loop arr n sgl False r a = Inr (r + total_length sgl, a, replicate (length sgl) [])"
  by (induction sgl arbitrary: r) (auto simp: total_length_def)

lemma fill_loop_active:
  assumes "\<forall>sg \<in> set sgl. fe_mapped sg" "r \<le> n" "n = length arr"
  shows "\<exists>ws. fill_loop arr n sgl True r r = Inr (r + total_length sgl, min n (r + total_length sgl), ws) \<and>
    concat ws = take (total_length sgl) (drop r arr) \<and> list_all2 (\<lambda>w sg. length w \<le> fe_length sg) ws sgl"
  using assms(1,2)
proof (induction sgl arbitrary: r)
  case Nil
  then show ?case by (simp add: total_length_def)
next
  case (Cons sg sgl)
  show ?case
  proof (cases "r + fe_length sg > n")
    case True
    let ?ws = "take (n - r) (drop r arr) # replicate (length sgl) []"
    have "fill_loop arr n (sg # sgl) True r r = Inr (r + total_length (sg # sgl), n, ?ws)"
      using True Cons.prems by (simp add: fill_loop_inactive total_length_def)
    moreover have "min n (r + total_length (sg # sgl)) = n" using True by (simp add: total_length_def)
    moreover have "concat ?ws = take (total_length (sg # sgl)) (drop r arr)"
      using True assms(3) by (simp add: total_length_def)
    moreover have "list_all2 (\<lambda>w sg. length w \<le> fe_length sg) (replicate (length sgl) []) sgl"
      by (simp add: list_all2_conv_all_nth)
    then have "list_all2 (\<lambda>w sg. length w \<le> fe_length sg) ?ws (sg # sgl)" using True by (auto simp: min_def)
    ultimately show ?thesis by metis
  next
    case False
    then obtain ws where ws: "fill_loop arr n sgl True (r + fe_length sg) (r + fe_length sg) =
          Inr (r + fe_length sg + total_length sgl, min n (r + fe_length sg + total_length sgl), ws)"
        "concat ws = take (total_length sgl) (drop (r + fe_length sg) arr)"
        "list_all2 (\<lambda>w sg. length w \<le> fe_length sg) ws sgl"
      using Cons.IH [of "r + fe_length sg"] Cons.prems by auto
    let ?w = "take (fe_length sg) (drop r arr)"
    have "fill_loop arr n (sg # sgl) True r r =
        Inr (r + total_length (sg # sgl), min n (r + total_length (sg # sgl)), ?w # ws)"
      using False Cons.prems ws(1) by (simp add: total_length_def add.assoc Let_def)
    moreover have "concat (?w # ws) = take (total_length (sg # sgl)) (drop r arr)"
      using ws(2) by (simp add: total_length_def take_add add.commute)
    moreover have "list_all2 (\<lambda>w sg. length w \<le> fe_length sg) (?w # ws) (sg # sgl)" using ws(3) by simp
    ultimately show ?thesis by blast
  qed
qed

text \<open>Filling a command's buffer from an array puts the array, cut to the room of the scatter list, into the
  entries in order without overrunning any of them, and sets the residue to the room left over (or lowers
  a residue already set by the bytes copied); a command that does not read from the device gets an error
  and no data.\<close>

theorem fill_buffer_scatters:
  assumes "sdb_length sdb \<noteq> 0" "sdb_sgl sdb = Some sgl" "\<forall>sg \<in> set sgl. fe_mapped sg" "arr_len = length arr"
  shows "if bidi \<or> dir = DMA_FROM_DEVICE
    then \<exists>ws. shannon_fill_from_dev_buffer_2_6_25 sdb bidi dir arr arr_len =
           (0, (if sdb_resid sdb \<noteq> 0 then sdb_resid sdb else int (total_length sgl)) - int (min arr_len (total_length sgl)), ws) \<and>
         concat ws = take (total_length sgl) arr \<and> list_all2 (\<lambda>w sg. length w \<le> fe_length sg) ws sgl
    else shannon_fill_from_dev_buffer_2_6_25 sdb bidi dir arr arr_len = (DID_ERROR * 2 ^ 16, sdb_resid sdb, [])"
  using fill_loop_active [of sgl 0 arr_len arr] assms by (auto simp: shannon_fill_from_dev_buffer_2_6_25_def lower_resid_def)

theorem fill_buffer_scatters_witness:
  "\<exists>ws. shannon_fill_from_dev_buffer_2_6_25
      \<lparr>sdb_length = 5, sdb_sgl = Some [\<lparr>fe_mapped = True, fe_length = 2\<rparr>, \<lparr>fe_mapped = True, fe_length = 3\<rparr>], sdb_resid = 0\<rparr>
      False DMA_FROM_DEVICE [1, 2, 3] 3 = (0, 2, ws) \<and> concat ws = [1, 2, 3]"
  using fill_buffer_scatters
    [of "\<lparr>sdb_length = 5, sdb_sgl = Some [\<lparr>fe_mapped = True, fe_length = 2\<rparr>, \<lparr>fe_mapped = True, fe_length = 3\<rparr>], sdb_resid = 0\<rparr>"
      "[\<lparr>fe_mapped = True, fe_length = 2\<rparr>, \<lparr>fe_mapped = True, fe_length = 3\<rparr>]" 3 "[1, 2, 3]" False DMA_FROM_DEVICE]
  by (auto simp: total_length_def)

text \<open>On a fresh command (no residue set, every page mapped, the recorded length that of the scatter list) all the variants
  agree, when \<open>sg_copy_from_buffer\<close> fills the entries in order and returns the bytes copied, as the loop it replaced does.\<close>

lemma fill_variants_agree:
  assumes sdb: "sdb_sgl sdb = Some sgl" "sdb_resid sdb = 0" "sdb_length sdb = total_length sgl" "0 < total_length sgl"
    and sgl: "\<forall>sg \<in> set sgl. fe_mapped sg" and n: "n = length arr"
    and copy: "\<And>ws. fill_loop arr n sgl True 0 0 = Inr (total_length sgl, min n (total_length sgl), ws) \<Longrightarrow>
       sg_copy_from_buffer (Some sgl) arr n = (min n (total_length sgl), ws)"
  shows "shannon_fill_from_dev_buffer_2_6_25 sdb False dir arr n = shannon_fill_from_dev_buffer sg_copy_from_buffer sdb dir arr n"
    and "shannon_fill_from_dev_buffer_2_6_26 old sg_copy_from_buffer sdb False dir arr n =
      shannon_fill_from_dev_buffer sg_copy_from_buffer sdb dir arr n"
    and "dir \<noteq> DMA_BIDIRECTIONAL \<Longrightarrow>
      shannon_fill_from_dev_buffer_2_6_24 \<lparr>request_bufflen = sdb_length sdb, request_buf = Sg_Table sgl, rc_resid = 0\<rparr> dir arr n =
      shannon_fill_from_dev_buffer sg_copy_from_buffer sdb dir arr n"
  using fill_loop_active [of sgl 0 n arr] copy sdb sgl n
  by (auto simp: shannon_fill_from_dev_buffer_2_6_25_def shannon_fill_from_dev_buffer_2_6_26_def
      shannon_fill_from_dev_buffer_2_6_24_def shannon_fill_from_dev_buffer_def lower_resid_def Let_def)

text \<open>A command for an absent target is handed back exactly once, with check condition and sense data, and its
  \<open>sbio\<close> is freed; a command for target 0 goes to the core with its \<open>sbio\<close>, which is not freed here.\<close>

lemma queuecommand_fate:
  assumes "shannon_scsi_queuecommand_lck build (Some sbio) receive c = Some (ret, c', ev)" "length (build 5 4 0) \<le> 32"
  shows "if sc_target c = 0 then ev = [AllocSbio sbio, ToCore sbio] \<and> (ret, c') = receive (c\<lparr>sc_scribble := Some sbio\<rparr>)
    else ret = 0 \<and> sc_done c' = Suc (sc_done c) \<and> sc_result c' = 0x08000002 \<and> sc_scribble c' = None \<and>
      take (length (build 5 4 0)) (sc_sense c') = build 5 4 0 \<and> ev = [AllocSbio sbio, FreeSbio sbio]"
proof (cases "sc_target c = 0")
  case True
  then show ?thesis using assms by (auto simp: shannon_scsi_queuecommand_lck_def Let_def split: prod.splits)
next
  case False
  have cc: "CHECK_CONDITION_STATUS = 0x08000002"
    by (simp add: CHECK_CONDITION_STATUS_def SHN_DRIVER_SENSE_def STATUS_CODE_CHECK_CONDITION_def)
  show ?thesis
    using assms False
    by (auto simp: shannon_scsi_queuecommand_lck_def Let_def end_scsi_cmnd_def cc STATUS_CODE_CHECK_CONDITION_def
        shannon_build_sense_buffer_def SHANNON_SCSI_SENSE_LEN_def SENSE_KEY_ILLEGAL_REQUEST_def ASC_LOGICAL_UNIT_NOT_READY_def)
qed

text \<open>The geometry never exceeds a capacity below 2 to the 42.\<close>

lemma biosparam_bound:
  assumes "unat capacity < 2 ^ 42" "shannon_scsi_biosparam capacity = (r, h, s, c)"
  shows "r = 0 \<and> 0 \<le> c \<and> h * s * c \<le> uint capacity"
proof -
  have cyl: "sint (ucast (capacity div w) :: u32) = int (unat capacity div unat w)" if "2048 \<le> unat w" for w :: u64
  proof -
    have "unat capacity div unat w \<le> unat capacity div 2048" using that by (intro div_le_mono2) auto
    also have "\<dots> < 2 ^ 31" using assms(1) by (simp add: div_less_iff_less_mult)
    finally have "unat (capacity div w) < 2 ^ 31" by (simp add: unat_div)
    moreover have "(ucast (capacity div w) :: u32) = of_nat (unat (capacity div w))" by simp
    ultimately show ?thesis by (simp only: signed_of_nat) (simp add: signed_take_bit_int_eq_self unat_div)
  qed
  have le: "int n * int (unat capacity div n) \<le> uint capacity" for n
    by (metis of_nat_mult times_div_less_eq_dividend uint_nat zle_int)
  show ?thesis
    using assms(2) cyl [of 2048] cyl [of 16065] le [of 2048] le [of 16065]
    by (auto simp: shannon_scsi_biosparam_def Let_def split: if_splits)
qed

text \<open>A failing probe leaves the host allocated.\<close>

lemma failed_probe_keeps_host:
  assumes "shannon_scsi_probe (Some (shost, no)) probe = Some (ret, hostdata, ev)"
  shows "HostPut shost \<notin> set ev"
  using assms by (auto simp: shannon_scsi_probe_def Let_def split: prod.splits)

end
