(* ===== verification/Memblock.thy ===== *)
theory Memblock
  imports Kcore
begin

text \<open>
  The mapping table's memory blocks (\<^verbatim>\<open>shannon_memblock.h\<close>) and the cache lines of the prefetcher
  (\<^verbatim>\<open>shannon_prefetch.h\<close>): the striping of block addresses over devices, and the counter lock of a memory
  block with shared and exclusive holders, as a transition system of threads that interleave at the
  atomic operations.
\<close>

section \<open>Striping\<close>

text \<open>The fields of the disk the macros read. Its declaration is not part of the sources; fields and addresses are natural
  numbers here, and the product the macro stores in an \<open>u32\<close> keeps that width.\<close>

record shannon_disk =
  strip_size :: nat
  strip_size_shift :: nat
  sdev_count :: nat
  entries_per_memblock :: nat
  entries_per_memblock_shift :: nat

text \<open>\<open>find_first_bit\<close> on the 32 bits of an \<open>u32\<close>.\<close>

definition find_first_bit32 :: "u32 \<Rightarrow> nat" where
  "find_first_bit32 w = length (takeWhile (\<lambda>i. \<not> bit w i) [0 ..< 32])"

definition get_slot_from_lpmt :: "shannon_disk \<Rightarrow> nat \<Rightarrow> nat" where
  "get_slot_from_lpmt sdisk lba =
    (let strip = of_nat (strip_size sdisk) * of_nat (sdev_count sdisk) :: u32
     in if sdev_count sdisk = 1 then lba
        else if strip AND (strip - 1) = 0
        then push_bit (strip_size_shift sdisk) (drop_bit (find_first_bit32 strip) lba) + (lba AND (strip_size sdisk - 1))
        else push_bit (strip_size_shift sdisk) (lba div (strip_size sdisk * sdev_count sdisk)) + (lba AND (strip_size sdisk - 1)))"

definition get_memblock_index_from_slot :: "shannon_disk \<Rightarrow> nat \<Rightarrow> nat" where
  "get_memblock_index_from_slot sdisk slot = drop_bit (entries_per_memblock_shift sdisk) slot"

definition get_memblock_index_from_lba :: "shannon_disk \<Rightarrow> nat \<Rightarrow> nat" where
  "get_memblock_index_from_lba sdisk lba = get_memblock_index_from_slot sdisk (get_slot_from_lpmt sdisk lba)"

definition get_memblock_index_first_lba :: "shannon_disk \<Rightarrow> nat \<Rightarrow> nat" where
  "get_memblock_index_first_lba sdisk index = index * entries_per_memblock sdisk * sdev_count sdisk"

definition get_memblock_index_last_lba :: "shannon_disk \<Rightarrow> nat \<Rightarrow> nat" where
  "get_memblock_index_last_lba sdisk index = (index + 1) * entries_per_memblock sdisk * sdev_count sdisk - 1"

definition get_sdev_id_from_lba :: "shannon_disk \<Rightarrow> nat \<Rightarrow> nat" where
  "get_sdev_id_from_lba sdisk lba = lba div strip_size sdisk mod sdev_count sdisk"

definition get_lba_from_lpmt_slot :: "nat \<Rightarrow> shannon_disk \<Rightarrow> nat \<Rightarrow> nat" where
  "get_lba_from_lpmt_slot sdev_id sdisk slot =
    drop_bit (strip_size_shift sdisk) slot * (strip_size sdisk * sdev_count sdisk) +
    (slot AND (strip_size sdisk - 1)) + sdev_id * strip_size sdisk"

section \<open>Prefetch cache lines\<close>

definition get_cache_line_from_lba :: "nat \<Rightarrow> nat \<Rightarrow> nat \<Rightarrow> nat" where
  "get_cache_line_from_lba lba_per_line cache_lines lba = lba div lba_per_line mod cache_lines"

definition lba_rounddown_cache_line :: "nat \<Rightarrow> nat \<Rightarrow> nat" where
  "lba_rounddown_cache_line lba_per_line lba = lba div lba_per_line * lba_per_line"

definition lba_roundup_cache_line :: "nat \<Rightarrow> nat \<Rightarrow> int" where
  "lba_roundup_cache_line lba_per_line lba = int (lba div lba_per_line * (lba_per_line + 1)) - 1"

section \<open>The lock of a memory block\<close>

definition smb_lock :: "u32 \<Rightarrow> u32 \<times> int" where "smb_lock v = shannon_atomic_inc_return v"
definition smb_unlock :: "u32 \<Rightarrow> u32 \<times> int" where "smb_unlock v = shannon_atomic_dec_return v"
definition smb_lock_by_cnt :: "u32 \<Rightarrow> u32 \<Rightarrow> u32 \<times> int" where "smb_lock_by_cnt v cnt = shannon_atomic_add_return cnt v"
definition smb_unlock_by_cnt :: "u32 \<Rightarrow> u32 \<Rightarrow> u32 \<times> int" where "smb_unlock_by_cnt v cnt = shannon_atomic_sub_return cnt v"

text \<open>Where a thread stands: outside; holding the lock shared; spinning in \<open>smb_simultaneously_lock\<close>; in the loop of
  \<open>smb_simultaneously_lock_retry\<close> with its counter; between the subtraction and the addition of a failed
  \<open>smb_exclusively_trylock\<close>; holding it exclusively.\<close>

datatype smb_pc = Idle | Shared | Spinning | Retrying nat | Backing | Exclusive

text \<open>One atomic operation of a thread: the new counter and the next place.\<close>

definition smb_simultaneously_lock :: "u32 \<Rightarrow> u32 \<times> smb_pc" where
  "smb_simultaneously_lock v = (let (v', r) = smb_lock v in (v', if r < 0 then Spinning else Shared))"

definition smb_spin :: "u32 \<Rightarrow> u32 \<times> smb_pc" where
  "smb_spin v = (v, if shannon_atomic_read v < 0 then Spinning else Shared)"

definition smb_lock_retry_start :: "int \<Rightarrow> u32 \<Rightarrow> u32 \<times> smb_pc" where
  "smb_lock_retry_start retry v = (fst (smb_lock v), Retrying (nat retry))"

text \<open>A round of the loop, or its end: with the counter at 0 the lock is given back.\<close>

definition smb_lock_retry_round :: "nat \<Rightarrow> u32 \<Rightarrow> u32 \<times> smb_pc" where
  "smb_lock_retry_round n v =
    (if n > 0 then (if shannon_atomic_read v < 0 then (v, Retrying (n - 1)) else (v, Shared))
     else (fst (smb_unlock v), Idle))"

definition smb_simultaneously_unlock :: "u32 \<Rightarrow> u32 \<times> smb_pc" where
  "smb_simultaneously_unlock v = (fst (smb_unlock v), Idle)"

definition smb_exclusively_trylock :: "u32 \<Rightarrow> u32 \<times> smb_pc" where
  "smb_exclusively_trylock v =
    (let (v', r) = smb_unlock_by_cnt v 0xffff in (v', if r = 0 - 0xffff + 1 then Exclusive else Backing))"

definition smb_trylock_back :: "u32 \<Rightarrow> u32 \<times> smb_pc" where
  "smb_trylock_back v = (fst (smb_lock_by_cnt v 0xffff), Shared)"

definition smb_exclusively_unlock :: "u32 \<Rightarrow> u32 \<times> smb_pc" where
  "smb_exclusively_unlock v = (fst (smb_lock_by_cnt v 0xffff), Shared)"

record smb_sys =
  lk :: u32
  th :: "nat \<Rightarrow> smb_pc"

inductive smb_op :: "smb_pc \<Rightarrow> u32 \<Rightarrow> u32 \<times> smb_pc \<Rightarrow> bool" where
  op_lock: "smb_op Idle v (smb_simultaneously_lock v)"
| op_spin: "smb_op Spinning v (smb_spin v)"
| op_retry: "smb_op Idle v (smb_lock_retry_start retry v)"
| op_round: "smb_op (Retrying n) v (smb_lock_retry_round n v)"
| op_unlock: "smb_op Shared v (smb_simultaneously_unlock v)"
| op_try: "smb_op Shared v (smb_exclusively_trylock v)"
| op_back: "smb_op Backing v (smb_trylock_back v)"
| op_unlock_excl: "smb_op Exclusive v (smb_exclusively_unlock v)"

inductive smb_step :: "nat \<Rightarrow> smb_sys \<Rightarrow> smb_sys \<Rightarrow> bool" for N where
  step: "t < N \<Longrightarrow> smb_op (th s t) (lk s) (v, p) \<Longrightarrow> smb_step N s (s\<lparr>lk := v, th := (th s)(t := p)\<rparr>)"

definition smb_init :: smb_sys where "smb_init = \<lparr>lk = 0, th = (\<lambda>t. Idle)\<rparr>"

definition smb_reachable :: "nat \<Rightarrow> smb_sys \<Rightarrow> bool" where
  "smb_reachable N s \<longleftrightarrow> (smb_step N)\<^sup>*\<^sup>* smb_init s"

inductive_cases smb_opE: "smb_op p v r"

section \<open>Striping: properties\<close>

definition disk_ok :: "shannon_disk \<Rightarrow> bool" where
  "disk_ok d \<longleftrightarrow> strip_size d = 2 ^ strip_size_shift d \<and> 0 < sdev_count d \<and> strip_size d * sdev_count d < 2 ^ 32 \<and>
     entries_per_memblock d = 2 ^ entries_per_memblock_shift d \<and> strip_size_shift d \<le> entries_per_memblock_shift d"

lemma and_pow2_minus: "(n AND (2 ^ k - 1) :: nat) = n mod 2 ^ k"
  by (metis mask_eq_exp_minus_1 take_bit_eq_mask take_bit_eq_mod)

text \<open>The position of the only bit of a power of two.\<close>

lemma find_first_bit32_pow2:
  assumes "k < 32"
  shows "find_first_bit32 (2 ^ k) = k"
proof -
  have "[0 ..< 32] = [0 ..< k] @ [k ..< 32]" using assms upt_add_eq_append [of 0 k "32 - k"] by simp
  moreover have "takeWhile (\<lambda>i. \<not> bit (2 ^ k :: u32) i) ([0 ..< k] @ [k ..< 32]) = [0 ..< k]"
  proof -
    have "\<forall>i \<in> set [0 ..< k]. \<not> bit (2 ^ k :: u32) i" by (auto simp: bit_exp_iff)
    moreover have "bit (2 ^ k :: u32) k" using assms by (simp add: bit_exp_iff)
    moreover have "[k ..< 32] = k # [Suc k ..< 32]" using assms by (simp add: upt_conv_Cons)
    ultimately show ?thesis by (metis (no_types, lifting) append_Nil2 takeWhile.simps(2) takeWhile_append2)
  qed
  ultimately show ?thesis by (simp add: find_first_bit32_def)
qed

lemma nat_pow2_test:
  fixes n :: nat
  assumes "0 < n" "n AND (n - 1) = 0"
  shows "\<exists>k. n = 2 ^ k"
proof -
  obtain k where k: "2 ^ k \<le> n" "n < 2 ^ (k + 1)" using ex_power_ivl1 [of 2 n] assms(1) by auto
  have "n = 2 ^ k"
  proof (rule ccontr)
    assume "n \<noteq> 2 ^ k"
    then have "n div 2 ^ k = 1" "(n - 1) div 2 ^ k = 1" using k by (auto intro!: div_nat_eqI)
    then have "bit n k" "bit (n - 1) k" by (simp_all add: bit_iff_odd)
    then have "bit (n AND (n - 1)) k" by (simp only: bit_and_iff)
    then show False using assms(2) by simp
  qed
  then show ?thesis by blast
qed

lemma word_pow2_test:
  assumes "0 < n" "n < 2 ^ 32" "(of_nat n AND (of_nat n - 1) :: u32) = 0"
  shows "\<exists>k < 32. n = 2 ^ k"
proof -
  have u: "unat (of_nat n :: u32) = n" using assms(2) by (simp add: unsigned_of_nat take_bit_nat_eq_self)
  then have "(of_nat n :: u32) \<noteq> 0" using assms(1) by (metis less_irrefl unsigned_0)
  then have "unat (of_nat n - 1 :: u32) = n - 1" using u by (simp add: unat_minus_one)
  then have "n AND (n - 1) = unat (of_nat n AND (of_nat n - 1) :: u32)" using u by (simp add: unsigned_and_eq)
  then have "n AND (n - 1) = 0" using assms(3) by simp
  then obtain k where k: "n = 2 ^ k" using nat_pow2_test assms(1) by blast
  then have "k < 32" using assms(2) by (metis one_less_numeral_iff power_strict_increasing_iff semiring_norm(76))
  then show ?thesis using k by blast
qed

text \<open>All three branches of the slot macro compute the same.\<close>

lemma get_slot_eq:
  assumes "disk_ok d"
  shows "get_slot_from_lpmt d lba = lba div (strip_size d * sdev_count d) * strip_size d + lba mod strip_size d"
proof -
  let ?S = "strip_size d" and ?c = "sdev_count d"
  have S: "?S = 2 ^ strip_size_shift d" "0 < ?S * ?c" "?S * ?c < 2 ^ 32" using assms by (auto simp: disk_ok_def)
  have low: "(lba AND (?S - 1)) = lba mod ?S" using S(1) and_pow2_minus by metis
  have push: "push_bit (strip_size_shift d) x = x * ?S" for x :: nat using S(1) by (simp add: push_bit_eq_mult)
  show ?thesis
  proof (cases "?c = 1")
    case True
    then show ?thesis by (simp add: get_slot_from_lpmt_def)
  next
    case False
    have w: "of_nat ?S * of_nat ?c = (of_nat (?S * ?c) :: u32)" by simp
    show ?thesis
    proof (cases "(of_nat (?S * ?c) AND (of_nat (?S * ?c) - 1) :: u32) = 0")
      case True
      then obtain k where k: "k < 32" "?S * ?c = 2 ^ k" using word_pow2_test [OF S(2,3)] by blast
      then have "find_first_bit32 (of_nat (?S * ?c)) = k" using find_first_bit32_pow2 by (simp del: of_nat_mult)
      then show ?thesis
        using False True k(2) unfolding get_slot_from_lpmt_def w Let_def by (simp only: low push drop_bit_eq_div if_False if_True refl)
    next
      case other: False
      then show ?thesis using False unfolding get_slot_from_lpmt_def w Let_def by (simp only: low push if_False)
    qed
  qed
qed

text \<open>The macro computes in \<open>u64\<close>: no value it goes through exceeds the address, so nothing wraps.\<close>

lemma slot_no_wrap:
  assumes "disk_ok d" "lba < 2 ^ 64"
  shows "get_slot_from_lpmt d lba \<le> lba"
    "push_bit (strip_size_shift d) (lba div (strip_size d * sdev_count d)) \<le> lba"
    "unat (of_nat (get_slot_from_lpmt d lba) :: u64) = get_slot_from_lpmt d lba"
proof -
  let ?S = "strip_size d"
  have S: "?S = 2 ^ strip_size_shift d" "0 < sdev_count d" using assms(1) by (auto simp: disk_ok_def)
  have "lba div (?S * sdev_count d) \<le> lba div ?S" by (simp add: div_mult2_eq div_le_dividend)
  then have le: "lba div (?S * sdev_count d) * ?S \<le> lba div ?S * ?S" by (rule mult_le_mono1)
  have "lba div ?S * ?S + lba mod ?S = lba" by (rule div_mult_mod_eq)
  with le show a: "get_slot_from_lpmt d lba \<le> lba" unfolding get_slot_eq [OF assms(1)] by linarith
  have "push_bit (strip_size_shift d) (lba div (?S * sdev_count d)) = lba div (?S * sdev_count d) * ?S"
    by (simp add: push_bit_eq_mult S(1))
  then show "push_bit (strip_size_shift d) (lba div (?S * sdev_count d)) \<le> lba"
    using le div_times_less_eq_dividend [of lba ?S] by linarith
  show "unat (of_nat (get_slot_from_lpmt d lba) :: u64) = get_slot_from_lpmt d lba"
    using a assms(2) by (intro unat_of_nat_small) linarith
qed

text \<open>C19 (roundtrip). Striping is a bijection: a block address is determined by the device and the slot it is mapped to,
  every slot of every device is the image of exactly the address the inverse macro computes, and a memory
  block holds exactly the addresses between the first and the last that its macros name. This holds for
  one device, for a power of two and for any other number of devices, whichever branch is taken.\<close>

theorem stripe_roundtrip:
  assumes "disk_ok d"
  shows "get_lba_from_lpmt_slot (get_sdev_id_from_lba d lba) d (get_slot_from_lpmt d lba) = lba \<and>
    get_sdev_id_from_lba d lba < sdev_count d \<and>
    (\<forall>i slot. i < sdev_count d \<longrightarrow> get_slot_from_lpmt d (get_lba_from_lpmt_slot i d slot) = slot \<and>
       get_sdev_id_from_lba d (get_lba_from_lpmt_slot i d slot) = i) \<and>
    (\<forall>index. get_memblock_index_from_lba d lba = index \<longleftrightarrow>
       get_memblock_index_first_lba d index \<le> lba \<and> lba \<le> get_memblock_index_last_lba d index)"
proof (intro conjI allI impI)
  let ?S = "strip_size d" and ?c = "sdev_count d" and ?E = "entries_per_memblock d"
  have S: "?S = 2 ^ strip_size_shift d" "0 < ?S" "0 < ?c" using assms by (auto simp: disk_ok_def)
  have low: "(x AND (?S - 1)) = x mod ?S" for x using S(1) and_pow2_minus by metis
  have high: "drop_bit (strip_size_shift d) x = x div ?S" for x :: nat using S(1) by (simp add: drop_bit_eq_div)
  note slot = get_slot_eq [OF assms]
  have split: "slot div ?S = lba div (?S * ?c)" "slot mod ?S = lba mod ?S"
    if "slot = lba div (?S * ?c) * ?S + lba mod ?S" for slot lba using that S(2) by simp_all
  have lba3: "lba = lba div (?S * ?c) * (?S * ?c) + (lba div ?S mod ?c) * ?S + lba mod ?S" for lba
  proof -
    have "lba div ?S = lba div ?S div ?c * ?c + lba div ?S mod ?c" by simp
    then have "lba = (lba div ?S div ?c * ?c + lba div ?S mod ?c) * ?S + lba mod ?S" by (metis div_mult_mod_eq)
    moreover have "q * (?S * ?c) + i * ?S + r = (q * ?c + i) * ?S + r" for q i r :: nat by (simp add: algebra_simps)
    ultimately show ?thesis by (metis div_mult2_eq)
  qed
  show "get_lba_from_lpmt_slot (get_sdev_id_from_lba d lba) d (get_slot_from_lpmt d lba) = lba"
    unfolding get_lba_from_lpmt_slot_def low high get_sdev_id_from_lba_def split [OF slot] using lba3 [of lba] by linarith
  show "get_sdev_id_from_lba d lba < ?c" using S(3) by (simp add: get_sdev_id_from_lba_def)
  fix i slot assume i: "i < ?c"
  let ?l = "get_lba_from_lpmt_slot i d slot"
  have l: "?l = (slot div ?S * ?c + i) * ?S + slot mod ?S"
    unfolding get_lba_from_lpmt_slot_def low high by (simp add: algebra_simps)
  then have "?l div ?S = slot div ?S * ?c + i" "?l mod ?S = slot mod ?S" using S(2) by simp_all
  moreover from this have "?l div (?S * ?c) = slot div ?S" using i by (simp add: div_mult2_eq)
  ultimately show "get_slot_from_lpmt d ?l = slot" "get_sdev_id_from_lba d ?l = i"
    using i slot by (simp_all add: get_sdev_id_from_lba_def)
next
  fix index
  let ?S = "strip_size d" and ?c = "sdev_count d" and ?E = "entries_per_memblock d"
  have ok: "?S = 2 ^ strip_size_shift d" "?E = 2 ^ entries_per_memblock_shift d"
      "strip_size_shift d \<le> entries_per_memblock_shift d" "0 < ?c"
    using assms by (simp_all add: disk_ok_def)
  define k where "k = (2 :: nat) ^ (entries_per_memblock_shift d - strip_size_shift d)"
  have k: "?E = ?S * k" "0 < k" "0 < ?S" "0 < ?c" using ok by (simp_all add: k_def flip: power_add)
  have "get_slot_from_lpmt d lba div ?E = get_slot_from_lpmt d lba div ?S div k" using k(1) by (simp add: div_mult2_eq)
  also have "\<dots> = lba div (?S * ?c) div k" using k(3) by (simp add: get_slot_eq [OF assms])
  also have "\<dots> = lba div (?E * ?c)" using k(1) by (simp add: div_mult2_eq [symmetric] ac_simps)
  finally have idx: "get_memblock_index_from_lba d lba = lba div (?E * ?c)"
    using assms by (simp add: get_memblock_index_from_lba_def get_memblock_index_from_slot_def drop_bit_eq_div disk_ok_def)
  have E: "0 < ?E * ?c" using k by simp
  have "lba div (?E * ?c) = index \<longleftrightarrow> index * (?E * ?c) \<le> lba \<and> lba < Suc index * (?E * ?c)"
    using div_nat_eqI [of "?E * ?c" index lba] dividend_less_times_div [OF E, of lba] times_div_less_eq_dividend [of "?E * ?c" lba]
    by (auto simp: mult.commute)
  also have "\<dots> \<longleftrightarrow> get_memblock_index_first_lba d index \<le> lba \<and> lba \<le> get_memblock_index_last_lba d index"
  proof -
    have "get_memblock_index_first_lba d index = index * (?E * ?c)" "get_memblock_index_last_lba d index = Suc index * (?E * ?c) - 1"
      by (simp_all only: get_memblock_index_first_lba_def get_memblock_index_last_lba_def mult.assoc Suc_eq_plus1)
    moreover have "0 < Suc index * (?E * ?c)" using E by simp
    ultimately show ?thesis by (metis Suc_pred' less_Suc_eq_le)
  qed
  finally show "get_memblock_index_from_lba d lba = index \<longleftrightarrow>
      get_memblock_index_first_lba d index \<le> lba \<and> lba \<le> get_memblock_index_last_lba d index"
    by (simp only: idx)
qed

theorem stripe_roundtrip_witness:
  "let d = \<lparr>strip_size = 8, strip_size_shift = 3, sdev_count = 3, entries_per_memblock = 16, entries_per_memblock_shift = 4\<rparr> in
   disk_ok d \<and> get_lba_from_lpmt_slot (get_sdev_id_from_lba d 100) d (get_slot_from_lpmt d 100) = 100"
proof -
  let ?d = "\<lparr>strip_size = 8, strip_size_shift = 3, sdev_count = 3, entries_per_memblock = 16, entries_per_memblock_shift = 4\<rparr>"
  have "disk_ok ?d" by (simp add: disk_ok_def)
  then show ?thesis using stripe_roundtrip [of ?d 100] by (simp add: Let_def)
qed

text \<open>Rounding up to the end of a cache line multiplies with the line size plus one instead of adding one line: the
  result can lie before the address.\<close>

lemma roundup_below_lba: "lba_roundup_cache_line 32 40 = 32"
  by (simp add: lba_roundup_cache_line_def)

section \<open>The lock: invariant\<close>

text \<open>What a thread contributes to the counter.\<close>

fun weight :: "smb_pc \<Rightarrow> int" where
  "weight Idle = 0"
| "weight Backing = 1 - 0xffff"
| "weight Exclusive = 1 - 0xffff"
| "weight p = 1"

definition total_weight :: "nat \<Rightarrow> (nat \<Rightarrow> smb_pc) \<Rightarrow> int" where
  "total_weight N p = (\<Sum>t < N. weight (p t))"

definition smb_inv :: "nat \<Rightarrow> smb_sys \<Rightarrow> bool" where
  "smb_inv N s \<longleftrightarrow> lk s = word_of_int (total_weight N (th s)) \<and>
     (\<forall>t < N. th s t = Exclusive \<longrightarrow> (\<forall>u < N. u \<noteq> t \<longrightarrow> th s u \<notin> {Shared, Backing, Exclusive}))"

lemma weight_bounds: "1 - 0xffff \<le> weight p" "weight p \<le> 1"
  by (cases p; simp)+

lemma total_weight_upd:
  "t < N \<Longrightarrow> total_weight N (p(t := q)) = total_weight N p - weight (p t) + weight q"
  by (simp add: total_weight_def sum.remove [of "{..< N}" t])

lemma total_weight_bounds: "- 0xffff * int N \<le> total_weight N p" "total_weight N p \<le> int N"
proof -
  have "(\<Sum>t < N. - 0xffff) \<le> (\<Sum>t < N. weight (p t))" by (rule sum_mono) (use weight_bounds in \<open>smt (verit)\<close>)
  then show "- 0xffff * int N \<le> total_weight N p" by (simp add: total_weight_def)
  have "(\<Sum>t < N. weight (p t)) \<le> (\<Sum>t < N. 1)" by (rule sum_mono) (rule weight_bounds)
  then show "total_weight N p \<le> int N" by (simp add: total_weight_def)
qed

text \<open>With a thread in the exclusive part the counter is negative.\<close>

lemma negative_weight:
  assumes "t < N" "p t \<in> {Backing, Exclusive}" "N < 0x8000"
  shows "total_weight N p < 0"
proof -
  have "total_weight N p = weight (p t) + (\<Sum>u \<in> {..< N} - {t}. weight (p u))"
    using assms(1) by (simp add: total_weight_def sum.remove)
  moreover have "(\<Sum>u \<in> {..< N} - {t}. weight (p u)) \<le> (\<Sum>u \<in> {..< N} - {t}. 1)" by (rule sum_mono) (rule weight_bounds)
  moreover have "(\<Sum>u \<in> {..< N} - {t}. 1 :: int) = int N - 1" using assms(1) by (simp add: of_nat_diff)
  moreover have "weight (p t) = 1 - 0xffff" using assms(2) by auto
  ultimately show ?thesis using assms(3) by linarith
qed

text \<open>If the counter has the value a lone exclusive thread gives it, the others are idle.\<close>

lemma lone_weight:
  assumes "t < N" "total_weight N p = weight (p t)" "N < 0x8000" "u < N" "u \<noteq> t"
  shows "p u = Idle"
proof -
  let ?others = "{..< N} - {t}"
  have sum0: "(\<Sum>u \<in> ?others. weight (p u)) = 0"
    using assms(1,2) by (simp add: total_weight_def sum.remove)
  have nonneg: "0 \<le> weight (p v)" if "v \<in> ?others" for v
  proof (rule ccontr)
    assume "\<not> 0 \<le> weight (p v)"
    then have "weight (p v) = 1 - 0xffff" by (cases "p v") auto
    moreover have "(\<Sum>u \<in> ?others. weight (p u)) = weight (p v) + (\<Sum>u \<in> ?others - {v}. weight (p u))"
      using that by (simp add: sum.remove)
    moreover have "(\<Sum>u \<in> ?others - {v}. weight (p u)) \<le> (\<Sum>u \<in> ?others - {v}. 1)" by (rule sum_mono) (rule weight_bounds)
    moreover have "(\<Sum>u \<in> ?others - {v}. 1 :: int) \<le> int N" by (simp add: card_Diff_singleton_if)
    ultimately show False using sum0 assms(3) by linarith
  qed
  then have "weight (p u) = 0" using sum0 assms(4,5) sum_nonneg_eq_0_iff [of ?others "\<lambda>u. weight (p u)"] by auto
  then show ?thesis by (cases "p u") auto
qed

lemma sint_total:
  assumes "N < 0x8000"
  shows "sint (word_of_int (total_weight N p) :: u32) = total_weight N p"
proof -
  have "- 2147483648 \<le> total_weight N p" "total_weight N p < 2147483648"
    using total_weight_bounds [of N p] assms by auto
  then show ?thesis by (simp add: signed_of_int signed_take_bit_int_eq_self)
qed

lemmas smb_op_defs = smb_simultaneously_lock_def smb_spin_def smb_lock_retry_start_def smb_lock_retry_round_def
  smb_simultaneously_unlock_def smb_exclusively_trylock_def smb_trylock_back_def smb_exclusively_unlock_def
  smb_lock_def smb_unlock_def smb_lock_by_cnt_def smb_unlock_by_cnt_def shannon_atomic_inc_return_def
  shannon_atomic_dec_return_def shannon_atomic_add_return_def shannon_atomic_sub_return_def shannon_atomic_read_def

text \<open>Every operation changes the counter by the difference of the weights.\<close>

lemma smb_op_counter: "smb_op p v (v', q) \<Longrightarrow> v' = v + word_of_int (weight q - weight p)"
  by (erule smb_opE) (auto simp: smb_op_defs Let_def split: if_splits)

text \<open>A thread enters the shared part from outside only when the counter is not negative, and the exclusive part
  only when the counter then has the weight of one exclusive thread.\<close>

lemma smb_op_enter:
  assumes "smb_op p v (v', q)"
  shows "q = Shared \<Longrightarrow> p \<in> {Idle, Spinning} \<or> (\<exists>n. p = Retrying n) \<Longrightarrow> 0 \<le> sint v'"
    and "q \<in> {Backing, Exclusive} \<Longrightarrow> p = Shared" and "q = Exclusive \<Longrightarrow> sint v' = 1 - 0xffff"
    and "q = Shared \<Longrightarrow> p \<in> {Idle, Spinning, Backing, Exclusive} \<or> (\<exists>n. p = Retrying n)"
  using assms by (auto simp: smb_op_defs Let_def elim!: smb_opE split: if_splits)

lemma smb_step_inv:
  assumes "N < 0x8000" "smb_inv N s" "smb_step N s s'"
  shows "smb_inv N s'"
  using assms(3)
proof cases
  case (step t v q)
  let ?p = "(th s)(t := q)"
  have w: "total_weight N ?p = total_weight N (th s) - weight (th s t) + weight q" using total_weight_upd step(2) by blast
  have v: "v = word_of_int (total_weight N ?p)"
    using smb_op_counter [OF step(3)] assms(2) by (simp add: smb_inv_def w algebra_simps)
  then have sv: "sint v = total_weight N ?p" using sint_total [OF assms(1)] by simp
  have "?p u \<notin> {Shared, Backing, Exclusive}" if x: "x < N" "?p x = Exclusive" and u: "u < N" "u \<noteq> x" for x u
  proof (cases "x = t")
    case True
    then have "total_weight N ?p = weight (?p t)" using smb_op_enter(3) [OF step(3)] x(2) sv by simp
    then have "?p u = Idle" using lone_weight [OF step(2) _ assms(1) u(1)] u True by blast
    then show ?thesis by simp
  next
    case False
    then have old: "th s x = Exclusive" "\<forall>u < N. u \<noteq> x \<longrightarrow> th s u \<notin> {Shared, Backing, Exclusive}"
      using x assms(2) by (auto simp: smb_inv_def)
    have neg: "sint v < 0" using negative_weight [OF x(1), of ?p] x(2) assms(1) sv by simp
    have "th s t \<notin> {Shared, Backing, Exclusive}" using old(2) step(2) False by blast
    then have "q \<notin> {Shared, Backing, Exclusive}" using smb_op_enter [OF step(3)] neg by auto
    then show ?thesis using old(2) u by (cases "u = t") auto
  qed
  then show ?thesis using v step(1) by (auto simp: smb_inv_def)
qed

lemma smb_reachable_inv:
  assumes "N < 0x8000" "smb_reachable N s"
  shows "smb_inv N s"
  using assms(2) unfolding smb_reachable_def
proof (induction rule: rtranclp_induct)
  case base
  then show ?case by (simp add: smb_inv_def smb_init_def total_weight_def)
qed (use smb_step_inv assms(1) in blast)

text \<open>C16 (invariant). The counter lock of a memory block excludes: in every interleaving of fewer than 32768 threads, while a
  thread holds the lock exclusively no other thread holds it in any way, and at most one holds it
  exclusively. It does not lock out either: whenever no thread is in the exclusive part, the next look
  at the counter lets a spinning thread in.\<close>

theorem smb_lock_excludes:
  assumes "N < 0x8000" "smb_reachable N s"
  shows "(\<forall>t < N. th s t = Exclusive \<longrightarrow> (\<forall>u < N. u \<noteq> t \<longrightarrow> th s u \<notin> {Shared, Exclusive})) \<and>
    ((\<forall>t < N. th s t \<notin> {Backing, Exclusive}) \<longrightarrow> smb_spin (lk s) = (lk s, Shared))"
proof (intro conjI impI)
  have inv: "smb_inv N s" by (rule smb_reachable_inv [OF assms])
  then show "\<forall>t < N. th s t = Exclusive \<longrightarrow> (\<forall>u < N. u \<noteq> t \<longrightarrow> th s u \<notin> {Shared, Exclusive})"
    by (auto simp: smb_inv_def)
  assume "\<forall>t < N. th s t \<notin> {Backing, Exclusive}"
  then have "0 \<le> weight (th s t)" if "t < N" for t using that by (cases "th s t") auto
  then have "0 \<le> total_weight N (th s)" unfolding total_weight_def by (intro sum_nonneg) auto
  moreover have "lk s = word_of_int (total_weight N (th s))" using inv by (simp add: smb_inv_def)
  ultimately have "0 \<le> sint (lk s)" using sint_total [OF assms(1), of "th s"] by simp
  then show "smb_spin (lk s) = (lk s, Shared)" by (simp add: smb_spin_def shannon_atomic_read_def)
qed

theorem smb_lock_excludes_witness:
  "smb_reachable 2 \<lparr>lk = 1 - 0xffff, th = (\<lambda>t. Idle)(0 := Shared, 0 := Exclusive)\<rparr> \<and> smb_spin (1 - 0xffff) \<noteq> (1 - 0xffff, Shared) \<and>
   ((\<lambda>t. Idle)(0 := Shared, 0 := Exclusive)) (1 :: nat) \<notin> {Shared, Exclusive}"
proof -
  define s1 where "s1 = smb_init\<lparr>lk := 1, th := (th smb_init)(0 := Shared)\<rparr>"
  have "smb_step 2 smb_init s1"
    unfolding s1_def by (rule smb_step.step) (use op_lock [of 0] in \<open>auto simp: smb_init_def smb_op_defs\<close>)
  moreover have "smb_step 2 s1 (s1\<lparr>lk := 1 - 0xffff, th := (th s1)(0 := Exclusive)\<rparr>)"
    by (rule smb_step.step) (use op_try [of 1] in \<open>auto simp: s1_def smb_op_defs\<close>)
  moreover have "s1\<lparr>lk := 1 - 0xffff, th := (th s1)(0 := Exclusive)\<rparr> =
      \<lparr>lk = 1 - 0xffff, th = (\<lambda>t. Idle)(0 := Shared, 0 := Exclusive)\<rparr>" by (simp add: s1_def smb_init_def)
  ultimately have reach: "smb_reachable 2 \<lparr>lk = 1 - 0xffff, th = (\<lambda>t. Idle)(0 := Shared, 0 := Exclusive)\<rparr>"
    unfolding smb_reachable_def by (metis converse_rtranclp_into_rtranclp r_into_rtranclp)
  show ?thesis
    using smb_lock_excludes [OF _ reach] reach by (auto simp: smb_spin_def shannon_atomic_read_def)
qed

end
