(* ===== verification/Cdev.thy ===== *)
theory Cdev
  imports Prelude
begin

text \<open>
  The debug character device (\<^verbatim>\<open>shannon_cdev.c\<close>): reading and writing a plain buffer or one of the two tables
  that are spread over memory blocks, and seeking. \<open>check_and_alloc_memblock\<close> is in the precompiled core and an
  argument here. File positions and sizes are natural numbers: the virtual file system bounds a
  transfer far below the width of \<open>loff_t\<close>, and a negative position never gets past \<open>debug_cdev_llseek\<close>.
\<close>

section \<open>The device\<close>

definition MAPTABLE_TYPE_SIZE_SHIFT :: nat where "MAPTABLE_TYPE_SIZE_SHIFT = 2"
definition TEMPTABLE_TYPE_SIZE_SHIFT :: nat where "TEMPTABLE_TYPE_SIZE_SHIFT = 0"
definition ENTRIES_PER_MEMBLOCK_SHIFT :: nat where "ENTRIES_PER_MEMBLOCK_SHIFT = 20"
definition MAPTABLE_MEMBLOCK_SIZE :: nat where
  "MAPTABLE_MEMBLOCK_SIZE = 2 ^ (MAPTABLE_TYPE_SIZE_SHIFT + ENTRIES_PER_MEMBLOCK_SHIFT)"
definition TEMPTABLE_MEMBLOCK_SIZE :: nat where
  "TEMPTABLE_MEMBLOCK_SIZE = 2 ^ (TEMPTABLE_TYPE_SIZE_SHIFT + ENTRIES_PER_MEMBLOCK_SHIFT)"

text \<open>The two tables of a memory block: \<open>maptable_slot\<close> and \<open>temptable_slot\<close>.\<close>

datatype memblock_table = Maptable | Temptable

fun memblock_size :: "memblock_table \<Rightarrow> nat" where
  "memblock_size Maptable = MAPTABLE_MEMBLOCK_SIZE"
| "memblock_size Temptable = TEMPTABLE_MEMBLOCK_SIZE"

lemma memblock_size_pos [simp]: "0 < memblock_size tb"
  by (cases tb) (simp_all add: MAPTABLE_MEMBLOCK_SIZE_def TEMPTABLE_MEMBLOCK_SIZE_def)

text \<open>The bytes of a table in each block of \<open>memblock_list\<close>; \<open>None\<close> is a block not allocated (NULL).\<close>

type_synonym blocks = "nat \<Rightarrow> u8 list option"
type_synonym block_alloc = "nat \<Rightarrow> blocks \<Rightarrow> int \<times> blocks"

datatype cdev_buf = NORMAL_TYPE "u8 list" | MAPTABLE_MEMBLOCK_TYPE blocks | TEMPTABLE_MEMBLOCK_TYPE blocks | OtherType

record debug_cdev =
  dc_size :: nat
  dc_buf :: cdev_buf

section \<open>Reading\<close>

definition chunk_len :: "memblock_table \<Rightarrow> nat \<Rightarrow> nat \<Rightarrow> nat" where
  "chunk_len tb f_pos remain =
    (if remain < memblock_size tb - f_pos mod memblock_size tb then remain
     else memblock_size tb - f_pos mod memblock_size tb)"

lemma chunk_len_pos: "0 < remain \<Longrightarrow> 0 < chunk_len tb f_pos remain"
  by (simp add: chunk_len_def)

text \<open>The loops over memory blocks. \<open>user k n\<close> is how many of \<open>n\<close> bytes the \<open>k\<close>-th \<open>copy_to_user\<close> or \<open>copy_from_user\<close> leaves
  uncopied (0 when it succeeds); \<open>copy_from_user\<close> zeroes the rest of its destination then. The result is the error or
  0, the new position, the blocks and the bytes delivered; \<open>None\<close> is the use of a block that is not allocated. Both read
  loops convert the position with the shift of the map table.\<close>

type_synonym user_copy = "nat \<Rightarrow> nat \<Rightarrow> nat"

definition received :: "nat \<Rightarrow> u8 list \<Rightarrow> u8 list" where
  "received left data = (let n = length data - left in take n data @ replicate (length data - n) 0)"

lemma length_received [simp]: "length (received left data) = length data"
  by (simp add: received_def Let_def)

lemma received_all [simp]: "received 0 data = data"
  by (simp add: received_def)

function read_blocks ::
    "block_alloc \<Rightarrow> user_copy \<Rightarrow> memblock_table \<Rightarrow> nat \<Rightarrow> nat \<Rightarrow> nat \<Rightarrow> blocks \<Rightarrow> (int \<times> nat \<times> blocks \<times> u8 list) option" where
  "read_blocks alloc user tb k f_pos remain bl =
    (if remain = 0 then Some (0, f_pos, bl, [])
     else let data_len = chunk_len tb f_pos remain;
              (r, bl) = alloc (drop_bit MAPTABLE_TYPE_SIZE_SHIFT f_pos) bl
     in if r \<noteq> 0 then Some (- EFAULT, f_pos, bl, [])
        else case bl (f_pos div memblock_size tb) of None \<Rightarrow> None
        | Some b \<Rightarrow>
           if user k data_len \<noteq> 0
           then Some (- EFAULT, f_pos, bl, take (data_len - user k data_len) (drop (f_pos mod memblock_size tb) b))
           else map_option (\<lambda>(ret, p, bl, out). (ret, p, bl, take data_len (drop (f_pos mod memblock_size tb) b) @ out))
                  (read_blocks alloc user tb (Suc k) (f_pos + data_len) (remain - data_len) bl))"
  by pat_completeness auto
termination
  by (relation "measure (\<lambda>(alloc, user, tb, k, f_pos, remain, bl). remain)") (auto simp: chunk_len_pos)

declare read_blocks.simps [simp del]

text \<open>\<open>count\<close> is cut to the device; the result is the return value, the position, the device and the bytes delivered.\<close>

definition cut_count :: "debug_cdev \<Rightarrow> nat \<Rightarrow> nat \<Rightarrow> nat" where
  "cut_count dev f_pos count = (if f_pos + count > dc_size dev then dc_size dev - f_pos else count)"

definition table_read ::
    "block_alloc \<Rightarrow> user_copy \<Rightarrow> memblock_table \<Rightarrow> nat \<Rightarrow> nat \<Rightarrow> blocks \<Rightarrow> (int \<times> nat \<times> blocks \<times> u8 list) option" where
  "table_read alloc user tb f_pos count bl =
    map_option (\<lambda>(ret, p, bl, out). (if ret \<noteq> 0 then ret else int count, p, bl, out))
      (read_blocks alloc user tb 0 f_pos count bl)"

definition debug_cdev_read ::
    "block_alloc \<Rightarrow> user_copy \<Rightarrow> debug_cdev \<Rightarrow> nat \<Rightarrow> nat \<Rightarrow> (int \<times> nat \<times> debug_cdev \<times> u8 list) option" where
  "debug_cdev_read alloc user dev count f_pos =
    (if f_pos \<ge> dc_size dev then Some (0, f_pos, dev, [])
     else let count = cut_count dev f_pos count
     in case dc_buf dev of
          NORMAL_TYPE buf \<Rightarrow>
            if f_pos + count > length buf then None
            else if user 0 count \<noteq> 0 then Some (- EFAULT, f_pos, dev, take (count - user 0 count) (drop f_pos buf))
            else Some (int count, f_pos + count, dev, take count (drop f_pos buf))
        | MAPTABLE_MEMBLOCK_TYPE bl \<Rightarrow>
            map_option (\<lambda>(ret, p, bl, out). (ret, p, dev\<lparr>dc_buf := MAPTABLE_MEMBLOCK_TYPE bl\<rparr>, out))
              (table_read alloc user Maptable f_pos count bl)
        | TEMPTABLE_MEMBLOCK_TYPE bl \<Rightarrow>
            map_option (\<lambda>(ret, p, bl, out). (ret, p, dev\<lparr>dc_buf := TEMPTABLE_MEMBLOCK_TYPE bl\<rparr>, out))
              (table_read alloc user Temptable f_pos count bl)
        | OtherType \<Rightarrow> Some (int count, f_pos, dev, []))"

section \<open>Writing\<close>

text \<open>Both write loops pass the position itself.\<close>

function write_blocks ::
    "block_alloc \<Rightarrow> user_copy \<Rightarrow> memblock_table \<Rightarrow> nat \<Rightarrow> nat \<Rightarrow> u8 list \<Rightarrow> blocks \<Rightarrow> (int \<times> nat \<times> blocks) option" where
  "write_blocks alloc user tb k f_pos data bl =
    (if data = [] then Some (0, f_pos, bl)
     else let data_len = chunk_len tb f_pos (length data);
              off = f_pos mod memblock_size tb; i = f_pos div memblock_size tb;
              (r, bl) = alloc f_pos bl
     in if r \<noteq> 0 then Some (- EFAULT, f_pos, bl)
        else case bl i of None \<Rightarrow> None
        | Some b \<Rightarrow>
           let got = received (user k data_len) (take data_len data);
               bl = bl(i \<mapsto> take off b @ got @ drop (off + data_len) b)
           in if user k data_len \<noteq> 0 then Some (- EFAULT, f_pos, bl)
              else write_blocks alloc user tb (Suc k) (f_pos + data_len) (drop data_len data) bl)"
  by pat_completeness auto
termination
  by (relation "measure (\<lambda>(alloc, user, tb, k, f_pos, data, bl). length data)")
    (auto simp: chunk_len_pos)

declare write_blocks.simps [simp del]

definition table_write ::
    "block_alloc \<Rightarrow> user_copy \<Rightarrow> memblock_table \<Rightarrow> nat \<Rightarrow> u8 list \<Rightarrow> blocks \<Rightarrow> (int \<times> nat \<times> blocks) option" where
  "table_write alloc user tb f_pos data bl =
    map_option (\<lambda>(ret, p, bl). (if ret \<noteq> 0 then ret else int (length data), p, bl))
      (write_blocks alloc user tb 0 f_pos data bl)"

text \<open>\<open>data\<close> are the \<open>count\<close> bytes of the user's buffer.\<close>

definition debug_cdev_write ::
    "block_alloc \<Rightarrow> user_copy \<Rightarrow> debug_cdev \<Rightarrow> u8 list \<Rightarrow> nat \<Rightarrow> (int \<times> nat \<times> debug_cdev) option" where
  "debug_cdev_write alloc user dev data f_pos =
    (if f_pos \<ge> dc_size dev then Some (0, f_pos, dev)
     else let count = cut_count dev f_pos (length data); data = take count data
     in case dc_buf dev of
          NORMAL_TYPE buf \<Rightarrow>
            if f_pos + count > length buf then None
            else let dev = dev\<lparr>dc_buf :=
                       NORMAL_TYPE (take f_pos buf @ received (user 0 count) data @ drop (f_pos + count) buf)\<rparr>
            in if user 0 count \<noteq> 0 then Some (- EFAULT, f_pos, dev) else Some (int count, f_pos + count, dev)
        | MAPTABLE_MEMBLOCK_TYPE bl \<Rightarrow>
            map_option (\<lambda>(ret, p, bl). (ret, p, dev\<lparr>dc_buf := MAPTABLE_MEMBLOCK_TYPE bl\<rparr>))
              (table_write alloc user Maptable f_pos data bl)
        | TEMPTABLE_MEMBLOCK_TYPE bl \<Rightarrow>
            map_option (\<lambda>(ret, p, bl). (ret, p, dev\<lparr>dc_buf := TEMPTABLE_MEMBLOCK_TYPE bl\<rparr>))
              (table_write alloc user Temptable f_pos data bl)
        | OtherType \<Rightarrow> Some (int count, f_pos, dev))"

section \<open>Seeking\<close>

definition SEEK_SET :: nat where "SEEK_SET = 0"
definition SEEK_CUR :: nat where "SEEK_CUR = 1"
definition SEEK_END :: nat where "SEEK_END = 2"

text \<open>The result and the position of the file.\<close>

definition debug_cdev_llseek :: "debug_cdev \<Rightarrow> nat \<Rightarrow> int \<Rightarrow> nat \<Rightarrow> int \<times> nat" where
  "debug_cdev_llseek dev f_pos off whence =
    (if whence \<notin> {SEEK_SET, SEEK_CUR, SEEK_END} then (- EINVAL, f_pos)
     else let newpos = (if whence = SEEK_SET then off else if whence = SEEK_CUR then int f_pos + off
                        else int (dc_size dev) + off)
     in if newpos < 0 then (- EINVAL, f_pos) else (newpos, nat newpos))"

section \<open>Tables as byte sequences\<close>

definition byte_at :: "memblock_table \<Rightarrow> blocks \<Rightarrow> nat \<Rightarrow> u8" where
  "byte_at tb bl i = the (bl (i div memblock_size tb)) ! (i mod memblock_size tb)"

text \<open>Every block up to position \<open>n\<close> is allocated at its full size.\<close>

definition backed :: "memblock_table \<Rightarrow> nat \<Rightarrow> blocks \<Rightarrow> bool" where
  "backed tb n bl \<longleftrightarrow> (\<forall>i < n. \<exists>b. bl (i div memblock_size tb) = Some b \<and> length b = memblock_size tb)"

text \<open>An allocation function that succeeds and leaves allocated blocks alone. The core does not document that
  \<open>check_and_alloc_memblock\<close> is one for every argument, so this is a premise of the lemmas on the two table loops
  and of nothing else; the lemmas at the end show what the loops do with one that takes an entry's index.\<close>

definition alloc_keeps :: "block_alloc \<Rightarrow> bool" where
  "alloc_keeps alloc \<longleftrightarrow> (\<forall>off bl. fst (alloc off bl) = 0 \<and> (\<forall>i b. bl i = Some b \<longrightarrow> snd (alloc off bl) i = Some b))"

lemma alloc_step:
  assumes "alloc_keeps alloc"
  obtains bl' where "alloc off bl = (0, bl')" "backed tb n bl \<Longrightarrow> backed tb n bl'"
    "backed tb n bl \<Longrightarrow> \<forall>i < n. byte_at tb bl' i = byte_at tb bl i"
proof -
  have "fst (alloc off bl) = 0" and keep: "\<forall>i b. bl i = Some b \<longrightarrow> snd (alloc off bl) i = Some b"
    using assms by (auto simp: alloc_keeps_def)
  then have "alloc off bl = (0, snd (alloc off bl))" by (metis prod.collapse)
  then show ?thesis by (rule that) (use keep in \<open>auto simp: backed_def byte_at_def; metis option.sel\<close>)+
qed

text \<open>A position inside the chunk at \<open>p\<close> lies in the same block, \<open>j - p\<close> bytes further.\<close>

lemma chunk_position:
  assumes "p \<le> j" "j < p + chunk_len tb p r"
  shows "j div memblock_size tb = p div memblock_size tb"
    and "j mod memblock_size tb = p mod memblock_size tb + (j - p)"
proof -
  let ?m = "memblock_size tb"
  have "p mod ?m + (j - p) < ?m" using assms by (auto simp: chunk_len_def split: if_splits)
  moreover have "j = p div ?m * ?m + (p mod ?m + (j - p))" using assms(1) by simp
  ultimately show "j div ?m = p div ?m" and "j mod ?m = p mod ?m + (j - p)"
    by (metis div_mult_self3 memblock_size_pos div_less add_0 less_numeral_extra(3) add.commute mult.commute)
      (metis mod_mult_self3 mod_less \<open>j = _\<close> \<open>p mod ?m + (j - p) < ?m\<close>)
qed

lemma chunk_len_le: "chunk_len tb p r \<le> r" "p mod memblock_size tb + chunk_len tb p r \<le> memblock_size tb"
  using mod_less_divisor [OF memblock_size_pos [of tb], of p] by (auto simp: chunk_len_def)

lemma backedD:
  assumes "backed tb n bl" "i < n"
  obtains b where "bl (i div memblock_size tb) = Some b" "length b = memblock_size tb"
  using assms by (auto simp: backed_def)

lemma backed_mono: "backed tb n bl \<Longrightarrow> m \<le> n \<Longrightarrow> backed tb m bl"
  by (auto simp: backed_def)

text \<open>The bytes of a chunk as a slice of its block.\<close>

lemma chunk_bytes:
  assumes "bl (p div memblock_size tb) = Some b" "length b = memblock_size tb"
  shows "take (chunk_len tb p r) (drop (p mod memblock_size tb) b) = map (byte_at tb bl) [p..<p + chunk_len tb p r]"
    (is "?l = ?r")
proof (rule nth_equalityI)
  show "length ?l = length ?r" using chunk_len_le(2) [of p tb r] assms(2) by simp
  fix i assume "i < length ?l"
  then have i: "i < chunk_len tb p r" by simp
  then show "?l ! i = ?r ! i"
    using chunk_position [of p "p + i" tb r] chunk_len_le(2) [of p tb r] assms by (simp add: byte_at_def)
qed

text \<open>Storing a chunk changes exactly its bytes.\<close>

definition store_chunk :: "memblock_table \<Rightarrow> nat \<Rightarrow> u8 list \<Rightarrow> u8 list \<Rightarrow> blocks \<Rightarrow> blocks" where
  "store_chunk tb p c b bl = bl(p div memblock_size tb \<mapsto>
     take (p mod memblock_size tb) b @ c @ drop (p mod memblock_size tb + length c) b)"

lemma store_chunk_bytes:
  assumes b: "bl (p div memblock_size tb) = Some b" "length b = memblock_size tb"
    and c: "length c = chunk_len tb p r"
  shows "backed tb n bl \<Longrightarrow> backed tb n (store_chunk tb p c b bl)"
    and "byte_at tb (store_chunk tb p c b bl) j = (if p \<le> j \<and> j < p + length c then c ! (j - p) else byte_at tb bl j)"
proof -
  let ?m = "memblock_size tb" let ?o = "p mod ?m" and ?new = "take (p mod ?m) b @ c @ drop (p mod ?m + length c) b"
  have o: "?o + length c \<le> ?m" using chunk_len_le(2) [of p tb r] c by simp
  then have len: "length ?new = ?m" using b(2) by simp
  show "backed tb n bl \<Longrightarrow> backed tb n (store_chunk tb p c b bl)"
    using len by (auto simp: backed_def store_chunk_def)
  show "byte_at tb (store_chunk tb p c b bl) j = (if p \<le> j \<and> j < p + length c then c ! (j - p) else byte_at tb bl j)"
  proof (cases "j div ?m = p div ?m")
    case False
    then have "\<not> (p \<le> j \<and> j < p + length c)" using chunk_position(1) [of p j tb r] c by auto
    then show ?thesis using False by (auto simp: byte_at_def store_chunk_def)
  next
    case True
    have split: "j = p div ?m * ?m + j mod ?m" "p = p div ?m * ?m + ?o"
      using True by (metis div_mult_mod_eq) simp
    have "?new ! (j mod ?m) = (if ?o \<le> j mod ?m \<and> j mod ?m < ?o + length c then c ! (j mod ?m - ?o) else b ! (j mod ?m))"
      using o b(2) mod_less_divisor [OF memblock_size_pos [of tb], of j] by (auto simp: nth_append)
    moreover have "p \<le> j \<longleftrightarrow> ?o \<le> j mod ?m" "j - p = j mod ?m - ?o" "j < p + length c \<longleftrightarrow> j mod ?m < ?o + length c"
      using split by linarith+
    ultimately show ?thesis using True b(1) by (simp add: byte_at_def store_chunk_def)
  qed
qed

section \<open>The loops\<close>

abbreviation all_copied :: user_copy where "all_copied \<equiv> \<lambda>_ _. 0"

lemma read_blocks_bytes:
  assumes alloc: "alloc_keeps alloc"
  shows "backed tb (p + n) bl \<Longrightarrow>
    \<exists>bl'. read_blocks alloc all_copied tb k p n bl = Some (0, p + n, bl', map (byte_at tb bl) [p..<p + n])
        \<and> backed tb (p + n) bl' \<and> (\<forall>i < p + n. byte_at tb bl' i = byte_at tb bl i)"
proof (induction n arbitrary: k p bl rule: less_induct)
  case (less n)
  show ?case
  proof (cases "n = 0")
    case True
    then show ?thesis using less.prems by (auto simp: read_blocks.simps [of _ _ _ _ _ 0])
  next
    case False
    define l where "l = chunk_len tb p n"
    have l: "0 < l" "l \<le> n" using chunk_len_pos chunk_len_le(1) False by (auto simp: l_def)
    obtain bl1 where bl1: "alloc (drop_bit MAPTABLE_TYPE_SIZE_SHIFT p) bl = (0, bl1)" "backed tb (p + n) bl1"
      "\<forall>i < p + n. byte_at tb bl1 i = byte_at tb bl i" using alloc_step [OF alloc] less.prems by metis
    obtain b where b: "bl1 (p div memblock_size tb) = Some b" "length b = memblock_size tb"
      using backedD [OF bl1(2), of p] False by auto
    obtain bl2 where bl2: "read_blocks alloc all_copied tb (Suc k) (p + l) (n - l) bl1 =
        Some (0, p + n, bl2, map (byte_at tb bl1) [p + l..<p + n])"
      "backed tb (p + n) bl2" "\<forall>i < p + n. byte_at tb bl2 i = byte_at tb bl1 i"
      using less.IH [of "n - l" "p + l" bl1 "Suc k"] l bl1(2) by auto
    have "[p..<p + n] = [p..<p + l] @ [p + l..<p + n]"
      using l upt_add_eq_append [of p "p + l" "n - l"] by simp
    then have "map (byte_at tb bl) [p..<p + n] =
        take l (drop (p mod memblock_size tb) b) @ map (byte_at tb bl1) [p + l..<p + n]"
      using bl1(3) l chunk_bytes [where bl = bl1 and p = p and tb = tb, OF b, of n] by (simp add: l_def)
    then show ?thesis
      using False bl1 b bl2 by (simp add: read_blocks.simps [of _ _ _ _ _ n] flip: l_def)
  qed
qed

lemma write_blocks_bytes:
  assumes alloc: "alloc_keeps alloc"
  shows "backed tb N bl \<Longrightarrow> p + length data \<le> N \<Longrightarrow>
    \<exists>bl'. write_blocks alloc all_copied tb k p data bl = Some (0, p + length data, bl') \<and> backed tb N bl'
        \<and> (\<forall>j < N. byte_at tb bl' j = (if p \<le> j \<and> j < p + length data then data ! (j - p) else byte_at tb bl j))"
proof (induction "length data" arbitrary: k p bl data rule: less_induct)
  case less
  show ?case
  proof (cases "data = []")
    case True
    then show ?thesis using less.prems by (auto simp: write_blocks.simps)
  next
    case False
    define l where "l = chunk_len tb p (length data)"
    have l: "0 < l" "l \<le> length data" using chunk_len_pos chunk_len_le(1) False by (auto simp: l_def)
    obtain bl1 where bl1: "alloc p bl = (0, bl1)" "backed tb N bl1"
      "\<forall>i < N. byte_at tb bl1 i = byte_at tb bl i" using alloc_step [OF alloc] less.prems(1) by metis
    have "p < N" using l less.prems(2) by linarith
    then obtain b where b: "bl1 (p div memblock_size tb) = Some b" "length b = memblock_size tb"
      using backedD [OF bl1(2)] by blast
    define bl2 where "bl2 = store_chunk tb p (take l data) b bl1"
    have len: "length (take l data) = chunk_len tb p (length data)" using l by (simp add: l_def)
    note st = store_chunk_bytes [where bl = bl1 and p = p and tb = tb, OF b len, folded bl2_def]
    have dec: "length (drop l data) < length data" using l by simp
    obtain bl3 where bl3: "write_blocks alloc all_copied tb (Suc k) (p + l) (drop l data) bl2 =
        Some (0, p + length data, bl3)" "backed tb N bl3"
      "\<forall>j < N. byte_at tb bl3 j =
        (if p + l \<le> j \<and> j < p + length data then drop l data ! (j - (p + l)) else byte_at tb bl2 j)"
      using less.hyps [OF dec, of bl2 "p + l" "Suc k"] l st(1) [OF bl1(2)] less.prems(2) by auto
    have "\<forall>j < N. byte_at tb bl3 j =
        (if p \<le> j \<and> j < p + length data then data ! (j - p) else byte_at tb bl j)"
      using bl3(3) st(2) bl1(3) l by auto
    then show ?thesis
      using False bl1(1) b bl3(1,2) l
      by (simp add: write_blocks.simps [of _ _ _ _ _ data] bl2_def store_chunk_def min_absorb2 flip: l_def)
  qed
qed

section \<open>Whole transfers\<close>

lemma cut_count_le:
  "cut_count dev p n \<le> n" "p < dc_size dev \<Longrightarrow> p + cut_count dev p n \<le> dc_size dev"
  by (auto simp: cut_count_def)

lemma table_read_bytes:
  assumes "alloc_keeps alloc" "backed tb (p + n) bl"
  shows "\<exists>bl'. table_read alloc all_copied tb p n bl = Some (int n, p + n, bl', map (byte_at tb bl) [p..<p + n])"
  using read_blocks_bytes [where alloc = alloc and k = 0, OF assms] by (auto simp: table_read_def)

lemma table_write_bytes:
  assumes "alloc_keeps alloc" "backed tb N bl" "p + length data \<le> N"
  shows "\<exists>bl'. table_write alloc all_copied tb p data bl = Some (int (length data), p + length data, bl') \<and> backed tb N bl'
        \<and> (\<forall>j < N. byte_at tb bl' j = (if p \<le> j \<and> j < p + length data then data ! (j - p) else byte_at tb bl j))"
  using write_blocks_bytes [where alloc = alloc and k = 0, OF assms] by (auto simp: table_write_def)

text \<open>A table whose blocks are there: what is written is read back, across blocks, and nothing else changes.\<close>

lemma table_write_then_read:
  assumes alloc: "alloc_keeps alloc" and b: "backed tb N bl" "p + length data \<le> N"
  shows "\<exists>bl' bl''. table_write alloc all_copied tb p data bl = Some (int (length data), p + length data, bl') \<and>
    table_read alloc all_copied tb p (length data) bl' = Some (int (length data), p + length data, bl'', data)"
proof -
  obtain bl' where w: "table_write alloc all_copied tb p data bl = Some (int (length data), p + length data, bl')"
      "backed tb N bl'"
      "\<forall>j < N. byte_at tb bl' j = (if p \<le> j \<and> j < p + length data then data ! (j - p) else byte_at tb bl j)"
    using table_write_bytes [OF alloc b] by blast
  have "map (byte_at tb bl') [p..<p + length data] = data" using w(3) b(2) by (intro nth_equalityI) auto
  moreover have "backed tb (p + length data) bl'" using w(2) b(2) by (rule backed_mono)
  ultimately show ?thesis using w(1) table_read_bytes [OF alloc] by metis
qed

section \<open>Properties\<close>

text \<open>C36 (roundtrip). A debug device backed by a plain buffer of at least its size. A transfer that starts inside the device is
  cut to the bytes up to its end and never leaves the buffer. A write that reaches user memory returns the number of
  bytes, advances the position by it and changes exactly these bytes of the buffer, and a read at the same place then
  gives them back; a copy that faults returns \<open>-EFAULT\<close>, leaves the position, and a faulting write changes no byte outside
  the range. At or behind the end both return 0 and do nothing. None of it calls the core's allocator.\<close>

theorem cdev_write_then_read:
  assumes "dc_buf dev = NORMAL_TYPE buf" "dc_size dev \<le> length buf" "n = min (length data) (dc_size dev - f_pos)"
  shows "if dc_size dev \<le> f_pos
    then debug_cdev_write alloc user dev data f_pos = Some (0, f_pos, dev) \<and>
      debug_cdev_read alloc user dev (length data) f_pos = Some (0, f_pos, dev, [])
    else \<exists>buf'. debug_cdev_write alloc user dev data f_pos =
        Some (if user 0 n = 0 then (int n, f_pos + n, dev\<lparr>dc_buf := NORMAL_TYPE buf'\<rparr>)
              else (- EFAULT, f_pos, dev\<lparr>dc_buf := NORMAL_TYPE buf'\<rparr>)) \<and>
      length buf' = length buf \<and>
      (\<forall>j < length buf. j < f_pos \<or> f_pos + n \<le> j \<longrightarrow> buf' ! j = buf ! j) \<and>
      (if user 0 n = 0
       then debug_cdev_read alloc user (dev\<lparr>dc_buf := NORMAL_TYPE buf'\<rparr>) (length data) f_pos =
         Some (int n, f_pos + n, dev\<lparr>dc_buf := NORMAL_TYPE buf'\<rparr>, take n data)
       else \<exists>out. debug_cdev_read alloc user (dev\<lparr>dc_buf := NORMAL_TYPE buf'\<rparr>) (length data) f_pos =
         Some (- EFAULT, f_pos, dev\<lparr>dc_buf := NORMAL_TYPE buf'\<rparr>, out))"
proof (cases "dc_size dev \<le> f_pos")
  case True
  then show ?thesis by (simp add: debug_cdev_write_def debug_cdev_read_def)
next
  case False
  let ?buf = "take f_pos buf @ received (user 0 n) (take n data) @ drop (f_pos + n) buf"
  have cut: "cut_count (dev\<lparr>dc_buf := b\<rparr>) f_pos (length data) = n" "cut_count dev f_pos (length data) = n" for b
    using assms(3) False by (auto simp: cut_count_def)
  have fits: "f_pos + n \<le> length buf" "n \<le> length data" using assms(2,3) False by auto
  have other: "?buf ! j = buf ! j" if "j < length buf" "j < f_pos \<or> f_pos + n \<le> j" for j
    using that fits by (auto simp: nth_append)
  have reread: "user 0 n = 0 \<Longrightarrow> take n (drop f_pos ?buf) = take n data" using fits by simp
  show ?thesis
    unfolding if_not_P [OF False]
    by (intro exI [of _ ?buf] conjI allI impI other)
       (use assms(1) False fits reread in \<open>auto simp: debug_cdev_write_def debug_cdev_read_def Let_def cut\<close>)
qed

theorem cdev_write_then_read_witness:
  "\<exists>buf'. debug_cdev_write (\<lambda>_ bl. (0, bl)) (\<lambda>_ _. 0) \<lparr>dc_size = 4, dc_buf = NORMAL_TYPE [1, 2, 3, 4]\<rparr> [7, 8, 9] 2
      = Some (2, 4, \<lparr>dc_size = 4, dc_buf = NORMAL_TYPE buf'\<rparr>) \<and>
    debug_cdev_read (\<lambda>_ bl. (0, bl)) (\<lambda>_ _. 0) \<lparr>dc_size = 4, dc_buf = NORMAL_TYPE buf'\<rparr> 3 2
      = Some (2, 4, \<lparr>dc_size = 4, dc_buf = NORMAL_TYPE buf'\<rparr>, [7, 8])"
proof -
  let ?dev = "\<lparr>dc_size = 4, dc_buf = NORMAL_TYPE [1, 2, 3, 4]\<rparr>"
  have h: "dc_buf ?dev = NORMAL_TYPE [1, 2, 3, 4]" "dc_size ?dev \<le> length [1, 2, 3, 4 :: u8]"
    "2 = min (length [7, 8, 9 :: u8]) (dc_size ?dev - 2)" and big: "\<not> dc_size ?dev \<le> 2"
    by simp_all
  obtain buf' where "debug_cdev_write (\<lambda>_ bl. (0, bl)) (\<lambda>_ _. 0) ?dev [7, 8, 9] 2 =
        Some (int 2, 2 + 2, ?dev\<lparr>dc_buf := NORMAL_TYPE buf'\<rparr>)"
      "debug_cdev_read (\<lambda>_ bl. (0, bl)) (\<lambda>_ _. 0) (?dev\<lparr>dc_buf := NORMAL_TYPE buf'\<rparr>) (length [7, 8, 9 :: u8]) 2 =
        Some (int 2, 2 + 2, ?dev\<lparr>dc_buf := NORMAL_TYPE buf'\<rparr>, take 2 [7, 8, 9])"
    using cdev_write_then_read [OF h, of "\<lambda>_ bl. (0, bl)" "\<lambda>_ _. 0", unfolded if_not_P [OF big]]
    unfolding if_P [OF refl] by blast
  then show ?thesis by (intro exI [of _ buf']) (simp add: numeral_3_eq_3)
qed

text \<open>An allocator that takes the index of an entry and makes the block of that entry.\<close>

definition alloc_entry_block :: "memblock_table \<Rightarrow> block_alloc" where
  "alloc_entry_block tb entry bl =
    (let i = entry div 2 ^ ENTRIES_PER_MEMBLOCK_SHIFT
     in (0, if bl i = None then bl(i \<mapsto> replicate (memblock_size tb) 0) else bl))"

text \<open>With such an allocator a read of the map table at the start of its second block finds its block, and a write at the
  same place uses a block it never allocated: the write loop passes the byte position where the index is meant. The
  second read loop has the shift of the wrong table.\<close>

lemma maptable_read_finds_block:
  "debug_cdev_read (alloc_entry_block Maptable) (\<lambda>_ _. 0) \<lparr>dc_size = 8388608, dc_buf = MAPTABLE_MEMBLOCK_TYPE Map.empty\<rparr> 1 4194304 \<noteq> None"
  by (simp add: debug_cdev_read_def table_read_def read_blocks.simps [of _ _ _ _ _ "Suc 0"] read_blocks.simps [of _ _ _ _ _ 0]
      cut_count_def alloc_entry_block_def chunk_len_def MAPTABLE_TYPE_SIZE_SHIFT_def ENTRIES_PER_MEMBLOCK_SHIFT_def
      MAPTABLE_MEMBLOCK_SIZE_def drop_bit_eq_div)

lemma maptable_write_misses_block:
  "debug_cdev_write (alloc_entry_block Maptable) (\<lambda>_ _. 0) \<lparr>dc_size = 8388608, dc_buf = MAPTABLE_MEMBLOCK_TYPE Map.empty\<rparr> [5] 4194304 = None"
  by (simp add: debug_cdev_write_def table_write_def write_blocks.simps [of _ _ _ _ _ "[5]"]
      cut_count_def alloc_entry_block_def chunk_len_def MAPTABLE_TYPE_SIZE_SHIFT_def ENTRIES_PER_MEMBLOCK_SHIFT_def
      MAPTABLE_MEMBLOCK_SIZE_def)

lemma temptable_read_misses_block:
  "debug_cdev_read (alloc_entry_block Temptable) (\<lambda>_ _. 0) \<lparr>dc_size = 8388608, dc_buf = TEMPTABLE_MEMBLOCK_TYPE Map.empty\<rparr> 1 1048576 = None"
  by (simp add: debug_cdev_read_def table_read_def read_blocks.simps [of _ _ _ _ _ "Suc 0"]
      cut_count_def alloc_entry_block_def chunk_len_def MAPTABLE_TYPE_SIZE_SHIFT_def TEMPTABLE_TYPE_SIZE_SHIFT_def
      ENTRIES_PER_MEMBLOCK_SHIFT_def TEMPTABLE_MEMBLOCK_SIZE_def drop_bit_eq_div)

text \<open>A seek either fails and leaves the position, or moves to a position that is not negative.\<close>

lemma debug_cdev_llseek_result:
  "debug_cdev_llseek dev p off whence = (r, p') \<Longrightarrow> (r = - EINVAL \<and> p' = p) \<or> (0 \<le> r \<and> p' = nat r)"
  by (auto simp: debug_cdev_llseek_def Let_def split: if_splits)

end
