(* ===== verification/Device_Stats.thy ===== *)
theory Device_Stats
  imports Prelude "HOL-Library.Multiset"
begin

text \<open>
  Device numbers and disk statistics (\<^verbatim>\<open>shannon_device.c\<close>): the counters of a disk and its partitions, one set per CPU,
  and the accounting the driver does itself on kernels 5.0 to 5.6 (\<open>_5_0\<close>), the readers of kernels from 5.8 and 5.15 on
  (where the kernel does the accounting). An I/O may start on one CPU and end on another, so a single counter
  may wrap below zero; the theorems are about the sums.
\<close>

section \<open>Device numbers\<close>

definition MINORBITS :: nat where "MINORBITS = 20"

definition SHANNON_MAJOR :: "u32 \<Rightarrow> u32" where "SHANNON_MAJOR dev = drop_bit MINORBITS dev"
definition SHANNON_MINOR :: "u32 \<Rightarrow> u32" where "SHANNON_MINOR dev = dev AND (push_bit MINORBITS 1 - 1)"
definition SHANNON_MKDEV :: "u32 \<Rightarrow> u32 \<Rightarrow> u32" where "SHANNON_MKDEV ma mi = push_bit MINORBITS ma OR mi"

section \<open>Counters\<close>

definition READ :: nat where "READ = 0"
definition WRITE :: nat where "WRITE = 1"
definition NR_STAT_GROUPS :: nat where "NR_STAT_GROUPS = 4"

text \<open>The counters of one CPU; arrays are functions of the group (\<open>time_in_queue\<close> exists before 5.7 only).\<close>

record disk_stats =
  nsecs :: "nat \<Rightarrow> u64"
  sectors :: "nat \<Rightarrow> u64"
  ios :: "nat \<Rightarrow> u64"
  merges :: "nat \<Rightarrow> u64"
  io_ticks :: u64
  time_in_queue :: u64
  in_flight :: "nat \<Rightarrow> u64"

definition zero_stats :: disk_stats where
  "zero_stats = \<lparr>nsecs = (\<lambda>_. 0), sectors = (\<lambda>_. 0), ios = (\<lambda>_. 0), merges = (\<lambda>_. 0), io_ticks = 0, time_in_queue = 0,
     in_flight = (\<lambda>_. 0)\<rparr>"

text \<open>A partition, and a disk as its partitions by number, where number 0 is the whole disk (\<open>part0\<close>).\<close>

record hd_struct =
  bd_stats :: "nat \<Rightarrow> disk_stats"
  hd_stamp :: u64

type_synonym gendisk = "nat \<Rightarrow> hd_struct"

section \<open>Reading on kernels from 5.15 on\<close>

text \<open>\<open>cpus\<close> are the possible CPUs, in the order of \<open>for_each_possible_cpu\<close>.\<close>

definition add_groups :: "disk_stats \<Rightarrow> disk_stats \<Rightarrow> disk_stats" where
  "add_groups ptr stat = fold (\<lambda>group stat. stat\<lparr>
      nsecs := (nsecs stat)(group := nsecs stat group + nsecs ptr group),
      sectors := (sectors stat)(group := sectors stat group + sectors ptr group),
      ios := (ios stat)(group := ios stat group + ios ptr group),
      merges := (merges stat)(group := merges stat group + merges ptr group)\<rparr>) [0 ..< NR_STAT_GROUPS] stat"

definition part_stat_read_all :: "nat list \<Rightarrow> hd_struct \<Rightarrow> disk_stats" where
  "part_stat_read_all cpus part =
    fold (\<lambda>cpu stat.
      let ptr = bd_stats part cpu; stat = add_groups ptr stat
      in stat\<lparr>io_ticks := io_ticks stat + io_ticks ptr\<rparr>) cpus zero_stats"

text \<open>The disk may be NULL.\<close>

definition shannon_read_sectors :: "nat list \<Rightarrow> gendisk option \<Rightarrow> u64" where
  "shannon_read_sectors cpus gd =
    (case gd of None \<Rightarrow> 0 | Some d \<Rightarrow> let stat = part_stat_read_all cpus (d 0) in sectors stat READ)"

definition shannon_write_sectors :: "nat list \<Rightarrow> gendisk option \<Rightarrow> u64" where
  "shannon_write_sectors cpus gd =
    (case gd of None \<Rightarrow> 0 | Some d \<Rightarrow> let stat = part_stat_read_all cpus (d 0) in sectors stat WRITE)"

definition shannon_read_ios :: "nat list \<Rightarrow> gendisk option \<Rightarrow> u64" where
  "shannon_read_ios cpus gd =
    (case gd of None \<Rightarrow> 0 | Some d \<Rightarrow> let stat = part_stat_read_all cpus (d 0) in ios stat READ)"

definition shannon_write_ios :: "nat list \<Rightarrow> gendisk option \<Rightarrow> u64" where
  "shannon_write_ios cpus gd =
    (case gd of None \<Rightarrow> 0 | Some d \<Rightarrow> let stat = part_stat_read_all cpus (d 0) in ios stat WRITE)"

definition shannon_read_msecs :: "nat list \<Rightarrow> gendisk option \<Rightarrow> u64" where
  "shannon_read_msecs cpus gd =
    (case gd of None \<Rightarrow> 0 | Some d \<Rightarrow> let stat = part_stat_read_all cpus (d 0) in nsecs stat READ div 1000000)"

definition shannon_write_msecs :: "nat list \<Rightarrow> gendisk option \<Rightarrow> u64" where
  "shannon_write_msecs cpus gd =
    (case gd of None \<Rightarrow> 0 | Some d \<Rightarrow> let stat = part_stat_read_all cpus (d 0) in nsecs stat WRITE div 1000000)"

text \<open>On kernels 5.0 to 5.6, whose accounting follows below. \<open>inflight\<close> is an \<open>unsigned int\<close>: every addition is cut to 32 bits.\<close>

definition shannon_disk_in_flight :: "nat list \<Rightarrow> gendisk \<Rightarrow> int" where
  "shannon_disk_in_flight cpus gd =
    (let inflight = fold (\<lambda>cpu inflight :: u32.
           ucast (ucast inflight + (in_flight (bd_stats (gd 0) cpu) 0 + in_flight (bd_stats (gd 0) cpu) 1))) cpus 0;
         inflight = (if sint inflight < 0 then 0 else inflight)
     in sint inflight)"

text \<open>The copy for kernels from 5.15 on.\<close>

definition shannon_disk_in_flight_5_15 :: "nat list \<Rightarrow> gendisk \<Rightarrow> int" where
  "shannon_disk_in_flight_5_15 cpus gd =
    (let inflight = fold (\<lambda>cpu inflight :: u32.
           ucast (ucast inflight + (in_flight (bd_stats (gd 0) cpu) 0 + in_flight (bd_stats (gd 0) cpu) 1))) cpus 0;
         inflight = (if sint inflight < 0 then 0 else inflight)
     in sint inflight)"

text \<open>From 5.7 to 5.14 the sum is a \<open>long\<close> and only whether it is zero is returned.\<close>

definition shannon_disk_in_flight_5_8 :: "nat list \<Rightarrow> gendisk \<Rightarrow> int" where
  "shannon_disk_in_flight_5_8 cpus gd =
    (let sum = fold (\<lambda>cpu sum :: u64.
           sum + in_flight (bd_stats (gd 0) cpu) 0 + in_flight (bd_stats (gd 0) cpu) 1) cpus 0
     in if sum \<noteq> 0 then 1 else 0)"

section \<open>Accounting on kernels 5.0 to 5.6\<close>

text \<open>Changing the counters of a CPU in a partition.\<close>

definition upd_stats :: "nat \<Rightarrow> nat \<Rightarrow> (disk_stats \<Rightarrow> disk_stats) \<Rightarrow> gendisk \<Rightarrow> gendisk" where
  "upd_stats part cpu f gd =
    gd(part := (gd part)\<lparr>bd_stats := (bd_stats (gd part))(cpu := f (bd_stats (gd part) cpu))\<rparr>)"

text \<open>\<open>part_stat_add\<close> of the kernel changes a partition and, unless it is the whole disk, the whole disk too; the driver's
  functions for the I/Os in flight do the same with the local variants.\<close>

definition part_stat_upd :: "nat \<Rightarrow> nat \<Rightarrow> (disk_stats \<Rightarrow> disk_stats) \<Rightarrow> gendisk \<Rightarrow> gendisk" where
  "part_stat_upd part cpu f gd =
    (let gd = upd_stats part cpu f gd in if part \<noteq> 0 then upd_stats 0 cpu f gd else gd)"

definition shannon_part_inc_in_flight :: "nat \<Rightarrow> nat \<Rightarrow> nat \<Rightarrow> gendisk \<Rightarrow> gendisk" where
  "shannon_part_inc_in_flight part cpu rw gd =
    (let inc = (\<lambda>s. s\<lparr>in_flight := (in_flight s)(rw := in_flight s rw + 1)\<rparr>); gd = upd_stats part cpu inc gd
     in if part \<noteq> 0 then upd_stats 0 cpu inc gd else gd)"

definition shannon_part_dec_in_flight :: "nat \<Rightarrow> nat \<Rightarrow> nat \<Rightarrow> gendisk \<Rightarrow> gendisk" where
  "shannon_part_dec_in_flight part cpu rw gd =
    (let dec = (\<lambda>s. s\<lparr>in_flight := (in_flight s)(rw := in_flight s rw - 1)\<rparr>); gd = upd_stats part cpu dec gd
     in if part \<noteq> 0 then upd_stats 0 cpu dec gd else gd)"

text \<open>\<open>won part\<close> says whether the exchange of the stamp succeeds, which it does unless another CPU is faster. The loop goes
  from a partition to the whole disk.\<close>

function shannon_update_io_ticks :: "(nat \<Rightarrow> bool) \<Rightarrow> nat \<Rightarrow> nat \<Rightarrow> u64 \<Rightarrow> gendisk \<Rightarrow> gendisk" where
  "shannon_update_io_ticks won cpu part now gd =
    (let stamp = hd_stamp (gd part);
         gd = (if stamp \<noteq> now \<and> won part
               then upd_stats part cpu (\<lambda>s. s\<lparr>io_ticks := io_ticks s + 1\<rparr>) (gd(part := (gd part)\<lparr>hd_stamp := now\<rparr>))
               else gd)
     in if part \<noteq> 0 then shannon_update_io_ticks won cpu 0 now gd else gd)"
  by pat_completeness auto
termination
  by (relation "measure (\<lambda>(won, cpu, part, now, gd). part)") auto

declare shannon_update_io_ticks.simps [simp del]

record acct_bio =
  ab_rw :: nat
  ab_sector :: nat
  ab_sectors :: u64

text \<open>What an accounting call finds: the CPU, the clock at its two readings, the outcome of the stamp exchange and the
  conversion of jiffies, which depends on the kernel's configuration.\<close>

record acct_env =
  ae_cpu :: nat
  ae_now :: u64
  ae_now2 :: u64
  ae_won :: "nat \<Rightarrow> bool"
  jiffies_to_usecs :: "u64 \<Rightarrow> u32"

text \<open>\<open>disk_map_sector_rcu\<close> of the kernel gives the partition of a sector.\<close>

definition shannon_start_io_acct_5_0 :: "(nat \<Rightarrow> nat) \<Rightarrow> acct_env \<Rightarrow> acct_bio \<Rightarrow> gendisk \<Rightarrow> u64 \<times> gendisk" where
  "shannon_start_io_acct_5_0 disk_map_sector env bio gd =
    (let now = ae_now env; rw = ab_rw bio; cpu = ae_cpu env; part = disk_map_sector (ab_sector bio);
         gd = shannon_update_io_ticks (ae_won env) cpu part (ae_now2 env) gd;
         gd = part_stat_upd part cpu (\<lambda>s. s\<lparr>ios := (ios s)(rw := ios s rw + 1)\<rparr>) gd;
         gd = part_stat_upd part cpu (\<lambda>s. s\<lparr>sectors := (sectors s)(rw := sectors s rw + ab_sectors bio)\<rparr>) gd
     in (now, shannon_part_inc_in_flight part cpu rw gd))"

text \<open>\<open>duration\<close> is an \<open>unsigned int\<close>, and so is the product with 1000.\<close>

definition shannon_end_io_acct_5_0 :: "(nat \<Rightarrow> nat) \<Rightarrow> acct_env \<Rightarrow> acct_bio \<Rightarrow> u64 \<Rightarrow> gendisk \<Rightarrow> gendisk" where
  "shannon_end_io_acct_5_0 disk_map_sector env bio start_time gd =
    (let duration = ucast (ae_now env - start_time) :: u32; rw = ab_rw bio; cpu = ae_cpu env;
         part = disk_map_sector (ab_sector bio);
         gd = shannon_update_io_ticks (ae_won env) cpu part (ae_now2 env) gd;
         gd = part_stat_upd part cpu
           (\<lambda>s. s\<lparr>nsecs := (nsecs s)(rw := nsecs s rw + ucast (jiffies_to_usecs env (ucast duration) * 1000))\<rparr>) gd;
         gd = part_stat_upd part cpu (\<lambda>s. s\<lparr>time_in_queue := time_in_queue s + ucast duration\<rparr>) gd
     in shannon_part_dec_in_flight part cpu rw gd)"

text \<open>\<open>part_stat_read\<close> of the kernel adds up the CPUs.\<close>

definition part_stat_read :: "nat list \<Rightarrow> (disk_stats \<Rightarrow> u64) \<Rightarrow> hd_struct \<Rightarrow> u64" where
  "part_stat_read cpus fld part = fold (\<lambda>cpu res. res + fld (bd_stats part cpu)) cpus 0"

definition shannon_read_sectors_5_0 :: "nat list \<Rightarrow> gendisk option \<Rightarrow> u64" where
  "shannon_read_sectors_5_0 cpus gd = (case gd of None \<Rightarrow> 0 | Some d \<Rightarrow> part_stat_read cpus (\<lambda>s. sectors s READ) (d 0))"

definition shannon_write_sectors_5_0 :: "nat list \<Rightarrow> gendisk option \<Rightarrow> u64" where
  "shannon_write_sectors_5_0 cpus gd = (case gd of None \<Rightarrow> 0 | Some d \<Rightarrow> part_stat_read cpus (\<lambda>s. sectors s WRITE) (d 0))"

definition shannon_read_ios_5_0 :: "nat list \<Rightarrow> gendisk option \<Rightarrow> u64" where
  "shannon_read_ios_5_0 cpus gd = (case gd of None \<Rightarrow> 0 | Some d \<Rightarrow> part_stat_read cpus (\<lambda>s. ios s READ) (d 0))"

definition shannon_write_ios_5_0 :: "nat list \<Rightarrow> gendisk option \<Rightarrow> u64" where
  "shannon_write_ios_5_0 cpus gd = (case gd of None \<Rightarrow> 0 | Some d \<Rightarrow> part_stat_read cpus (\<lambda>s. ios s WRITE) (d 0))"

definition shannon_read_msecs_5_0 :: "nat list \<Rightarrow> gendisk option \<Rightarrow> u64" where
  "shannon_read_msecs_5_0 cpus gd =
    (case gd of None \<Rightarrow> 0 | Some d \<Rightarrow> part_stat_read cpus (\<lambda>s. nsecs s READ) (d 0) div 1000000)"

definition shannon_write_msecs_5_0 :: "nat list \<Rightarrow> gendisk option \<Rightarrow> u64" where
  "shannon_write_msecs_5_0 cpus gd =
    (case gd of None \<Rightarrow> 0 | Some d \<Rightarrow> part_stat_read cpus (\<lambda>s. nsecs s WRITE) (d 0) div 1000000)"

section \<open>Sums over the CPUs\<close>

definition cpu_total :: "nat list \<Rightarrow> (disk_stats \<Rightarrow> u64) \<Rightarrow> gendisk \<Rightarrow> nat \<Rightarrow> u64" where
  "cpu_total cpus fld gd part = sum_list (map (\<lambda>cpu. fld (bd_stats (gd part) cpu)) cpus)"

lemma fold_add_sum: "fold (\<lambda>c r. r + f c) xs a = a + sum_list (map f xs)" for a :: "'a :: comm_monoid_add"
  by (induction xs arbitrary: a) (auto simp: ac_simps)

lemma part_stat_read_total: "part_stat_read cpus fld (gd p) = cpu_total cpus fld gd p"
  by (simp add: part_stat_read_def cpu_total_def fold_add_sum)

lemma ucast_down_add: "(ucast (x + y) :: u32) = ucast x + ucast y" for x y :: u64
proof -
  have "take_bit 32 (take_bit 64 a + take_bit 64 b) = take_bit 32 (a + b)" for a b :: int
    using take_bit_add [of 32 "take_bit 64 a" "take_bit 64 b"] take_bit_add [of 32 a b] by simp
  then show ?thesis by transfer simp
qed

lemma ucast_down_up: "(ucast (ucast x :: u64) :: u32) = x" for x :: u32
  by transfer simp

lemma disk_in_flight_total:
  "shannon_disk_in_flight cpus gd =
    (let n = ucast (cpu_total cpus (\<lambda>s. in_flight s 0) gd 0 + cpu_total cpus (\<lambda>s. in_flight s 1) gd 0) :: u32
     in if sint n < 0 then 0 else sint n)"
proof -
  have "fold (\<lambda>cpu inflight :: u32. ucast (ucast inflight + (f cpu + g cpu :: u64))) xs a =
      a + ucast (sum_list (map f xs) + sum_list (map g xs))" for f g :: "nat \<Rightarrow> u64" and xs a
    by (induction xs arbitrary: a) (simp_all add: ucast_down_add ucast_down_up ac_simps)
  then show ?thesis by (simp add: shannon_disk_in_flight_def cpu_total_def Let_def)
qed

lemma disk_in_flight_copies: "shannon_disk_in_flight_5_15 cpus gd = shannon_disk_in_flight cpus gd"
  by (simp only: shannon_disk_in_flight_5_15_def shannon_disk_in_flight_def)

lemma disk_in_flight_5_8_total:
  "shannon_disk_in_flight_5_8 cpus gd =
    (if cpu_total cpus (\<lambda>s. in_flight s 0) gd 0 + cpu_total cpus (\<lambda>s. in_flight s 1) gd 0 \<noteq> 0 then 1 else 0)"
proof -
  have "fold (\<lambda>cpu sum :: u64. sum + f cpu + g cpu) xs a = a + (sum_list (map f xs) + sum_list (map g xs))"
    for f g :: "nat \<Rightarrow> u64" and xs a by (induction xs arbitrary: a) (simp_all add: ac_simps)
  then show ?thesis by (simp add: shannon_disk_in_flight_5_8_def cpu_total_def)
qed

text \<open>An update of one CPU's counters shows in the sum of its partition only.\<close>

lemma sum_list_upd:
  fixes F :: "nat \<Rightarrow> u64"
  assumes "distinct xs" "c \<in> set xs" "F c = G c + d" "\<And>x. x \<noteq> c \<Longrightarrow> F x = G x"
  shows "sum_list (map F xs) = sum_list (map G xs) + d"
proof -
  have "sum_list (map F (remove1 c xs)) = sum_list (map G (remove1 c xs))"
    using assms(1,4) by (intro arg_cong [where f = sum_list]) auto
  moreover have "sum_list (map H xs) = H c + sum_list (map H (remove1 c xs))" for H :: "nat \<Rightarrow> u64"
    using assms(2) by (rule sum_list_map_remove1)
  ultimately show ?thesis using assms(3) by simp
qed

lemma total_upd:
  assumes "distinct cpus" "cpu \<in> set cpus" "\<And>s. fld (f s) = fld s + d"
  shows "cpu_total cpus fld (upd_stats part cpu f gd) p = cpu_total cpus fld gd p + (if p = part then d else 0)"
  unfolding cpu_total_def
  by (rule sum_list_upd [OF assms(1,2)]) (use assms(3) in \<open>auto simp: upd_stats_def\<close>)

lemma total_part_upd:
  assumes "distinct cpus" "cpu \<in> set cpus" "\<And>s. fld (f s) = fld s + d"
  shows "cpu_total cpus fld (part_stat_upd part cpu f gd) p = cpu_total cpus fld gd p + (if p = part \<or> p = 0 then d else 0)"
  using total_upd [where fld = fld and f = f and d = d, OF assms] by (auto simp: part_stat_upd_def Let_def)

lemma total_stamp: "cpu_total cpus fld (gd(part := (gd part)\<lparr>hd_stamp := t\<rparr>)) p = cpu_total cpus fld gd p"
  by (simp add: cpu_total_def)

lemma total_io_ticks:
  assumes "distinct cpus" "cpu \<in> set cpus" and fld: "\<And>s t. fld (s\<lparr>io_ticks := t\<rparr>) = fld s"
  shows "cpu_total cpus fld (shannon_update_io_ticks won cpu part now gd) p = cpu_total cpus fld gd p"
proof -
  have upd: "cpu_total cpus fld (upd_stats q cpu (\<lambda>s. s\<lparr>io_ticks := io_ticks s + 1\<rparr>) (g(q := (g q)\<lparr>hd_stamp := now\<rparr>))) p =
      cpu_total cpus fld g p" for q g
    using total_upd [OF assms(1,2), where d = 0] fld by (simp add: total_stamp del: fun_upd_apply)
  have zero: "cpu_total cpus fld (shannon_update_io_ticks won cpu 0 now g) p = cpu_total cpus fld g p" for g
    by (simp add: shannon_update_io_ticks.simps [of _ _ 0] upd del: fun_upd_apply)
  show ?thesis
    by (cases "part = 0") (simp_all add: zero shannon_update_io_ticks.simps [of _ _ part] upd del: fun_upd_apply)
qed

lemma in_flight_upds:
  "shannon_part_inc_in_flight part cpu rw = part_stat_upd part cpu (\<lambda>s. s\<lparr>in_flight := (in_flight s)(rw := in_flight s rw + 1)\<rparr>)"
  "shannon_part_dec_in_flight part cpu rw = part_stat_upd part cpu (\<lambda>s. s\<lparr>in_flight := (in_flight s)(rw := in_flight s rw - 1)\<rparr>)"
  by (rule ext, simp add: shannon_part_inc_in_flight_def shannon_part_dec_in_flight_def part_stat_upd_def Let_def)+

text \<open>The effect of the two calls on the sum of any counter, from what each of their steps adds to it.\<close>

lemma start_total:
  assumes cpu: "distinct cpus" "ae_cpu env \<in> set cpus"
    and tick: "\<And>s t. fld (s\<lparr>io_ticks := t\<rparr>) = fld s"
    and da: "\<And>s. fld (s\<lparr>ios := (ios s)(ab_rw bio := ios s (ab_rw bio) + 1)\<rparr>) = fld s + da"
    and db: "\<And>s. fld (s\<lparr>sectors := (sectors s)(ab_rw bio := sectors s (ab_rw bio) + ab_sectors bio)\<rparr>) = fld s + db"
    and dc: "\<And>s. fld (s\<lparr>in_flight := (in_flight s)(ab_rw bio := in_flight s (ab_rw bio) + 1)\<rparr>) = fld s + dc"
  shows "cpu_total cpus fld (snd (shannon_start_io_acct_5_0 dms env bio gd)) p =
    cpu_total cpus fld gd p + (if p = dms (ab_sector bio) \<or> p = 0 then da + db + dc else 0)"
  by (simp add: shannon_start_io_acct_5_0_def Let_def in_flight_upds total_io_ticks [where fld = fld, OF cpu tick]
      total_part_upd [where fld = fld, OF cpu da] total_part_upd [where fld = fld, OF cpu db]
      total_part_upd [where fld = fld, OF cpu dc])

lemma end_total:
  assumes cpu: "distinct cpus" "ae_cpu env \<in> set cpus"
    and tick: "\<And>s t. fld (s\<lparr>io_ticks := t\<rparr>) = fld s"
    and da: "\<And>s x. fld (s\<lparr>nsecs := x\<rparr>) = fld s + 0"
    and db: "\<And>s x. fld (s\<lparr>time_in_queue := x\<rparr>) = fld s + 0"
    and dc: "\<And>s. fld (s\<lparr>in_flight := (in_flight s)(ab_rw bio := in_flight s (ab_rw bio) - 1)\<rparr>) = fld s + dc"
  shows "cpu_total cpus fld (shannon_end_io_acct_5_0 dms env bio t gd) p =
    cpu_total cpus fld gd p + (if p = dms (ab_sector bio) \<or> p = 0 then dc else 0)"
  by (simp add: shannon_end_io_acct_5_0_def Let_def in_flight_upds total_io_ticks [where fld = fld, OF cpu tick]
      total_part_upd [where fld = fld, OF cpu da] total_part_upd [where fld = fld, OF cpu db]
      total_part_upd [where fld = fld, OF cpu dc])

lemma start_in_flight:
  assumes "distinct cpus" "ae_cpu env \<in> set cpus"
  shows "cpu_total cpus (\<lambda>s. in_flight s r) (snd (shannon_start_io_acct_5_0 dms env bio gd)) p =
    cpu_total cpus (\<lambda>s. in_flight s r) gd p + (if (p = dms (ab_sector bio) \<or> p = 0) \<and> r = ab_rw bio then 1 else 0)"
  by (subst start_total [where da = 0 and db = 0 and dc = "if r = ab_rw bio then 1 else 0", OF assms]) auto

lemma start_ios:
  assumes "distinct cpus" "ae_cpu env \<in> set cpus"
  shows "cpu_total cpus (\<lambda>s. ios s r) (snd (shannon_start_io_acct_5_0 dms env bio gd)) p =
    cpu_total cpus (\<lambda>s. ios s r) gd p + (if (p = dms (ab_sector bio) \<or> p = 0) \<and> r = ab_rw bio then 1 else 0)"
  by (subst start_total [where dc = 0 and db = 0 and da = "if r = ab_rw bio then 1 else 0", OF assms]) auto

lemma start_sectors:
  assumes "distinct cpus" "ae_cpu env \<in> set cpus"
  shows "cpu_total cpus (\<lambda>s. sectors s r) (snd (shannon_start_io_acct_5_0 dms env bio gd)) p =
    cpu_total cpus (\<lambda>s. sectors s r) gd p + (if (p = dms (ab_sector bio) \<or> p = 0) \<and> r = ab_rw bio then ab_sectors bio else 0)"
  by (subst start_total [where da = 0 and dc = 0 and db = "if r = ab_rw bio then ab_sectors bio else 0", OF assms]) auto

lemma end_in_flight:
  assumes "distinct cpus" "ae_cpu env \<in> set cpus"
  shows "cpu_total cpus (\<lambda>s. in_flight s r) (shannon_end_io_acct_5_0 dms env bio t gd) p =
    cpu_total cpus (\<lambda>s. in_flight s r) gd p - (if (p = dms (ab_sector bio) \<or> p = 0) \<and> r = ab_rw bio then 1 else 0)"
  by (subst end_total [where dc = "if r = ab_rw bio then - 1 else 0", OF assms]) auto

lemma end_ios_sectors:
  assumes "distinct cpus" "ae_cpu env \<in> set cpus"
  shows "cpu_total cpus (\<lambda>s. ios s r) (shannon_end_io_acct_5_0 dms env bio t gd) p = cpu_total cpus (\<lambda>s. ios s r) gd p"
    and "cpu_total cpus (\<lambda>s. sectors s r) (shannon_end_io_acct_5_0 dms env bio t gd) p = cpu_total cpus (\<lambda>s. sectors s r) gd p"
  by (subst end_total [where dc = 0, OF assms]; simp)+

section \<open>Runs\<close>

text \<open>The I/Os of a disk start and end on any CPU in any order; an I/O ends only after it started. \<open>pending\<close> are those
  started and not ended, \<open>started\<close> all that started.\<close>

definition fresh_disk :: "(nat \<Rightarrow> u64) \<Rightarrow> gendisk" where
  "fresh_disk stamp = (\<lambda>part. \<lparr>bd_stats = (\<lambda>_. zero_stats), hd_stamp = stamp part\<rparr>)"

inductive acct_run :: "nat list \<Rightarrow> (nat \<Rightarrow> nat) \<Rightarrow> gendisk \<Rightarrow> acct_bio multiset \<Rightarrow> acct_bio list \<Rightarrow> bool"
  for cpus :: "nat list" and dms :: "nat \<Rightarrow> nat" where
  acct_fresh: "acct_run cpus dms (fresh_disk stamp) {#} []"
| acct_start: "acct_run cpus dms gd pending started \<Longrightarrow> ae_cpu env \<in> set cpus \<Longrightarrow> ab_rw bio \<in> {READ, WRITE} \<Longrightarrow>
    acct_run cpus dms (snd (shannon_start_io_acct_5_0 dms env bio gd)) (add_mset bio pending) (bio # started)"
| acct_end: "acct_run cpus dms gd pending started \<Longrightarrow> ae_cpu env \<in> set cpus \<Longrightarrow> bio \<in># pending \<Longrightarrow>
    acct_run cpus dms (shannon_end_io_acct_5_0 dms env bio t gd) (pending - {#bio#}) started"

text \<open>The I/Os that count for a partition and a direction.\<close>

definition counts_for :: "(nat \<Rightarrow> nat) \<Rightarrow> nat \<Rightarrow> nat \<Rightarrow> acct_bio \<Rightarrow> bool" where
  "counts_for dms p r b \<longleftrightarrow> (p = dms (ab_sector b) \<or> p = 0) \<and> r = ab_rw b"

lemma acct_run_totals:
  assumes "acct_run cpus dms gd pending started" "distinct cpus"
  shows "cpu_total cpus (\<lambda>s. in_flight s r) gd p = of_nat (size (filter_mset (counts_for dms p r) pending))"
    and "cpu_total cpus (\<lambda>s. ios s r) gd p = of_nat (length (filter (counts_for dms p r) started))"
    and "cpu_total cpus (\<lambda>s. sectors s r) gd p = sum_list (map ab_sectors (filter (counts_for dms p r) started))"
  using assms
proof (induction)
  case (acct_fresh stamp)
  { case 1 then show ?case by (simp add: cpu_total_def fresh_disk_def zero_stats_def) }
  { case 2 then show ?case by (simp add: cpu_total_def fresh_disk_def zero_stats_def) }
  { case 3 then show ?case by (simp add: cpu_total_def fresh_disk_def zero_stats_def) }
next
  case (acct_start gd pending started env bio)
  { case 1 then show ?case using acct_start by (simp add: start_in_flight counts_for_def) }
  { case 2 then show ?case using acct_start by (simp add: start_ios counts_for_def) }
  { case 3 then show ?case using acct_start by (simp add: start_sectors counts_for_def) }
next
  case (acct_end gd pending started env bio t)
  { case 1
    from acct_end(3) obtain rest where "pending = add_mset bio rest" by (metis multi_member_split)
    then show ?case using 1 acct_end by (simp add: end_in_flight counts_for_def) }
  { case 2 then show ?case using acct_end by (simp add: end_ios_sectors) }
  { case 3 then show ?case using acct_end by (simp add: end_ios_sectors) }
qed

lemma acct_run_dir: "acct_run cpus dms gd pending started \<Longrightarrow> b \<in># pending \<Longrightarrow> ab_rw b \<in> {READ, WRITE}"
  by (induction rule: acct_run.induct) (auto dest: in_diffD)

section \<open>Properties\<close>

lemma pending_in_flight:
  assumes run: "acct_run cpus dms gd pending started" and cpus: "distinct cpus"
  shows "cpu_total cpus (\<lambda>s. in_flight s 0) gd 0 + cpu_total cpus (\<lambda>s. in_flight s 1) gd 0 = of_nat (size pending)"
proof -
  have "filter_mset (counts_for dms 0 1) pending = filter_mset (\<lambda>b. \<not> counts_for dms 0 0 b) pending"
    using acct_run_dir [OF run] by (intro filter_mset_cong) (fastforce simp: counts_for_def READ_def WRITE_def)+
  then have "size pending = size (filter_mset (counts_for dms 0 0) pending) + size (filter_mset (counts_for dms 0 1) pending)"
    by (metis multiset_partition size_union)
  then show ?thesis using acct_run_totals(1) [OF run cpus] by simp
qed

text \<open>C20 (invariant). The driver's own accounting is exact whatever CPUs the I/Os start and end on and however they interleave:
  the number of I/Os in flight is the number started and not ended, and the I/O and sector counters are the
  numbers of all that started, by direction, although a single CPU's counter may wrap below zero.\<close>

theorem io_accounting_exact:
  assumes "acct_run cpus dms gd pending started" "distinct cpus" "size pending < 2 ^ 31"
  shows "shannon_disk_in_flight cpus gd = int (size pending)
    \<and> shannon_read_ios_5_0 cpus (Some gd) = of_nat (length (filter (\<lambda>b. ab_rw b = READ) started))
    \<and> shannon_write_ios_5_0 cpus (Some gd) = of_nat (length (filter (\<lambda>b. ab_rw b = WRITE) started))
    \<and> shannon_read_sectors_5_0 cpus (Some gd) = sum_list (map ab_sectors (filter (\<lambda>b. ab_rw b = READ) started))
    \<and> shannon_write_sectors_5_0 cpus (Some gd) = sum_list (map ab_sectors (filter (\<lambda>b. ab_rw b = WRITE) started))"
proof -
  have "(ucast (of_nat n :: u64) :: u32) = of_nat n" for n
    by transfer (simp add: take_bit_of_nat)
  moreover have "sint (of_nat (size pending) :: u32) = int (size pending)"
    using assms(3) by (simp only: signed_of_nat) (simp add: signed_take_bit_int_eq_self)
  ultimately have "shannon_disk_in_flight cpus gd = int (size pending)"
    using pending_in_flight [OF assms(1,2)] by (simp add: disk_in_flight_total)
  moreover have "counts_for dms 0 r = (\<lambda>b. ab_rw b = r)" for r by (auto simp: counts_for_def)
  ultimately show ?thesis
    using acct_run_totals(2,3) [OF assms(1,2), where p = 0]
    by (simp add: shannon_read_ios_5_0_def shannon_write_ios_5_0_def shannon_read_sectors_5_0_def
        shannon_write_sectors_5_0_def part_stat_read_total)
qed

theorem io_accounting_exact_witness:
  "let env = (\<lambda>cpu t. \<lparr>ae_cpu = cpu, ae_now = t, ae_now2 = t, ae_won = (\<lambda>_. True), jiffies_to_usecs = (\<lambda>j. ucast j * 1000)\<rparr>);
       dms = (\<lambda>sector. if sector < 100 then 1 else 2);
       b1 = \<lparr>ab_rw = READ, ab_sector = 8, ab_sectors = 16\<rparr>; b2 = \<lparr>ab_rw = READ, ab_sector = 200, ab_sectors = 8\<rparr>;
       gd = snd (shannon_start_io_acct_5_0 dms (env 0 5) b1 (fresh_disk (\<lambda>_. 0)));
       gd = snd (shannon_start_io_acct_5_0 dms (env 1 6) b2 gd);
       gd = shannon_end_io_acct_5_0 dms (env 1 7) b1 5 gd
   in shannon_disk_in_flight [0, 1] gd = 1 \<and> shannon_read_ios_5_0 [0, 1] (Some gd) = 2 \<and>
      shannon_read_sectors_5_0 [0, 1] (Some gd) = 24"
proof -
  define env where "env = (\<lambda>cpu t. \<lparr>ae_cpu = cpu, ae_now = t, ae_now2 = t, ae_won = (\<lambda>_ :: nat. True),
    jiffies_to_usecs = (\<lambda>j :: u64. ucast j * 1000 :: u32)\<rparr>)"
  define dms where "dms = (\<lambda>sector :: nat. if sector < 100 then 1 else 2 :: nat)"
  define b1 b2 where "b1 = \<lparr>ab_rw = READ, ab_sector = 8, ab_sectors = 16\<rparr>" and
    "b2 = \<lparr>ab_rw = READ, ab_sector = 200, ab_sectors = 8\<rparr>"
  define gd where "gd = shannon_end_io_acct_5_0 dms (env 1 7) b1 5
    (snd (shannon_start_io_acct_5_0 dms (env 1 6) b2 (snd (shannon_start_io_acct_5_0 dms (env 0 5) b1 (fresh_disk (\<lambda>_. 0))))))"
  have "acct_run [0, 1] dms gd ({#b2, b1#} - {#b1#}) [b2, b1]"
    unfolding gd_def by (intro acct_end acct_start acct_fresh) (simp_all add: env_def b1_def b2_def)
  then have "shannon_disk_in_flight [0, 1] gd = 1 \<and> shannon_read_ios_5_0 [0, 1] (Some gd) = 2 \<and>
      shannon_read_sectors_5_0 [0, 1] (Some gd) = 24"
    using io_accounting_exact [of "[0, 1]" dms gd "{#b2#}" "[b2, b1]"] by (simp add: b1_def b2_def)
  then show ?thesis by (simp add: gd_def env_def dms_def b1_def b2_def)
qed

text \<open>On kernels 5.7 to 5.14 the same question is answered with 0 or 1.\<close>

lemma in_flight_5_8_is_flag:
  assumes "acct_run cpus dms gd pending started" "distinct cpus" "size pending < 2 ^ 31"
  shows "shannon_disk_in_flight_5_8 cpus gd = (if pending = {#} then 0 else 1)"
proof -
  have n: "unat (of_nat (size pending) :: u64) = size pending"
    using assms(3) by (simp add: unsigned_of_nat take_bit_nat_eq_self)
  have "(of_nat (size pending) :: u64) = 0 \<longleftrightarrow> pending = {#}"
    by (simp only: unat_eq_zero [symmetric] n size_eq_0_iff_empty)
  then show ?thesis using pending_in_flight [OF assms(1,2)] by (simp add: disk_in_flight_5_8_total)
qed

text \<open>The readers of kernels from 5.15 on, which copy all counters of all CPUs, give the sums the older ones read directly.\<close>

lemma add_groups_fields:
  assumes "g < NR_STAT_GROUPS"
  shows "sectors (add_groups ptr stat) g = sectors stat g + sectors ptr g"
    and "ios (add_groups ptr stat) g = ios stat g + ios ptr g"
    and "nsecs (add_groups ptr stat) g = nsecs stat g + nsecs ptr g"
proof -
  have "g = 0 \<or> g = 1 \<or> g = 2 \<or> g = 3" using assms by (auto simp: NR_STAT_GROUPS_def)
  then show "sectors (add_groups ptr stat) g = sectors stat g + sectors ptr g"
    and "ios (add_groups ptr stat) g = ios stat g + ios ptr g"
    and "nsecs (add_groups ptr stat) g = nsecs stat g + nsecs ptr g"
    by (auto simp: add_groups_def NR_STAT_GROUPS_def upt_conv_Cons)
qed

lemma read_all_fields:
  assumes g: "g < NR_STAT_GROUPS"
  shows "sectors (part_stat_read_all cpus part) g = part_stat_read cpus (\<lambda>s. sectors s g) part"
    and "ios (part_stat_read_all cpus part) g = part_stat_read cpus (\<lambda>s. ios s g) part"
    and "nsecs (part_stat_read_all cpus part) g = part_stat_read cpus (\<lambda>s. nsecs s g) part"
proof -
  let ?F = "fold (\<lambda>cpu stat. (add_groups (bd_stats part cpu) stat)\<lparr>io_ticks :=
    io_ticks (add_groups (bd_stats part cpu) stat) + io_ticks (bd_stats part cpu)\<rparr>) cpus"
  have "sectors (?F st) g = sectors st g + sum_list (map (\<lambda>c. sectors (bd_stats part c) g) cpus)
     \<and> ios (?F st) g = ios st g + sum_list (map (\<lambda>c. ios (bd_stats part c) g) cpus)
     \<and> nsecs (?F st) g = nsecs st g + sum_list (map (\<lambda>c. nsecs (bd_stats part c) g) cpus)" for st
    by (induction cpus arbitrary: st) (auto simp: add_groups_fields [OF g] ac_simps)
  then show "sectors (part_stat_read_all cpus part) g = part_stat_read cpus (\<lambda>s. sectors s g) part"
    and "ios (part_stat_read_all cpus part) g = part_stat_read cpus (\<lambda>s. ios s g) part"
    and "nsecs (part_stat_read_all cpus part) g = part_stat_read cpus (\<lambda>s. nsecs s g) part"
    by (simp_all add: part_stat_read_all_def part_stat_read_def zero_stats_def Let_def fold_add_sum)
qed

lemma readers_agree:
  "shannon_read_sectors cpus gd = shannon_read_sectors_5_0 cpus gd"
  "shannon_write_sectors cpus gd = shannon_write_sectors_5_0 cpus gd"
  "shannon_read_ios cpus gd = shannon_read_ios_5_0 cpus gd"
  "shannon_write_ios cpus gd = shannon_write_ios_5_0 cpus gd"
  "shannon_read_msecs cpus gd = shannon_read_msecs_5_0 cpus gd"
  "shannon_write_msecs cpus gd = shannon_write_msecs_5_0 cpus gd"
  by (cases gd; simp add: shannon_read_sectors_def shannon_read_sectors_5_0_def shannon_write_sectors_def
      shannon_write_sectors_5_0_def shannon_read_ios_def shannon_read_ios_5_0_def shannon_write_ios_def shannon_write_ios_5_0_def
      shannon_read_msecs_def shannon_read_msecs_5_0_def shannon_write_msecs_def shannon_write_msecs_5_0_def
      read_all_fields NR_STAT_GROUPS_def READ_def WRITE_def)+

text \<open>The time of an I/O of 4.3 seconds (4300 jiffies of a millisecond) is recorded as 5.0 milliseconds: the product in
  nanoseconds does not fit 32 bits.\<close>

lemma long_io_time_wraps:
  "nsecs (bd_stats (shannon_end_io_acct_5_0 (\<lambda>_. 0)
      \<lparr>ae_cpu = 0, ae_now = 4300, ae_now2 = 4300, ae_won = (\<lambda>_. True), jiffies_to_usecs = (\<lambda>j. ucast j * 1000)\<rparr>
      \<lparr>ab_rw = READ, ab_sector = 0, ab_sectors = 8\<rparr> 0 (fresh_disk (\<lambda>_. 0)) 0) 0) READ = 5032704"
  by (simp add: shannon_end_io_acct_5_0_def Let_def shannon_update_io_ticks.simps shannon_part_dec_in_flight_def
      part_stat_upd_def upd_stats_def fresh_disk_def zero_stats_def)

text \<open>Device numbers are taken apart as they were put together, for a major number of 12 and a minor number of 20 bits.\<close>

lemma mkdev_roundtrip:
  assumes "ma < 2 ^ 12" "mi < 2 ^ 20"
  shows "SHANNON_MAJOR (SHANNON_MKDEV ma mi) = ma" "SHANNON_MINOR (SHANNON_MKDEV ma mi) = mi"
proof -
  have ma: "take_bit 12 ma = ma" and mi: "take_bit 20 mi = mi"
    using assms by (auto intro!: unsigned_word_eqI [where 'a = nat] simp: unsigned_take_bit_eq take_bit_nat_eq_self word_less_nat_alt)
  have m: "push_bit 20 1 - 1 = (mask 20 :: u32)" by (simp add: mask_eq_exp_minus_1)
  have mi': "\<not> bit mi n" if "20 \<le> n" for n by (metis bit_take_bit_iff mi not_le that)
  have ma': "bit ma n \<Longrightarrow> n < 12" for n by (metis bit_take_bit_iff ma)
  show "SHANNON_MAJOR (SHANNON_MKDEV ma mi) = ma"
  proof (rule bit_word_eqI)
    fix n
    show "bit (SHANNON_MAJOR (SHANNON_MKDEV ma mi)) n \<longleftrightarrow> bit ma n"
      using ma' [of n] mi' [of "n + 20"] by (auto simp: SHANNON_MAJOR_def SHANNON_MKDEV_def MINORBITS_def bit_simps add.commute)
  qed
  show "SHANNON_MINOR (SHANNON_MKDEV ma mi) = mi"
    unfolding SHANNON_MINOR_def MINORBITS_def m
    by (rule bit_word_eqI) (use mi' in \<open>auto simp: SHANNON_MKDEV_def MINORBITS_def bit_simps not_le [symmetric]\<close>)
qed

end
