(* ===== verification/Sysfs.thy ===== *)
theory Sysfs
  imports Prelude "HOL-Library.Multiset"
begin

text \<open>
  The sysfs interface (\<^verbatim>\<open>shannon_sysfs.c\<close>): the attributes of a device, of its PCI data, of a namespace and of a pool with
  the tables that list them, the dispatch of reads and writes to the handlers, and the registration of directories, links
  and hwmon files. The handlers are in the precompiled core and arguments here; so are the return values of the kernel's
  registration functions, whose effect on success is a change of the tree of directories.
\<close>

section \<open>Attributes\<close>

text \<open>An attribute: its name, its mode, and whether it has handlers.\<close>

record attr =
  at_name :: string
  at_mode :: nat
  at_show :: bool
  at_store :: bool

definition S_IRUGO :: nat where "S_IRUGO = 0x124"        \<comment> \<open>0444\<close>
definition MODE_0644 :: nat where "MODE_0644 = 0x1A4"

definition define_one_rw :: "string \<Rightarrow> attr" where
  "define_one_rw name = \<lparr>at_name = name, at_mode = MODE_0644, at_show = True, at_store = True\<rparr>"

text \<open>\<open>__ATTR_RO\<close> has mode 0444 and no store function.\<close>

definition define_one_ro :: "string \<Rightarrow> attr" where
  "define_one_ro name = \<lparr>at_name = name, at_mode = S_IRUGO, at_show = True, at_store = False\<rparr>"

definition define_one_rw_ns :: "string \<Rightarrow> attr" where
  "define_one_rw_ns name = \<lparr>at_name = name, at_mode = MODE_0644, at_show = True, at_store = True\<rparr>"

definition define_one_ro_ns :: "string \<Rightarrow> attr" where
  "define_one_ro_ns name = \<lparr>at_name = name, at_mode = S_IRUGO, at_show = True, at_store = False\<rparr>"

definition define_one_rw_pool :: "string \<Rightarrow> attr" where
  "define_one_rw_pool name = \<lparr>at_name = name, at_mode = MODE_0644, at_show = True, at_store = True\<rparr>"

definition define_one_ro_pool :: "string \<Rightarrow> attr" where
  "define_one_ro_pool name = \<lparr>at_name = name, at_mode = S_IRUGO, at_show = True, at_store = False\<rparr>"

text \<open>A device attribute of hwmon: the kernel sees the generic functions \<open>shannon_device_show\<close> and \<open>shannon_device_store\<close> of
  \<open>da_attr\<close>, which look for the handlers proper.\<close>

record device_attr =
  da_attr :: attr
  da_show :: bool
  da_store :: bool

definition define_one_device_rw :: "string \<Rightarrow> device_attr" where
  "define_one_device_rw name =
    \<lparr>da_attr = \<lparr>at_name = name, at_mode = MODE_0644, at_show = True, at_store = True\<rparr>, da_show = True, da_store = True\<rparr>"

definition define_one_device_ro :: "string \<Rightarrow> device_attr" where
  "define_one_device_ro name =
    \<lparr>da_attr = \<lparr>at_name = name, at_mode = MODE_0644, at_show = True, at_store = True\<rparr>, da_show = True, da_store = False\<rparr>"

section \<open>Dispatch\<close>

text \<open>The result of a read is its return value and the text. \<open>owner\<close> finds the driver object of a directory
  (\<open>to_shannon_dev\<close>, \<open>to_shannon_namespace\<close>, \<open>to_shannon_pool\<close>).\<close>

type_synonym 'o show_fn = "string \<Rightarrow> 'o \<Rightarrow> int \<times> string"
type_synonym 'o store_fn = "string \<Rightarrow> 'o \<Rightarrow> string \<Rightarrow> int"

definition shannon_show :: "(nat \<Rightarrow> 'o) \<Rightarrow> 'o show_fn \<Rightarrow> nat \<Rightarrow> attr \<Rightarrow> int \<times> string" where
  "shannon_show owner show_of kobj a = (let sdev = owner kobj in if at_show a then show_of (at_name a) sdev else (- EIO, []))"

definition shannon_store :: "(nat \<Rightarrow> 'o) \<Rightarrow> 'o store_fn \<Rightarrow> nat \<Rightarrow> attr \<Rightarrow> string \<Rightarrow> int" where
  "shannon_store owner store_of kobj a buf = (let sdev = owner kobj in if at_store a then store_of (at_name a) sdev buf else - EIO)"

text \<open>The directory of the PCI data lies below that of the device.\<close>

definition pci_info_show :: "(nat \<Rightarrow> 'o) \<Rightarrow> (nat \<Rightarrow> nat) \<Rightarrow> 'o show_fn \<Rightarrow> nat \<Rightarrow> attr \<Rightarrow> int \<times> string" where
  "pci_info_show owner parent show_of kobj a =
    (let sdev = owner (parent kobj) in if at_show a then show_of (at_name a) sdev else (- EIO, []))"

definition pci_info_store :: "(nat \<Rightarrow> 'o) \<Rightarrow> (nat \<Rightarrow> nat) \<Rightarrow> 'o store_fn \<Rightarrow> nat \<Rightarrow> attr \<Rightarrow> string \<Rightarrow> int" where
  "pci_info_store owner parent store_of kobj a buf =
    (let sdev = owner (parent kobj) in if at_store a then store_of (at_name a) sdev buf else - EIO)"

definition shannon_show_ns :: "(nat \<Rightarrow> 'o) \<Rightarrow> 'o show_fn \<Rightarrow> nat \<Rightarrow> attr \<Rightarrow> int \<times> string" where
  "shannon_show_ns owner show_of kobj a = (let ns = owner kobj in if at_show a then show_of (at_name a) ns else (- EIO, []))"

definition shannon_store_ns :: "(nat \<Rightarrow> 'o) \<Rightarrow> 'o store_fn \<Rightarrow> nat \<Rightarrow> attr \<Rightarrow> string \<Rightarrow> int" where
  "shannon_store_ns owner store_of kobj a buf = (let ns = owner kobj in if at_store a then store_of (at_name a) ns buf else - EIO)"

definition shannon_show_pool :: "(nat \<Rightarrow> 'o) \<Rightarrow> 'o show_fn \<Rightarrow> nat \<Rightarrow> attr \<Rightarrow> int \<times> string" where
  "shannon_show_pool owner show_of kobj a = (let pool = owner kobj in if at_show a then show_of (at_name a) pool else (- EIO, []))"

definition shannon_store_pool :: "(nat \<Rightarrow> 'o) \<Rightarrow> 'o store_fn \<Rightarrow> nat \<Rightarrow> attr \<Rightarrow> string \<Rightarrow> int" where
  "shannon_store_pool owner store_of kobj a buf =
    (let pool = owner kobj in if at_store a then store_of (at_name a) pool buf else - EIO)"

text \<open>In SCSI mode the driver data of the PCI device is the host, which holds the device.\<close>

definition shannon_device_show ::
    "bool \<Rightarrow> (nat \<Rightarrow> nat) \<Rightarrow> (nat \<Rightarrow> nat) \<Rightarrow> nat show_fn \<Rightarrow> nat \<Rightarrow> device_attr \<Rightarrow> int \<times> string" where
  "shannon_device_show scsi_mode drvdata hostdata_sdev show_of pdev a =
    (let sdev = (if scsi_mode then hostdata_sdev (drvdata pdev) else drvdata pdev)
     in if da_show a then show_of (at_name (da_attr a)) sdev else (- EIO, []))"

definition shannon_device_store ::
    "bool \<Rightarrow> (nat \<Rightarrow> nat) \<Rightarrow> (nat \<Rightarrow> nat) \<Rightarrow> nat store_fn \<Rightarrow> nat \<Rightarrow> device_attr \<Rightarrow> string \<Rightarrow> int" where
  "shannon_device_store scsi_mode drvdata hostdata_sdev store_of pdev a buf =
    (let sdev = (if scsi_mode then hostdata_sdev (drvdata pdev) else drvdata pdev)
     in if da_store a then store_of (at_name (da_attr a)) sdev buf else - EIO)"

section \<open>The tables\<close>

text \<open>For each directory the attributes declared and the table the kernel gets, which lists them by name.\<close>

definition shannon_attrs :: "attr list" where
  "shannon_attrs = [
    define_one_ro ''model'', define_one_ro ''firmware_version'', define_one_ro ''firmware_build'',
    define_one_ro ''driver_version'', define_one_ro ''serial_number'', define_one_ro ''nand_manufacturer'',
    define_one_ro ''nand_flash_id'', define_one_ro ''channels'', define_one_ro ''lunsets_in_channel'',
    define_one_ro ''luns_in_lunset'', define_one_ro ''available_luns'', define_one_ro ''eblocks_in_lun'',
    define_one_ro ''pages_in_eblock'', define_one_ro ''nand_page_size'', define_one_ro ''block_size'',
    define_one_ro ''use_dual_head'', define_one_ro ''power_on_seconds'', define_one_ro ''power_cycle_count'',
    define_one_ro ''user_capacity'', define_one_ro ''physical_capacity'', define_one_ro ''overprovision'',
    define_one_ro ''free_blkcnt'', define_one_ro ''static_bad_blkcnt'', define_one_ro ''dynamic_bad_blkcnt'',
    define_one_ro ''max_err_blocks'', define_one_ro ''reconfig_support'', define_one_ro ''seu_flag'',
    define_one_ro ''seu_crc_error'', define_one_ro ''seu_crc_error_history'', define_one_ro ''seu_ecc_error'',
    define_one_ro ''seu_ecc_error_history'', define_one_ro ''estimated_life_left'',
    define_one_ro ''host_write_sectors'', define_one_ro ''host_write_bandwidth'',
    define_one_ro ''host_write_iops'', define_one_ro ''host_write_latency'', define_one_ro ''total_write_sectors'',
    define_one_ro ''total_write_bandwidth'', define_one_ro ''write_amplifier'',
    define_one_ro ''write_amplifier_lifetime'', define_one_ro ''host_read_sectors'',
    define_one_ro ''host_read_bandwidth'', define_one_ro ''host_read_iops'', define_one_ro ''host_read_latency'',
    define_one_ro ''total_gc_logicbs'', define_one_ro ''total_wl_logicbs'',
    define_one_ro ''total_err_recover_logicbs'', define_one_ro ''temperature_int'',
    define_one_ro ''temperature_int_max'', define_one_ro ''temperature_flash'',
    define_one_ro ''temperature_flash_max'', define_one_ro ''temperature_board'',
    define_one_ro ''temperature_board_max'', define_one_rw ''temperature_warning_threshold'',
    define_one_ro ''voltage_int'', define_one_ro ''voltage_int_max'', define_one_ro ''voltage_aux'',
    define_one_ro ''voltage_aux_max'', define_one_ro ''ecc_failure_times'', define_one_ro ''ecc_statistics'',
    define_one_ro ''device_state'', define_one_ro ''access_mode'', define_one_ro ''readonly_reason'',
    define_one_ro ''reduced_write_reason'', define_one_rw ''pm_qos_value'', define_one_rw ''recover_rate'',
    define_one_rw ''hot_block_reclaim_priority'', define_one_rw ''suspicious_bad_lun_indicator'',
    define_one_rw ''debug_level'', define_one_rw ''shannon_buffer_write'', define_one_rw ''shannon_poll_times'',
    define_one_rw ''read_err_msg_level'', define_one_rw ''wl_debug'', define_one_rw ''err_check_debug'',
    define_one_rw ''read_disturb_threshold'', define_one_rw ''open_block_read_disturb_threshold'',
    define_one_rw ''wl_timer_interval'', define_one_rw ''max_in_wl_logicbs'', define_one_rw ''wl_iops_limit'',
    define_one_rw ''wl_max_erase_count'', define_one_rw ''wl_erase_count_delta_0'',
    define_one_rw ''wl_erase_count_delta_1'', define_one_rw ''fill_chunk_timer_expire'',
    define_one_rw ''first_read_period'', define_one_rw ''first_read_ppa'', define_one_rw ''switch_microcode'',
    define_one_ro ''service_tag'', define_one_ro ''fpga_dna'', define_one_ro ''udid'',
    define_one_ro ''refresh_mbr_count'', define_one_ro ''atomic_write'', define_one_ro ''prioritize_write'',
    define_one_ro ''nonaligned_bios'', define_one_rw ''latency_threshold'',
    define_one_rw ''print_latency_interval'', define_one_rw ''hard_queue_limit'',
    define_one_rw ''cmd_queue_writes_limit'', define_one_ro ''hardware_version'',
    define_one_rw ''ecc_failure_rate_threshold'', define_one_ro ''cps_crc'', define_one_rw ''fast_read'',
    define_one_rw ''drop_cache'', define_one_rw ''prefetch_seqread_threshold'',
    define_one_rw ''prefetch_poll_times_threshold'', define_one_rw ''prefetch_soft_bio_size_threshold'',
    define_one_rw ''prefetch_hard_bio_size_threshold'', define_one_rw ''prefetch_large_block_io_threshold'',
    define_one_rw ''prefetch_distance_factor'', define_one_rw ''prefetch_enable'',
    define_one_rw ''prefetch_traffic_factor'', define_one_rw ''update_irq_delay_interval'',
    define_one_rw ''read_latency_divide'', define_one_rw ''write_latency_divide'',
    define_one_rw ''read_threshold_factor'', define_one_rw ''write_threshold_factor'',
    define_one_rw ''dynamic_irq_delay'', define_one_rw ''irq_delay_factor'', define_one_rw ''min_irq_delay'',
    define_one_rw ''max_irq_delay'', define_one_rw ''discard_large_unit_threshold'',
    define_one_rw ''in_write_chunk_factor'', define_one_rw ''buffer_write_policy'',
    define_one_rw ''data_retention_interval'', define_one_rw ''lun_retiring_threshold'']"

definition shannon_default_attrs :: "string list" where
  "shannon_default_attrs = [
    ''model'', ''firmware_version'', ''firmware_build'', ''driver_version'', ''serial_number'',
    ''nand_manufacturer'', ''nand_flash_id'', ''channels'', ''lunsets_in_channel'', ''luns_in_lunset'',
    ''available_luns'', ''eblocks_in_lun'', ''pages_in_eblock'', ''nand_page_size'', ''block_size'',
    ''use_dual_head'', ''power_on_seconds'', ''power_cycle_count'', ''user_capacity'', ''physical_capacity'',
    ''overprovision'', ''free_blkcnt'', ''static_bad_blkcnt'', ''dynamic_bad_blkcnt'', ''max_err_blocks'',
    ''reconfig_support'', ''seu_flag'', ''seu_crc_error'', ''seu_crc_error_history'', ''seu_ecc_error'',
    ''seu_ecc_error_history'', ''estimated_life_left'', ''host_write_sectors'', ''host_write_bandwidth'',
    ''host_write_iops'', ''host_write_latency'', ''total_write_sectors'', ''total_write_bandwidth'',
    ''write_amplifier'', ''write_amplifier_lifetime'', ''host_read_sectors'', ''host_read_bandwidth'',
    ''host_read_iops'', ''host_read_latency'', ''total_gc_logicbs'', ''total_wl_logicbs'',
    ''total_err_recover_logicbs'', ''temperature_int'', ''temperature_int_max'', ''temperature_flash'',
    ''temperature_flash_max'', ''temperature_board'', ''temperature_board_max'', ''temperature_warning_threshold'',
    ''voltage_int'', ''voltage_int_max'', ''voltage_aux'', ''voltage_aux_max'', ''ecc_failure_times'',
    ''ecc_statistics'', ''device_state'', ''access_mode'', ''readonly_reason'', ''reduced_write_reason'',
    ''pm_qos_value'', ''recover_rate'', ''hot_block_reclaim_priority'', ''suspicious_bad_lun_indicator'',
    ''debug_level'', ''shannon_buffer_write'', ''shannon_poll_times'', ''read_err_msg_level'', ''wl_debug'',
    ''err_check_debug'', ''read_disturb_threshold'', ''open_block_read_disturb_threshold'', ''wl_timer_interval'',
    ''max_in_wl_logicbs'', ''wl_iops_limit'', ''wl_max_erase_count'', ''wl_erase_count_delta_0'',
    ''wl_erase_count_delta_1'', ''fill_chunk_timer_expire'', ''first_read_period'', ''first_read_ppa'',
    ''switch_microcode'', ''service_tag'', ''fpga_dna'', ''udid'', ''refresh_mbr_count'', ''atomic_write'',
    ''prioritize_write'', ''nonaligned_bios'', ''latency_threshold'', ''print_latency_interval'',
    ''hard_queue_limit'', ''cmd_queue_writes_limit'', ''hardware_version'', ''ecc_failure_rate_threshold'',
    ''cps_crc'', ''update_irq_delay_interval'', ''read_latency_divide'', ''write_latency_divide'',
    ''write_threshold_factor'', ''read_threshold_factor'', ''dynamic_irq_delay'', ''irq_delay_factor'',
    ''min_irq_delay'', ''max_irq_delay'', ''fast_read'', ''discard_large_unit_threshold'', ''drop_cache'',
    ''prefetch_seqread_threshold'', ''prefetch_poll_times_threshold'', ''prefetch_soft_bio_size_threshold'',
    ''prefetch_hard_bio_size_threshold'', ''prefetch_large_block_io_threshold'', ''prefetch_distance_factor'',
    ''prefetch_enable'', ''prefetch_traffic_factor'', ''in_write_chunk_factor'', ''buffer_write_policy'',
    ''data_retention_interval'', ''lun_retiring_threshold'']"

definition pci_info_attrs :: "attr list" where
  "pci_info_attrs = [
    define_one_ro ''vendor_id'', define_one_ro ''device_id'', define_one_ro ''subsystem_vendor_id'',
    define_one_ro ''subsystem_device_id'', define_one_ro ''pci_address'', define_one_ro ''pci_class'',
    define_one_ro ''linkcap'', define_one_ro ''linksta'']"

definition pci_info_default_attrs :: "string list" where
  "pci_info_default_attrs = [
    ''vendor_id'', ''device_id'', ''subsystem_vendor_id'', ''subsystem_device_id'', ''pci_address'', ''pci_class'',
    ''linkcap'', ''linksta'']"

definition shannon_ns_attrs :: "attr list" where
  "shannon_ns_attrs = [
    define_one_ro_ns ''host_write_sectors'', define_one_ro_ns ''host_read_sectors'',
    define_one_ro_ns ''valid_sectors'', define_one_ro_ns ''pending_bios'', define_one_ro_ns ''nonaligned_bios'',
    define_one_ro_ns ''seq_num'', define_one_ro_ns ''rmw_list'', define_one_rw_ns ''latency_threshold'',
    define_one_rw_ns ''print_latency_interval'', define_one_ro_ns ''user_defined_name'',
    define_one_rw_ns ''discard_large_unit_threshold'']"

definition shannon_default_ns_attrs :: "string list" where
  "shannon_default_ns_attrs = [
    ''host_write_sectors'', ''host_read_sectors'', ''valid_sectors'', ''pending_bios'', ''nonaligned_bios'',
    ''seq_num'', ''rmw_list'', ''latency_threshold'', ''print_latency_interval'', ''user_defined_name'',
    ''discard_large_unit_threshold'']"

definition shannon_pool_attrs :: "attr list" where
  "shannon_pool_attrs = [
    define_one_ro_pool ''used_space_percentage'', define_one_ro_pool ''physical_capacity'',
    define_one_rw_pool ''overprovision'', define_one_rw_pool ''hard_queue_limit'',
    define_one_rw_pool ''read_cmd_limit'']"

definition shannon_default_pool_attrs :: "string list" where
  "shannon_default_pool_attrs = [
    ''used_space_percentage'', ''physical_capacity'', ''overprovision'', ''hard_queue_limit'', ''read_cmd_limit'']"

definition shannon_device_attrs :: "device_attr list" where
  "shannon_device_attrs = [
    define_one_device_ro ''name'', define_one_device_ro ''temp1_input'', define_one_device_ro ''temp1_label'',
    define_one_device_ro ''temp1_max'', define_one_device_ro ''temp1_crit'', define_one_device_ro ''temp2_input'',
    define_one_device_ro ''temp2_label'', define_one_device_ro ''temp2_max'', define_one_device_ro ''temp2_crit'',
    define_one_device_ro ''temp3_input'', define_one_device_ro ''temp3_label'', define_one_device_ro ''temp3_max'',
    define_one_device_ro ''temp3_crit'']"

definition shannon_hwmon_attrs :: "string list" where
  "shannon_hwmon_attrs = [
    ''name'', ''temp1_input'', ''temp1_label'', ''temp1_max'', ''temp1_crit'', ''temp2_input'', ''temp2_label'',
    ''temp2_max'', ''temp2_crit'', ''temp3_input'', ''temp3_label'', ''temp3_max'', ''temp3_crit'']"

section \<open>Registration\<close>

text \<open>The sysfs tree: what stands under a name in a directory. \<open>kobject_add\<close> makes a directory with the default attributes,
  \<open>kobject_del\<close> removes a directory and what it holds.\<close>

datatype node = Dir nat | Link nat | File attr
type_synonym sysfs = "nat \<times> string \<Rightarrow> node option"

definition kobject_add :: "nat \<Rightarrow> attr list \<Rightarrow> nat \<Rightarrow> string \<Rightarrow> sysfs \<Rightarrow> sysfs" where
  "kobject_add kobj attrs parent name t =
    (\<lambda>(p, n). if (p, n) = (parent, name) then Some (Dir kobj)
      else if p = kobj then map_option File (find (\<lambda>a. at_name a = n) attrs) else t (p, n))"

definition kobject_del :: "nat \<Rightarrow> sysfs \<Rightarrow> sysfs" where
  "kobject_del kobj t = (\<lambda>(p, n). if p = kobj \<or> t (p, n) = Some (Dir kobj) then None else t (p, n))"

text \<open>\<open>r1\<close>, \<open>r2\<close> are what the kernel's registration functions return.\<close>

definition shannon_sysfs_init :: "int \<Rightarrow> int \<Rightarrow> nat \<Rightarrow> nat \<Rightarrow> nat \<Rightarrow> sysfs \<Rightarrow> int \<times> sysfs" where
  "shannon_sysfs_init r1 r2 dev_kobj skobj pci_info t =
    (if r1 \<noteq> 0 then (r1, t)
     else let t = kobject_add skobj shannon_attrs dev_kobj ''shannon'' t
     in if r2 \<noteq> 0 then (r2, kobject_del skobj t)
        else (r2, kobject_add pci_info pci_info_attrs skobj ''pci_info'' t))"

definition shannon_sysfs_exit :: "nat \<Rightarrow> nat \<Rightarrow> sysfs \<Rightarrow> sysfs" where
  "shannon_sysfs_exit skobj pci_info t = kobject_del skobj (kobject_del pci_info t)"

definition shannon_sysfs_link :: "int \<Rightarrow> nat \<Rightarrow> nat \<Rightarrow> sysfs \<Rightarrow> int \<times> sysfs" where
  "shannon_sysfs_link r sdev_kobj skobj t = (r, if r = 0 then t((sdev_kobj, ''shannon'') \<mapsto> Link skobj) else t)"

definition shannon_sysfs_unlink :: "nat \<Rightarrow> sysfs \<Rightarrow> sysfs" where
  "shannon_sysfs_unlink sdev_kobj t = t((sdev_kobj, ''shannon'') := None)"

text \<open>\<open>ns_kobj\<close> is the directory of the namespace's disk.\<close>

definition shannon_sysfs_init_ns :: "int \<Rightarrow> int \<Rightarrow> nat \<Rightarrow> string \<Rightarrow> nat \<Rightarrow> nat \<Rightarrow> sysfs \<Rightarrow> int \<times> sysfs" where
  "shannon_sysfs_init_ns r1 r2 pool_kobj ns_name ns_kobj skobj t =
    (if r1 \<noteq> 0 then (r1, t)
     else let t = kobject_add skobj shannon_ns_attrs ns_kobj ''shannon'' t
     in if r2 \<noteq> 0 then (r2, kobject_del ns_kobj t) else (r2, t((pool_kobj, ns_name) \<mapsto> Link ns_kobj)))"

definition shannon_sysfs_exit_ns :: "nat \<Rightarrow> string \<Rightarrow> nat \<Rightarrow> sysfs \<Rightarrow> sysfs" where
  "shannon_sysfs_exit_ns pool_kobj ns_name skobj t = (kobject_del skobj t)((pool_kobj, ns_name) := None)"

definition shannon_sysfs_init_pool :: "int \<Rightarrow> nat \<Rightarrow> nat \<Rightarrow> sysfs \<Rightarrow> int \<times> sysfs" where
  "shannon_sysfs_init_pool r pool_kobj skobj t =
    (r, if r = 0 then kobject_add skobj shannon_pool_attrs pool_kobj ''shannon'' t else t)"

definition shannon_sysfs_exit_pool :: "nat \<Rightarrow> sysfs \<Rightarrow> sysfs" where
  "shannon_sysfs_exit_pool skobj t = kobject_del skobj t"

section \<open>Files of hwmon\<close>

text \<open>\<open>ret i\<close> is what \<open>device_create_file\<close> returns for the \<open>i\<close>-th attribute. The loop ends with \<open>err\<close> and \<open>i\<close>, which has passed the
  attribute that failed.\<close>

fun hwmon_create :: "(nat \<Rightarrow> int) \<Rightarrow> nat \<Rightarrow> device_attr list \<Rightarrow> nat \<Rightarrow> sysfs \<Rightarrow> int \<times> nat \<times> sysfs" where
  "hwmon_create ret dev [] i t = (0, i, t)"
| "hwmon_create ret dev (a # as) i t =
    (let err = ret i in
     if err \<noteq> 0 then (err, Suc i, t)
     else hwmon_create ret dev as (Suc i) (t((dev, at_name (da_attr a)) \<mapsto> File (da_attr a))))"

definition device_remove_file :: "nat \<Rightarrow> device_attr \<Rightarrow> sysfs \<Rightarrow> sysfs" where
  "device_remove_file dev a t = t((dev, at_name (da_attr a)) := None)"

text \<open>\<open>reg\<close> is the device that registration with hwmon gives, \<open>None\<close> for an error. The result \<open>None\<close> is NULL.\<close>

definition shannon_hwmon_init :: "(nat \<Rightarrow> int) \<Rightarrow> nat option \<Rightarrow> nat \<Rightarrow> sysfs \<Rightarrow> nat option \<times> sysfs" where
  "shannon_hwmon_init ret reg dev t =
    (let (err, i, t) = hwmon_create ret dev shannon_device_attrs 0 t
     in if err \<noteq> 0 then (None, fold (device_remove_file dev) (rev (take i shannon_device_attrs)) t)
        else case reg of
          None \<Rightarrow> (None, fold (device_remove_file dev) shannon_device_attrs t)
        | Some hwmon_dev \<Rightarrow> (Some hwmon_dev, t))"

definition shannon_hwmon_exit :: "nat \<Rightarrow> nat option \<Rightarrow> sysfs \<Rightarrow> sysfs" where
  "shannon_hwmon_exit dev hwmon_dev t =
    (case hwmon_dev of None \<Rightarrow> t | Some _ \<Rightarrow> fold (device_remove_file dev) shannon_device_attrs t)"

section \<open>Tables and declarations\<close>

definition writable :: "attr \<Rightarrow> bool" where "writable a = bit (at_mode a) 7"

text \<open>A table lists every declared attribute exactly once, every attribute can be read, and it may be written according to
  its mode exactly if it has a store function.\<close>

definition table_ok :: "attr list \<Rightarrow> string list \<Rightarrow> bool" where
  "table_ok decls table \<longleftrightarrow> distinct table \<and> mset table = mset (map at_name decls) \<and>
     list_all (\<lambda>a. at_show a \<and> writable a = at_store a) decls"

lemmas define_one_defs = define_one_rw_def define_one_ro_def define_one_rw_ns_def define_one_ro_ns_def define_one_rw_pool_def
  define_one_ro_pool_def define_one_device_ro_def define_one_device_rw_def

lemma writable_define [simp]:
  "writable (define_one_rw n)" "\<not> writable (define_one_ro n)" "writable (define_one_rw_ns n)" "\<not> writable (define_one_ro_ns n)"
  "writable (define_one_rw_pool n)" "\<not> writable (define_one_ro_pool n)"
  by (simp_all add: writable_def define_one_defs MODE_0644_def S_IRUGO_def bit_iff_odd)

lemma define_fields [simp]:
  "at_name (define_one_rw n) = n" "at_show (define_one_rw n)" "at_store (define_one_rw n)"
  "at_name (define_one_ro n) = n" "at_show (define_one_ro n)" "\<not> at_store (define_one_ro n)"
  "at_name (define_one_rw_ns n) = n" "at_show (define_one_rw_ns n)" "at_store (define_one_rw_ns n)"
  "at_name (define_one_ro_ns n) = n" "at_show (define_one_ro_ns n)" "\<not> at_store (define_one_ro_ns n)"
  "at_name (define_one_rw_pool n) = n" "at_show (define_one_rw_pool n)" "at_store (define_one_rw_pool n)"
  "at_name (define_one_ro_pool n) = n" "at_show (define_one_ro_pool n)" "\<not> at_store (define_one_ro_pool n)"
  by (simp_all add: define_one_defs)

lemma distinct_default: "distinct shannon_default_attrs"
  by (simp add: shannon_default_attrs_def)

text \<open>The large table has the order of the declarations but for a few blocks.\<close>

definition slice :: "nat \<Rightarrow> nat \<Rightarrow> 'a list \<Rightarrow> 'a list" where "slice i j xs = take (j - i) (drop i xs)"

lemma default_order:
  "map at_name shannon_attrs = (let T = shannon_default_attrs in
     slice 0 100 T @ slice 109 110 T @ slice 111 120 T @ slice 100 103 T @ slice 104 105 T @ slice 103 104 T @
     slice 105 109 T @ slice 110 111 T @ slice 120 124 T)"
  by (simp add: shannon_attrs_def shannon_default_attrs_def slice_def)

lemma default_slices:
  "shannon_default_attrs = (let T = shannon_default_attrs in
     slice 0 100 T @ slice 100 103 T @ slice 103 104 T @ slice 104 105 T @ slice 105 109 T @ slice 109 110 T @
     slice 110 111 T @ slice 111 120 T @ slice 120 124 T)"
  by (simp add: shannon_default_attrs_def slice_def)

lemma default_table_ok: "table_ok shannon_attrs shannon_default_attrs"
proof -
  have "mset (map at_name shannon_attrs) = mset shannon_default_attrs"
    using arg_cong [OF default_slices, of mset] by (simp only: default_order Let_def mset_append ac_simps)
  moreover have "list_all (\<lambda>a. at_show a \<and> writable a = at_store a) shannon_attrs" by (simp add: shannon_attrs_def)
  ultimately show ?thesis using distinct_default by (simp add: table_ok_def)
qed

lemma small_tables_ok:
  "table_ok pci_info_attrs pci_info_default_attrs" "table_ok shannon_ns_attrs shannon_default_ns_attrs"
  "table_ok shannon_pool_attrs shannon_default_pool_attrs"
  by (simp_all add: table_ok_def pci_info_attrs_def pci_info_default_attrs_def shannon_ns_attrs_def shannon_default_ns_attrs_def
      shannon_pool_attrs_def shannon_default_pool_attrs_def)

lemma hwmon_table: "map (at_name \<circ> da_attr) shannon_device_attrs = shannon_hwmon_attrs" "distinct shannon_hwmon_attrs"
  by (simp_all add: shannon_device_attrs_def shannon_hwmon_attrs_def define_one_device_ro_def)

section \<open>Properties of access\<close>

lemma access_parts:
  shows "a \<in> set shannon_attrs \<Longrightarrow> shannon_show owner show_of kobj a = show_of (at_name a) (owner kobj) \<and>
      shannon_store owner store_of kobj a buf = (if writable a then store_of (at_name a) (owner kobj) buf else - EIO)"
    and "a \<in> set pci_info_attrs \<Longrightarrow> pci_info_show owner parent show_of kobj a = show_of (at_name a) (owner (parent kobj)) \<and>
      pci_info_store owner parent store_of kobj a buf = - EIO"
    and "a \<in> set shannon_ns_attrs \<Longrightarrow> shannon_show_ns owner show_of kobj a = show_of (at_name a) (owner kobj) \<and>
      shannon_store_ns owner store_of kobj a buf = (if writable a then store_of (at_name a) (owner kobj) buf else - EIO)"
    and "a \<in> set shannon_pool_attrs \<Longrightarrow> shannon_show_pool owner show_of kobj a = show_of (at_name a) (owner kobj) \<and>
      shannon_store_pool owner store_of kobj a buf = (if writable a then store_of (at_name a) (owner kobj) buf else - EIO)"
    and "d \<in> set shannon_device_attrs \<Longrightarrow> writable (da_attr d) \<and>
      shannon_device_show scsi drvdata sdev_of show_dev pdev d =
        show_dev (at_name (da_attr d)) (if scsi then sdev_of (drvdata pdev) else drvdata pdev) \<and>
      shannon_device_store scsi drvdata sdev_of store_dev pdev d buf = - EIO"
proof -
  note tables = default_table_ok small_tables_ok
  have ok: "at_show a" "writable a = at_store a"
    if "a \<in> set shannon_attrs \<or> a \<in> set pci_info_attrs \<or> a \<in> set shannon_ns_attrs \<or> a \<in> set shannon_pool_attrs" for a
    using that tables by (auto simp: table_ok_def list_all_iff)
  have pci: "\<not> at_store a" if "a \<in> set pci_info_attrs" for a using that by (auto simp: pci_info_attrs_def)
  show "a \<in> set shannon_attrs \<Longrightarrow> shannon_show owner show_of kobj a = show_of (at_name a) (owner kobj) \<and>
      shannon_store owner store_of kobj a buf = (if writable a then store_of (at_name a) (owner kobj) buf else - EIO)"
    using ok [of a] by (simp add: shannon_show_def shannon_store_def)
  show "a \<in> set pci_info_attrs \<Longrightarrow> pci_info_show owner parent show_of kobj a = show_of (at_name a) (owner (parent kobj)) \<and>
      pci_info_store owner parent store_of kobj a buf = - EIO"
    using ok [of a] pci [of a] by (simp add: pci_info_show_def pci_info_store_def)
  show "a \<in> set shannon_ns_attrs \<Longrightarrow> shannon_show_ns owner show_of kobj a = show_of (at_name a) (owner kobj) \<and>
      shannon_store_ns owner store_of kobj a buf = (if writable a then store_of (at_name a) (owner kobj) buf else - EIO)"
    using ok [of a] by (simp add: shannon_show_ns_def shannon_store_ns_def)
  show "a \<in> set shannon_pool_attrs \<Longrightarrow> shannon_show_pool owner show_of kobj a = show_of (at_name a) (owner kobj) \<and>
      shannon_store_pool owner store_of kobj a buf = (if writable a then store_of (at_name a) (owner kobj) buf else - EIO)"
    using ok [of a] by (simp add: shannon_show_pool_def shannon_store_pool_def)
  show "d \<in> set shannon_device_attrs \<Longrightarrow> writable (da_attr d) \<and>
      shannon_device_show scsi drvdata sdev_of show_dev pdev d =
        show_dev (at_name (da_attr d)) (if scsi then sdev_of (drvdata pdev) else drvdata pdev) \<and>
      shannon_device_store scsi drvdata sdev_of store_dev pdev d buf = - EIO"
    by (auto simp: shannon_device_attrs_def define_one_device_ro_def writable_def MODE_0644_def bit_iff_odd
        shannon_device_show_def shannon_device_store_def)
qed

text \<open>Every table of attributes agrees with the declarations: it lists each declared attribute exactly once, reading
  always reaches the handler of the right object, and writing reaches a handler if the mode allows it and gives
  -EIO otherwise. The hwmon files are the exception: their mode allows writing, which always gives -EIO.\<close>

theorem sysfs_access_total:
  "table_ok shannon_attrs shannon_default_attrs \<and> table_ok pci_info_attrs pci_info_default_attrs \<and>
   table_ok shannon_ns_attrs shannon_default_ns_attrs \<and> table_ok shannon_pool_attrs shannon_default_pool_attrs \<and>
   (\<forall>a \<in> set shannon_attrs. shannon_show owner show_of kobj a = show_of (at_name a) (owner kobj) \<and>
      shannon_store owner store_of kobj a buf = (if writable a then store_of (at_name a) (owner kobj) buf else - EIO)) \<and>
   (\<forall>a \<in> set pci_info_attrs. pci_info_show owner parent show_of kobj a = show_of (at_name a) (owner (parent kobj)) \<and>
      pci_info_store owner parent store_of kobj a buf = - EIO) \<and>
   (\<forall>a \<in> set shannon_ns_attrs. shannon_show_ns owner show_of kobj a = show_of (at_name a) (owner kobj) \<and>
      shannon_store_ns owner store_of kobj a buf = (if writable a then store_of (at_name a) (owner kobj) buf else - EIO)) \<and>
   (\<forall>a \<in> set shannon_pool_attrs. shannon_show_pool owner show_of kobj a = show_of (at_name a) (owner kobj) \<and>
      shannon_store_pool owner store_of kobj a buf = (if writable a then store_of (at_name a) (owner kobj) buf else - EIO)) \<and>
   (\<forall>d \<in> set shannon_device_attrs. writable (da_attr d) \<and>
      shannon_device_show scsi drvdata sdev_of show_dev pdev d =
        show_dev (at_name (da_attr d)) (if scsi then sdev_of (drvdata pdev) else drvdata pdev) \<and>
      shannon_device_store scsi drvdata sdev_of store_dev pdev d buf = - EIO)"
  by (intro conjI ballI default_table_ok small_tables_ok) (blast dest: access_parts)+

theorem sysfs_access_total_witness:
  "shannon_store (\<lambda>k. k + 1) (\<lambda>n ob b. int ob + int (length b)) 4 (define_one_ro ''model'') ''12'' = - EIO \<and>
   shannon_store_ns (\<lambda>k. k + 1) (\<lambda>n ob b. int ob + int (length b)) 4 (define_one_rw_ns ''latency_threshold'') ''12'' = 7"
proof -
  have "define_one_ro ''model'' \<in> set shannon_attrs" by (simp add: shannon_attrs_def)
  moreover have "define_one_rw_ns ''latency_threshold'' \<in> set shannon_ns_attrs" by (simp add: shannon_ns_attrs_def)
  moreover note sysfs_access_total [of "\<lambda>k. k + 1" "\<lambda>n ob. (0, [])" 4 "\<lambda>n ob b. int ob + int (length b)" "''12''"]
  ultimately show ?thesis by (auto dest: bspec)
qed

section \<open>Properties of registration\<close>

definition fresh_kobj :: "nat \<Rightarrow> sysfs \<Rightarrow> bool" where
  "fresh_kobj k t \<longleftrightarrow> (\<forall>n. t (k, n) = None) \<and> (\<forall>x. t x \<noteq> Some (Dir k))"

lemma kobject_add_del:
  assumes "fresh_kobj k t" "t (parent, name) = None" "parent \<noteq> k"
  shows "kobject_del k (kobject_add k attrs parent name t) = t"
  using assms by (auto simp: fun_eq_iff kobject_del_def kobject_add_def fresh_kobj_def split: if_splits)

text \<open>Registering a device either fails and leaves the tree as it was, or makes both directories, and the exit function
  removes them again.\<close>

lemma sysfs_init_exit:
  assumes fresh: "fresh_kobj skobj t" "fresh_kobj pci_info t" "t (dev_kobj, ''shannon'') = None"
    and ne: "skobj \<noteq> pci_info" "dev_kobj \<noteq> skobj" "dev_kobj \<noteq> pci_info"
    and init: "shannon_sysfs_init r1 r2 dev_kobj skobj pci_info t = (ret, t')"
  shows "if ret = 0
    then t' (dev_kobj, ''shannon'') = Some (Dir skobj) \<and> t' (skobj, ''pci_info'') = Some (Dir pci_info) \<and>
      shannon_sysfs_exit skobj pci_info t' = t
    else t' = t"
proof (cases "r1 = 0 \<and> r2 = 0")
  case True
  let ?t1 = "kobject_add skobj shannon_attrs dev_kobj ''shannon'' t"
  have t': "ret = 0" "t' = kobject_add pci_info pci_info_attrs skobj ''pci_info'' ?t1"
    using init True by (auto simp: shannon_sysfs_init_def Let_def)
  have "shannon_sysfs_exit skobj pci_info t' = t"
    unfolding t'(2) shannon_sysfs_exit_def using fresh ne
    by (auto simp: fun_eq_iff kobject_del_def kobject_add_def fresh_kobj_def split: if_splits)
  then show ?thesis using t' ne by (simp add: kobject_add_def)
next
  case False
  then show ?thesis using init fresh ne by (auto simp: shannon_sysfs_init_def Let_def kobject_add_del split: if_splits)
qed

lemma pool_init_exit:
  assumes "fresh_kobj skobj t" "t (pool_kobj, ''shannon'') = None" "pool_kobj \<noteq> skobj"
  shows "shannon_sysfs_exit_pool skobj (snd (shannon_sysfs_init_pool 0 pool_kobj skobj t)) = t"
  using kobject_add_del [OF assms(1,2,3)] by (simp add: shannon_sysfs_exit_pool_def shannon_sysfs_init_pool_def)

lemma ns_init_exit:
  assumes "fresh_kobj skobj t" "t (ns_kobj, ''shannon'') = None" "t (pool_kobj, name) = None" "ns_kobj \<noteq> skobj" "pool_kobj \<noteq> skobj"
    "(pool_kobj, name) \<noteq> (ns_kobj, ''shannon'')"
  shows "shannon_sysfs_exit_ns pool_kobj name skobj (snd (shannon_sysfs_init_ns 0 0 pool_kobj name ns_kobj skobj t)) = t"
  using assms by (auto simp: fun_eq_iff shannon_sysfs_exit_ns_def shannon_sysfs_init_ns_def Let_def kobject_del_def kobject_add_def
      fresh_kobj_def split: if_splits)

text \<open>When the link of a namespace cannot be made, the directory of its disk is removed instead of the one just made.\<close>

lemma ns_link_failure_removes_disk:
  assumes "t (block, disk) = Some (Dir ns_kobj)" "r2 \<noteq> 0" "block \<noteq> skobj" "(block, disk) \<noteq> (ns_kobj, ''shannon'')"
  shows "snd (shannon_sysfs_init_ns 0 r2 pool_kobj name ns_kobj skobj t) (block, disk) = None"
  using assms by (auto simp: shannon_sysfs_init_ns_def Let_def kobject_del_def kobject_add_def)

section \<open>Properties of the hwmon files\<close>

lemma remove_all:
  "fold (device_remove_file dev) ds t =
    (\<lambda>(p, n). if p = dev \<and> n \<in> set (map (at_name \<circ> da_attr) ds) then None else t (p, n))"
  by (induction ds arbitrary: t) (auto simp: fun_eq_iff device_remove_file_def)

text \<open>After the loop exactly the files of the attributes created exist beside what was there.\<close>

lemma hwmon_create_spec:
  assumes "hwmon_create ret dev ds i t = (err, j, t')"
  shows "\<exists>k \<le> length ds. (\<forall>l < k. ret (i + l) = 0) \<and>
    (if err = 0 then k = length ds \<and> j = i + k else k < length ds \<and> j = Suc (i + k) \<and> ret (i + k) = err) \<and>
    (\<forall>p n. (p, n) \<notin> {dev} \<times> set (map (at_name \<circ> da_attr) (take k ds)) \<longrightarrow> t' (p, n) = t (p, n)) \<and>
    (\<forall>n \<in> set (map (at_name \<circ> da_attr) (take k ds)). \<exists>a. t' (dev, n) = Some (File a) \<and> at_name a = n)"
  using assms
proof (induction ds arbitrary: i t)
  case Nil
  then show ?case by simp
next
  case (Cons d ds)
  show ?case
  proof (cases "ret i = 0")
    case False
    then show ?thesis using Cons.prems by (intro exI [of _ 0]) auto
  next
    case True
    let ?t = "t((dev, at_name (da_attr d)) \<mapsto> File (da_attr d))"
    from True Cons.prems have "hwmon_create ret dev ds (Suc i) ?t = (err, j, t')" by simp
    from Cons.IH [OF this] obtain k where k: "k \<le> length ds" "\<forall>l < k. ret (Suc i + l) = 0"
      "if err = 0 then k = length ds \<and> j = Suc i + k else k < length ds \<and> j = Suc (Suc i + k) \<and> ret (Suc i + k) = err"
      "\<forall>p n. (p, n) \<notin> {dev} \<times> set (map (at_name \<circ> da_attr) (take k ds)) \<longrightarrow> t' (p, n) = ?t (p, n)"
      "\<forall>n \<in> set (map (at_name \<circ> da_attr) (take k ds)). \<exists>a. t' (dev, n) = Some (File a) \<and> at_name a = n" by blast
    have "\<forall>l < Suc k. ret (i + l) = 0" using k(2) True by (auto simp: less_Suc_eq_0_disj)
    moreover have "\<exists>a. t' (dev, at_name (da_attr d)) = Some (File a) \<and> at_name a = at_name (da_attr d)"
      using k(4,5) by (cases "at_name (da_attr d) \<in> set (map (at_name \<circ> da_attr) (take k ds))") auto
    ultimately show ?thesis using k by (intro exI [of _ "Suc k"]) (auto split: if_splits)
  qed
qed

text \<open>C37 (error). Registering the hwmon files is all or nothing: when a file or the hwmon device itself cannot be created the
  tree is as it was, otherwise all thirteen files exist and the exit function removes exactly them. This holds when
  none of the names is taken.\<close>

theorem hwmon_all_or_nothing:
  assumes "list_all (\<lambda>n. t (dev, n) = None) shannon_hwmon_attrs"
    and "shannon_hwmon_init ret reg dev t = (h, t')"
  shows "if list_all (\<lambda>i. ret i = 0) [0 ..< 13] \<and> reg \<noteq> None
    then h = reg \<and> list_all (\<lambda>n. \<exists>a. t' (dev, n) = Some (File a) \<and> at_name a = n) shannon_hwmon_attrs \<and>
      shannon_hwmon_exit dev h t' = t
    else h = None \<and> t' = t \<and> shannon_hwmon_exit dev h t' = t"
proof -
  let ?ds = shannon_device_attrs and ?name = "at_name \<circ> da_attr"
  have names: "set (map ?name ?ds) = set shannon_hwmon_attrs" and len: "length ?ds = 13"
    using hwmon_table(1) by (simp, simp add: shannon_device_attrs_def)
  have free: "t (dev, n) = None" if "n \<in> set (map ?name ?ds)" for n
    using assms(1) that unfolding names by (simp add: list_all_iff)
  obtain err j t1 where c: "hwmon_create ret dev ?ds 0 t = (err, j, t1)" by (metis prod_cases3)
  from hwmon_create_spec [OF c, unfolded len add_0] obtain k where k: "k \<le> 13" "\<forall>l < k. ret l = 0"
    "if err = 0 then k = 13 \<and> j = k else k < 13 \<and> j = Suc k \<and> ret k = err"
    "\<forall>p n. (p, n) \<notin> {dev} \<times> set (map ?name (take k ?ds)) \<longrightarrow> t1 (p, n) = t (p, n)"
    "\<forall>n \<in> set (map ?name (take k ?ds)). \<exists>a. t1 (dev, n) = Some (File a) \<and> at_name a = n" by metis
  have undo: "fold (device_remove_file dev) rs t1 = t"
    if "set (map ?name (take k ?ds)) \<subseteq> set (map ?name rs)" "set (map ?name rs) \<subseteq> set (map ?name ?ds)" for rs
    unfolding remove_all using k(4) free that by (auto simp: fun_eq_iff) blast+
  show ?thesis
  proof (cases "err = 0")
    case False
    have "fold (device_remove_file dev) (rev (take j ?ds)) t1 = t"
    proof (rule undo)
      have "set (take k ?ds) \<subseteq> set (take j ?ds)" using k(3) False by (intro set_take_subset_set_take) simp
      then show "set (map ?name (take k ?ds)) \<subseteq> set (map ?name (rev (take j ?ds)))" by auto
      show "set (map ?name (rev (take j ?ds))) \<subseteq> set (map ?name ?ds)" by (auto dest: in_set_takeD)
    qed
    then show ?thesis
      using assms(2) c False k(3) by (auto simp: shannon_hwmon_init_def shannon_hwmon_exit_def list_all_iff)
  next
    case True
    then have all: "k = 13" "\<forall>i \<in> set [0 ..< 13]. ret i = 0" using k by auto
    have "fold (device_remove_file dev) ?ds t1 = t" by (rule undo) (auto dest: in_set_takeD)
    moreover have "\<forall>n \<in> set shannon_hwmon_attrs. \<exists>a. t1 (dev, n) = Some (File a) \<and> at_name a = n"
      using k(5) all(1) len unfolding names [symmetric] by simp
    ultimately show ?thesis
      using assms(2) c True all(2)
      by (auto simp: shannon_hwmon_init_def shannon_hwmon_exit_def list_all_iff split: option.splits)
  qed
qed

theorem hwmon_all_or_nothing_witness:
  "shannon_hwmon_init (\<lambda>i. if i = 5 then - ENOMEM else 0) (Some 9) 3 Map.empty = (None, Map.empty)"
proof -
  obtain h t' where i: "shannon_hwmon_init (\<lambda>i. if i = 5 then - ENOMEM else 0) (Some 9) 3 Map.empty = (h, t')"
    by (metis surj_pair)
  have "list_all (\<lambda>n. (Map.empty :: sysfs) (3, n) = None) shannon_hwmon_attrs" by (simp add: list_all_iff)
  from hwmon_all_or_nothing [OF this i] have "h = None \<and> t' = Map.empty"
    by (auto simp: list_all_iff ENOMEM_def split: if_splits)
  with i show ?thesis by simp
qed

text \<open>The removal after a failure begins with the attribute that failed. If that was because the name is taken, the file of
  the other owner is removed.\<close>

lemma hwmon_failure_removes_foreign_file:
  "snd (shannon_hwmon_init (\<lambda>_. - 17) reg dev ((\<lambda>_. None)((dev, ''name'') \<mapsto> File a))) (dev, ''name'') = None"
  by (simp add: shannon_hwmon_init_def shannon_device_attrs_def define_one_device_ro_def device_remove_file_def)

end
