(* ===== verification/Locks.thy ===== *)
theory Locks
  imports Prelude
begin

text \<open>
  The lock wrappers (\<^verbatim>\<open>shannon_kcore.c\<close>): spin locks, reader/writer locks and mutexes, in the variants that also disable
  softirqs or interrupts. Each is one call of the kernel; the kernel's calls are a parameter, and what the
  documentation says about them is a hypothesis. The theorem says that the wrappers are wired in pairs: sections
  opened and closed through them leave the CPU as they found it.
\<close>

section \<open>The kernel's calls\<close>

datatype lock_class = Spin | Read | Write | Mutex
datatype variant = Plain | Bh | Irq | Irqsave

text \<open>The calls, by class and variant: \<open>kl_lock kl Spin Bh\<close> is \<open>spin_lock_bh\<close>, \<open>kl_unlock kl Read Irq\<close> is \<open>read_unlock_irq\<close>,
  \<open>kl_lock kl Mutex Plain\<close> is \<open>mutex_lock\<close>, and so on; \<open>None\<close> is a call that does not return. The state is the kernel's
  as the calling CPU sees it.\<close>

record 's kernel_locks =
  kl_init :: "lock_class \<Rightarrow> ptr \<Rightarrow> 's \<Rightarrow> 's"
  kl_lock :: "lock_class \<Rightarrow> variant \<Rightarrow> ptr \<Rightarrow> 's \<Rightarrow> 's option"
  kl_lock_irqsave :: "lock_class \<Rightarrow> ptr \<Rightarrow> 's \<Rightarrow> (u64 \<times> 's) option"
  kl_unlock :: "lock_class \<Rightarrow> variant \<Rightarrow> ptr \<Rightarrow> 's \<Rightarrow> 's"
  kl_unlock_irqrestore :: "lock_class \<Rightarrow> ptr \<Rightarrow> u64 \<Rightarrow> 's \<Rightarrow> 's"
  kl_trylock :: "lock_class \<Rightarrow> variant \<Rightarrow> ptr \<Rightarrow> 's \<Rightarrow> int \<times> 's"

section \<open>The wrappers\<close>

definition shannon_spin_lock_init :: "'s kernel_locks \<Rightarrow> ptr \<Rightarrow> 's \<Rightarrow> 's" where
  "shannon_spin_lock_init kl l s = kl_init kl Spin l s"
definition shannon_spin_lock :: "'s kernel_locks \<Rightarrow> ptr \<Rightarrow> 's \<Rightarrow> 's option" where
  "shannon_spin_lock kl l s = kl_lock kl Spin Plain l s"
definition shannon_spin_lock_bh :: "'s kernel_locks \<Rightarrow> ptr \<Rightarrow> 's \<Rightarrow> 's option" where
  "shannon_spin_lock_bh kl l s = kl_lock kl Spin Bh l s"
definition shannon_spin_lock_irq :: "'s kernel_locks \<Rightarrow> ptr \<Rightarrow> 's \<Rightarrow> 's option" where
  "shannon_spin_lock_irq kl l s = kl_lock kl Spin Irq l s"
definition shannon_spin_lock_irqsave :: "'s kernel_locks \<Rightarrow> ptr \<Rightarrow> 's \<Rightarrow> (u64 \<times> 's) option" where
  "shannon_spin_lock_irqsave kl l s = kl_lock_irqsave kl Spin l s"
definition shannon_spin_unlock :: "'s kernel_locks \<Rightarrow> ptr \<Rightarrow> 's \<Rightarrow> 's" where
  "shannon_spin_unlock kl l s = kl_unlock kl Spin Plain l s"
definition shannon_spin_unlock_bh :: "'s kernel_locks \<Rightarrow> ptr \<Rightarrow> 's \<Rightarrow> 's" where
  "shannon_spin_unlock_bh kl l s = kl_unlock kl Spin Bh l s"
definition shannon_spin_unlock_irq :: "'s kernel_locks \<Rightarrow> ptr \<Rightarrow> 's \<Rightarrow> 's" where
  "shannon_spin_unlock_irq kl l s = kl_unlock kl Spin Irq l s"
definition shannon_spin_unlock_irqrestore :: "'s kernel_locks \<Rightarrow> ptr \<Rightarrow> u64 \<Rightarrow> 's \<Rightarrow> 's" where
  "shannon_spin_unlock_irqrestore kl l flags s = kl_unlock_irqrestore kl Spin l flags s"
definition shannon_spin_trylock :: "'s kernel_locks \<Rightarrow> ptr \<Rightarrow> 's \<Rightarrow> int \<times> 's" where
  "shannon_spin_trylock kl l s = kl_trylock kl Spin Plain l s"
definition shannon_spin_trylock_irq :: "'s kernel_locks \<Rightarrow> ptr \<Rightarrow> 's \<Rightarrow> int \<times> 's" where
  "shannon_spin_trylock_irq kl l s = kl_trylock kl Spin Irq l s"
definition shannon_rwlock_init :: "'s kernel_locks \<Rightarrow> ptr \<Rightarrow> 's \<Rightarrow> 's" where
  "shannon_rwlock_init kl l s = kl_init kl Read l s"
definition shannon_read_lock :: "'s kernel_locks \<Rightarrow> ptr \<Rightarrow> 's \<Rightarrow> 's option" where
  "shannon_read_lock kl l s = kl_lock kl Read Plain l s"
definition shannon_read_lock_bh :: "'s kernel_locks \<Rightarrow> ptr \<Rightarrow> 's \<Rightarrow> 's option" where
  "shannon_read_lock_bh kl l s = kl_lock kl Read Bh l s"
definition shannon_read_lock_irq :: "'s kernel_locks \<Rightarrow> ptr \<Rightarrow> 's \<Rightarrow> 's option" where
  "shannon_read_lock_irq kl l s = kl_lock kl Read Irq l s"
definition shannon_read_lock_irqsave :: "'s kernel_locks \<Rightarrow> ptr \<Rightarrow> 's \<Rightarrow> (u64 \<times> 's) option" where
  "shannon_read_lock_irqsave kl l s = kl_lock_irqsave kl Read l s"
definition shannon_read_unlock :: "'s kernel_locks \<Rightarrow> ptr \<Rightarrow> 's \<Rightarrow> 's" where
  "shannon_read_unlock kl l s = kl_unlock kl Read Plain l s"
definition shannon_read_unlock_bh :: "'s kernel_locks \<Rightarrow> ptr \<Rightarrow> 's \<Rightarrow> 's" where
  "shannon_read_unlock_bh kl l s = kl_unlock kl Read Bh l s"
definition shannon_read_unlock_irq :: "'s kernel_locks \<Rightarrow> ptr \<Rightarrow> 's \<Rightarrow> 's" where
  "shannon_read_unlock_irq kl l s = kl_unlock kl Read Irq l s"
definition shannon_read_unlock_irqrestore :: "'s kernel_locks \<Rightarrow> ptr \<Rightarrow> u64 \<Rightarrow> 's \<Rightarrow> 's" where
  "shannon_read_unlock_irqrestore kl l flags s = kl_unlock_irqrestore kl Read l flags s"
definition shannon_read_trylock :: "'s kernel_locks \<Rightarrow> ptr \<Rightarrow> 's \<Rightarrow> int \<times> 's" where
  "shannon_read_trylock kl l s = kl_trylock kl Read Plain l s"
definition shannon_write_lock :: "'s kernel_locks \<Rightarrow> ptr \<Rightarrow> 's \<Rightarrow> 's option" where
  "shannon_write_lock kl l s = kl_lock kl Write Plain l s"
definition shannon_write_lock_bh :: "'s kernel_locks \<Rightarrow> ptr \<Rightarrow> 's \<Rightarrow> 's option" where
  "shannon_write_lock_bh kl l s = kl_lock kl Write Bh l s"
definition shannon_write_lock_irq :: "'s kernel_locks \<Rightarrow> ptr \<Rightarrow> 's \<Rightarrow> 's option" where
  "shannon_write_lock_irq kl l s = kl_lock kl Write Irq l s"
definition shannon_write_lock_irqsave :: "'s kernel_locks \<Rightarrow> ptr \<Rightarrow> 's \<Rightarrow> (u64 \<times> 's) option" where
  "shannon_write_lock_irqsave kl l s = kl_lock_irqsave kl Write l s"
definition shannon_write_unlock :: "'s kernel_locks \<Rightarrow> ptr \<Rightarrow> 's \<Rightarrow> 's" where
  "shannon_write_unlock kl l s = kl_unlock kl Write Plain l s"
definition shannon_write_unlock_bh :: "'s kernel_locks \<Rightarrow> ptr \<Rightarrow> 's \<Rightarrow> 's" where
  "shannon_write_unlock_bh kl l s = kl_unlock kl Write Bh l s"
definition shannon_write_unlock_irq :: "'s kernel_locks \<Rightarrow> ptr \<Rightarrow> 's \<Rightarrow> 's" where
  "shannon_write_unlock_irq kl l s = kl_unlock kl Write Irq l s"
definition shannon_write_unlock_irqrestore :: "'s kernel_locks \<Rightarrow> ptr \<Rightarrow> u64 \<Rightarrow> 's \<Rightarrow> 's" where
  "shannon_write_unlock_irqrestore kl l flags s = kl_unlock_irqrestore kl Write l flags s"
definition shannon_write_trylock :: "'s kernel_locks \<Rightarrow> ptr \<Rightarrow> 's \<Rightarrow> int \<times> 's" where
  "shannon_write_trylock kl l s = kl_trylock kl Write Plain l s"
definition shannon_mutex_init :: "'s kernel_locks \<Rightarrow> ptr \<Rightarrow> 's \<Rightarrow> 's" where
  "shannon_mutex_init kl l s = kl_init kl Mutex l s"
definition shannon_mutex_init2 :: "'s kernel_locks \<Rightarrow> ptr \<Rightarrow> 's \<Rightarrow> 's" where
  "shannon_mutex_init2 kl l s = kl_init kl Mutex l s"
definition shannon_mutex_lock :: "'s kernel_locks \<Rightarrow> ptr \<Rightarrow> 's \<Rightarrow> 's option" where
  "shannon_mutex_lock kl l s = kl_lock kl Mutex Plain l s"
definition shannon_mutex_trylock :: "'s kernel_locks \<Rightarrow> ptr \<Rightarrow> 's \<Rightarrow> int \<times> 's" where
  "shannon_mutex_trylock kl l s = kl_trylock kl Mutex Plain l s"
definition shannon_mutex_unlock :: "'s kernel_locks \<Rightarrow> ptr \<Rightarrow> 's \<Rightarrow> 's" where
  "shannon_mutex_unlock kl l s = kl_unlock kl Mutex Plain l s"

section \<open>What the kernel documents\<close>

text \<open>The state of a CPU a lock changes: whether interrupts are enabled, and how often softirqs and preemption are disabled.\<close>

record cpu_ctx =
  irqs_on :: bool
  bh_off :: int
  preempt_off :: int

fun enter_ctx :: "lock_class \<Rightarrow> variant \<Rightarrow> cpu_ctx \<Rightarrow> cpu_ctx" where
  "enter_ctx Mutex v x = x"
| "enter_ctx _ Plain x = x\<lparr>preempt_off := preempt_off x + 1\<rparr>"
| "enter_ctx _ Bh x = x\<lparr>preempt_off := preempt_off x + 1, bh_off := bh_off x + 1\<rparr>"
| "enter_ctx _ _ x = x\<lparr>preempt_off := preempt_off x + 1, irqs_on := False\<rparr>"

fun leave_ctx :: "lock_class \<Rightarrow> variant \<Rightarrow> bool \<Rightarrow> cpu_ctx \<Rightarrow> cpu_ctx" where
  "leave_ctx Mutex v on x = x"
| "leave_ctx _ Plain on x = x\<lparr>preempt_off := preempt_off x - 1\<rparr>"
| "leave_ctx _ Bh on x = x\<lparr>preempt_off := preempt_off x - 1, bh_off := bh_off x - 1\<rparr>"
| "leave_ctx _ _ on x = x\<lparr>preempt_off := preempt_off x - 1, irqs_on := on\<rparr>"

text \<open>\<open>cpu\<close> reads the state of the CPU, \<open>flags_on\<close> the interrupt bit of saved flags.\<close>

definition locks_documented :: "'s kernel_locks \<Rightarrow> ('s \<Rightarrow> cpu_ctx) \<Rightarrow> (u64 \<Rightarrow> bool) \<Rightarrow> bool" where
  "locks_documented kl cpu flags_on \<longleftrightarrow>
     (\<forall>c v l s s'. v \<noteq> Irqsave \<longrightarrow> kl_lock kl c v l s = Some s' \<longrightarrow> cpu s' = enter_ctx c v (cpu s)) \<and>
     (\<forall>c l s fl s'. kl_lock_irqsave kl c l s = Some (fl, s') \<longrightarrow>
        cpu s' = enter_ctx c Irqsave (cpu s) \<and> flags_on fl = irqs_on (cpu s)) \<and>
     (\<forall>c v l s. v \<noteq> Irqsave \<longrightarrow> cpu (kl_unlock kl c v l s) = leave_ctx c v True (cpu s)) \<and>
     (\<forall>c l fl s. cpu (kl_unlock_irqrestore kl c l fl s) = leave_ctx c Irqsave (flags_on fl) (cpu s))"

section \<open>Sections\<close>

text \<open>The wrappers a caller uses for a class and a variant; the flags matter for \<open>Irqsave\<close> only.\<close>

fun call_lock :: "'s kernel_locks \<Rightarrow> lock_class \<Rightarrow> variant \<Rightarrow> ptr \<Rightarrow> 's \<Rightarrow> (u64 \<times> 's) option" where
  "call_lock kl Spin Plain l s = map_option (Pair 0) (shannon_spin_lock kl l s)"
| "call_lock kl Spin Bh l s = map_option (Pair 0) (shannon_spin_lock_bh kl l s)"
| "call_lock kl Spin Irq l s = map_option (Pair 0) (shannon_spin_lock_irq kl l s)"
| "call_lock kl Spin Irqsave l s = shannon_spin_lock_irqsave kl l s"
| "call_lock kl Read Plain l s = map_option (Pair 0) (shannon_read_lock kl l s)"
| "call_lock kl Read Bh l s = map_option (Pair 0) (shannon_read_lock_bh kl l s)"
| "call_lock kl Read Irq l s = map_option (Pair 0) (shannon_read_lock_irq kl l s)"
| "call_lock kl Read Irqsave l s = shannon_read_lock_irqsave kl l s"
| "call_lock kl Write Plain l s = map_option (Pair 0) (shannon_write_lock kl l s)"
| "call_lock kl Write Bh l s = map_option (Pair 0) (shannon_write_lock_bh kl l s)"
| "call_lock kl Write Irq l s = map_option (Pair 0) (shannon_write_lock_irq kl l s)"
| "call_lock kl Write Irqsave l s = shannon_write_lock_irqsave kl l s"
| "call_lock kl Mutex _ l s = map_option (Pair 0) (shannon_mutex_lock kl l s)"

fun call_unlock :: "'s kernel_locks \<Rightarrow> lock_class \<Rightarrow> variant \<Rightarrow> u64 \<Rightarrow> ptr \<Rightarrow> 's \<Rightarrow> 's" where
  "call_unlock kl Spin Plain flags l s = shannon_spin_unlock kl l s"
| "call_unlock kl Spin Bh flags l s = shannon_spin_unlock_bh kl l s"
| "call_unlock kl Spin Irq flags l s = shannon_spin_unlock_irq kl l s"
| "call_unlock kl Spin Irqsave flags l s = shannon_spin_unlock_irqrestore kl l flags s"
| "call_unlock kl Read Plain flags l s = shannon_read_unlock kl l s"
| "call_unlock kl Read Bh flags l s = shannon_read_unlock_bh kl l s"
| "call_unlock kl Read Irq flags l s = shannon_read_unlock_irq kl l s"
| "call_unlock kl Read Irqsave flags l s = shannon_read_unlock_irqrestore kl l flags s"
| "call_unlock kl Write Plain flags l s = shannon_write_unlock kl l s"
| "call_unlock kl Write Bh flags l s = shannon_write_unlock_bh kl l s"
| "call_unlock kl Write Irq flags l s = shannon_write_unlock_irq kl l s"
| "call_unlock kl Write Irqsave flags l s = shannon_write_unlock_irqrestore kl l flags s"
| "call_unlock kl Mutex _ flags l s = shannon_mutex_unlock kl l s"

text \<open>Nested sections around a body, each closed with the wrapper that belongs to the one that opened it.\<close>

fun in_sections :: "'s kernel_locks \<Rightarrow> (lock_class \<times> variant \<times> ptr) list \<Rightarrow> ('s \<Rightarrow> 's) \<Rightarrow> 's \<Rightarrow> 's option" where
  "in_sections kl [] body s = Some (body s)"
| "in_sections kl ((c, v, l) # xs) body s = (case call_lock kl c v l s of None \<Rightarrow> None
     | Some (fl, s1) \<Rightarrow> map_option (call_unlock kl c v fl l) (in_sections kl xs body s1))"

text \<open>The variant that enables interrupts when it is left is used only where they are enabled.\<close>

fun irq_nesting_ok :: "bool \<Rightarrow> (lock_class \<times> variant \<times> ptr) list \<Rightarrow> bool" where
  "irq_nesting_ok on [] = True"
| "irq_nesting_ok on ((c, v, l) # xs) = ((c \<noteq> Mutex \<and> v = Irq \<longrightarrow> on) \<and>
     irq_nesting_ok (if c \<noteq> Mutex \<and> v \<in> {Irq, Irqsave} then False else on) xs)"

lemmas lock_pair_defs =
  shannon_spin_lock_def shannon_spin_lock_bh_def shannon_spin_lock_irq_def shannon_spin_lock_irqsave_def
  shannon_spin_unlock_def shannon_spin_unlock_bh_def shannon_spin_unlock_irq_def
  shannon_spin_unlock_irqrestore_def shannon_read_lock_def shannon_read_lock_bh_def shannon_read_lock_irq_def
  shannon_read_lock_irqsave_def shannon_read_unlock_def shannon_read_unlock_bh_def shannon_read_unlock_irq_def
  shannon_read_unlock_irqrestore_def shannon_write_lock_def shannon_write_lock_bh_def shannon_write_lock_irq_def
  shannon_write_lock_irqsave_def shannon_write_unlock_def shannon_write_unlock_bh_def
  shannon_write_unlock_irq_def shannon_write_unlock_irqrestore_def shannon_mutex_lock_def
  shannon_mutex_unlock_def

lemma call_lock_eq: "call_lock kl c v l s =
    (if c \<noteq> Mutex \<and> v = Irqsave then kl_lock_irqsave kl c l s
     else map_option (Pair 0) (kl_lock kl c (if c = Mutex then Plain else v) l s))"
  by (cases c; cases v; simp add: lock_pair_defs)

lemma call_unlock_eq: "call_unlock kl c v fl l s =
    (if c \<noteq> Mutex \<and> v = Irqsave then kl_unlock_irqrestore kl c l fl s
     else kl_unlock kl c (if c = Mutex then Plain else v) l s)"
  by (cases c; cases v; simp add: lock_pair_defs)

lemma call_lock_ctx:
  assumes k: "locks_documented kl cpu flags_on" and "call_lock kl c v l s = Some (fl, s1)"
  shows "cpu s1 = enter_ctx c v (cpu s) \<and> (c \<noteq> Mutex \<and> v = Irqsave \<longrightarrow> flags_on fl = irqs_on (cpu s))"
proof (cases "c \<noteq> Mutex \<and> v = Irqsave")
  case True
  then show ?thesis using assms by (auto simp: locks_documented_def call_lock_eq)
next
  case False
  let ?v = "if c = Mutex then Plain else v"
  have "?v \<noteq> Irqsave" "kl_lock kl c ?v l s = Some s1" using False assms(2) by (auto simp: call_lock_eq split: if_splits)
  then have "cpu s1 = enter_ctx c ?v (cpu s)" using k unfolding locks_documented_def by blast
  then show ?thesis using False by (cases "c = Mutex") auto
qed

lemma call_unlock_ctx:
  assumes k: "locks_documented kl cpu flags_on"
  shows "cpu (call_unlock kl c v fl l s) = leave_ctx c v (if v = Irqsave then flags_on fl else True) (cpu s)"
proof (cases "c \<noteq> Mutex \<and> v = Irqsave")
  case True
  then show ?thesis using k by (simp add: locks_documented_def call_unlock_eq)
next
  case False
  let ?v = "if c = Mutex then Plain else v"
  have "?v \<noteq> Irqsave" using False by auto
  then have "cpu (kl_unlock kl c ?v l s) = leave_ctx c ?v True (cpu s)" using k unfolding locks_documented_def by blast
  then show ?thesis using False by (cases "c = Mutex") (auto simp: call_unlock_eq)
qed

lemma leave_enter:
  "(c \<noteq> Mutex \<and> v = Irq \<longrightarrow> irqs_on x) \<Longrightarrow> (c \<noteq> Mutex \<and> v = Irqsave \<longrightarrow> on = irqs_on x) \<Longrightarrow> (v \<noteq> Irqsave \<longrightarrow> on) \<Longrightarrow>
   leave_ctx c v on (enter_ctx c v x) = x"
  by (cases c; cases v) auto

lemma enter_irqs: "irqs_on (enter_ctx c v x) = (if c \<noteq> Mutex \<and> v \<in> {Irq, Irqsave} then False else irqs_on x)"
  by (cases c; cases v) auto

text \<open>Whatever the classes and variants, sections that are nested and closed by the matching wrappers leave interrupts, softirqs
  and preemption of the CPU as they were.\<close>

theorem nested_sections_restore:
  assumes k: "locks_documented kl cpu flags_on" and b: "\<And>s. cpu (body s) = cpu s"
    and "irq_nesting_ok (irqs_on (cpu s)) xs" "in_sections kl xs body s = Some s'"
  shows "cpu s' = cpu s"
  using assms(3,4)
proof (induction xs arbitrary: s s')
  case (Cons x xs)
  obtain c v l where x: "x = (c, v, l)" by (cases x)
  obtain fl s1 s2 where s1: "call_lock kl c v l s = Some (fl, s1)" "in_sections kl xs body s1 = Some s2"
      "s' = call_unlock kl c v fl l s2"
    using Cons.prems(2) by (auto simp: x split: option.splits)
  note e = call_lock_ctx [OF k s1(1)]
  have "cpu s2 = cpu s1" by (rule Cons.IH [OF _ s1(2)]) (use Cons.prems(1) in \<open>simp add: x e enter_irqs\<close>)
  then show ?case
    using e Cons.prems(1) by (auto simp: x s1(3) call_unlock_ctx [OF k] intro!: leave_enter)
qed (simp add: b)

text \<open>The restriction on the variant that enables interrupts is needed: inside a section that disabled them, its
  release enables them too early.\<close>

lemma unlock_irq_enables_too_early:
  "locks_documented kl cpu flags_on \<Longrightarrow> irqs_on (cpu (shannon_spin_unlock_irq kl l s))"
  by (simp add: locks_documented_def lock_pair_defs)

end
