(* ===== verification/Pm_Qos.thy ===== *)
theory Pm_Qos
  imports Kcore
begin

text \<open>
  The CPU latency requirement on older kernels (\<^verbatim>\<open>shannon_kcore.c\<close>): the variants for kernels from 3.2, 2.6.36, 2.6.35 and
  2.6.31 on (the one for kernels from 5.7 on is in \<^verbatim>\<open>Kcore\<close>; before 2.6.31 the functions do nothing and there is no requirement). All of
  them implement one contract, a requirement that is absent or has a value; the contract is a locale, interpreted for each
  variant. \<open>disable\<close> is the module parameter \<open>shannon_pm_qos_disable\<close>. The kernel's registry of other drivers' requests appears as
  their combined value.
\<close>

section \<open>Kernels from 3.2 on\<close>

text \<open>\<open>*l\<close>: NULL, or a request registered for a class with a value.\<close>

datatype qos_request = Qos_Null | Qos_Request int int

definition shannon_pm_qos_add_requirement_3_2 :: "bool \<Rightarrow> bool \<Rightarrow> int \<Rightarrow> int \<Rightarrow> qos_request \<Rightarrow> int \<times> qos_request" where
  "shannon_pm_qos_add_requirement_3_2 disable kzalloc_ok qos val l =
    (if disable then (0, l) else if \<not> kzalloc_ok then (0, Qos_Null) else (0, Qos_Request qos val))"

definition shannon_pm_qos_update_requirement_3_2 :: "bool \<Rightarrow> int \<Rightarrow> int \<Rightarrow> qos_request \<Rightarrow> int \<times> qos_request" where
  "shannon_pm_qos_update_requirement_3_2 disable qos new_value l =
    (if disable then (0, l) else (0, case l of Qos_Null \<Rightarrow> Qos_Null | Qos_Request c _ \<Rightarrow> Qos_Request c new_value))"

definition shannon_pm_qos_remove_requirement_3_2 :: "bool \<Rightarrow> int \<Rightarrow> qos_request \<Rightarrow> qos_request" where
  "shannon_pm_qos_remove_requirement_3_2 disable qos l =
    (if disable then l else case l of Qos_Null \<Rightarrow> l | Qos_Request _ _ \<Rightarrow> Qos_Null)"

text \<open>The value in force for a class is the smallest of all requests; \<open>others\<close> is that of the other drivers.\<close>

definition pm_qos_request :: "(int \<Rightarrow> int) \<Rightarrow> qos_request \<Rightarrow> int \<Rightarrow> int" where
  "pm_qos_request others l qos =
    (case l of Qos_Null \<Rightarrow> others qos | Qos_Request c v \<Rightarrow> if c = qos then min (others qos) v else others qos)"

definition shannon_pm_qos_is_required_3_2 :: "bool \<Rightarrow> int \<Rightarrow> (int \<Rightarrow> int) \<Rightarrow> qos_request \<Rightarrow> int \<Rightarrow> bool" where
  "shannon_pm_qos_is_required_3_2 disable pm_qos_value others l qos =
    (if disable then True else pm_qos_request others l qos = pm_qos_value)"

section \<open>Kernels 2.6.36 to 3.1\<close>

text \<open>The request has another type; the operations are the same.\<close>

definition shannon_pm_qos_add_requirement_2_6_36 :: "bool \<Rightarrow> bool \<Rightarrow> int \<Rightarrow> int \<Rightarrow> qos_request \<Rightarrow> int \<times> qos_request" where
  "shannon_pm_qos_add_requirement_2_6_36 disable kzalloc_ok qos val l =
    (if disable then (0, l) else if \<not> kzalloc_ok then (0, Qos_Null) else (0, Qos_Request qos val))"

definition shannon_pm_qos_update_requirement_2_6_36 :: "bool \<Rightarrow> int \<Rightarrow> int \<Rightarrow> qos_request \<Rightarrow> int \<times> qos_request" where
  "shannon_pm_qos_update_requirement_2_6_36 disable qos new_value l =
    (if disable then (0, l) else (0, case l of Qos_Null \<Rightarrow> Qos_Null | Qos_Request c _ \<Rightarrow> Qos_Request c new_value))"

definition shannon_pm_qos_remove_requirement_2_6_36 :: "bool \<Rightarrow> int \<Rightarrow> qos_request \<Rightarrow> qos_request" where
  "shannon_pm_qos_remove_requirement_2_6_36 disable qos l =
    (if disable then l else case l of Qos_Null \<Rightarrow> l | Qos_Request _ _ \<Rightarrow> Qos_Null)"

definition shannon_pm_qos_is_required_2_6_36 :: "bool \<Rightarrow> int \<Rightarrow> (int \<Rightarrow> int) \<Rightarrow> qos_request \<Rightarrow> int \<Rightarrow> bool" where
  "shannon_pm_qos_is_required_2_6_36 disable pm_qos_value others l qos =
    (if disable then True else pm_qos_request others l qos = pm_qos_value)"

section \<open>Kernel 2.6.35\<close>

text \<open>The kernel allocates the request; \<open>add_ok\<close> says whether it gave one.\<close>

definition shannon_pm_qos_add_requirement_2_6_35 :: "bool \<Rightarrow> bool \<Rightarrow> int \<Rightarrow> int \<Rightarrow> qos_request \<Rightarrow> int \<times> qos_request" where
  "shannon_pm_qos_add_requirement_2_6_35 disable add_ok qos val l =
    (if disable then (0, l) else (0, if add_ok then Qos_Request qos val else Qos_Null))"

definition shannon_pm_qos_update_requirement_2_6_35 :: "bool \<Rightarrow> int \<Rightarrow> int \<Rightarrow> qos_request \<Rightarrow> int \<times> qos_request" where
  "shannon_pm_qos_update_requirement_2_6_35 disable qos new_value l =
    (if disable then (0, l) else (0, case l of Qos_Null \<Rightarrow> Qos_Null | Qos_Request c _ \<Rightarrow> Qos_Request c new_value))"

definition shannon_pm_qos_remove_requirement_2_6_35 :: "bool \<Rightarrow> int \<Rightarrow> qos_request \<Rightarrow> qos_request" where
  "shannon_pm_qos_remove_requirement_2_6_35 disable qos l =
    (if disable then l else case l of Qos_Null \<Rightarrow> l | Qos_Request _ _ \<Rightarrow> Qos_Null)"

definition shannon_pm_qos_is_required_2_6_35 :: "bool \<Rightarrow> int \<Rightarrow> (int \<Rightarrow> int) \<Rightarrow> qos_request \<Rightarrow> int \<Rightarrow> bool" where
  "shannon_pm_qos_is_required_2_6_35 disable pm_qos_value others l qos =
    (if disable then True else pm_qos_request others l qos = pm_qos_value)"

section \<open>Kernels 2.6.31 to 2.6.34\<close>

text \<open>The kernel keeps the requirements by class and name: adding gives 0 or -ENOMEM, updating and removing act on an
  entry that exists. \<open>l\<close> is not used.\<close>

type_synonym qos_registry = "int \<times> string \<Rightarrow> int option"

definition shannon_pm_qos_add_requirement_2_6_31 ::
    "bool \<Rightarrow> bool \<Rightarrow> int \<Rightarrow> string \<Rightarrow> int \<Rightarrow> qos_registry \<Rightarrow> int \<times> qos_registry" where
  "shannon_pm_qos_add_requirement_2_6_31 disable add_ok qos name val reg =
    (if disable then (0, reg) else if add_ok then (0, reg((qos, name) \<mapsto> val)) else (- ENOMEM, reg))"

definition shannon_pm_qos_update_requirement_2_6_31 ::
    "bool \<Rightarrow> int \<Rightarrow> string \<Rightarrow> int \<Rightarrow> qos_registry \<Rightarrow> int \<times> qos_registry" where
  "shannon_pm_qos_update_requirement_2_6_31 disable qos name new_value reg =
    (if disable then (0, reg)
     else (0, case reg (qos, name) of None \<Rightarrow> reg | Some _ \<Rightarrow> reg((qos, name) \<mapsto> new_value)))"

definition shannon_pm_qos_remove_requirement_2_6_31 :: "bool \<Rightarrow> int \<Rightarrow> string \<Rightarrow> qos_registry \<Rightarrow> qos_registry" where
  "shannon_pm_qos_remove_requirement_2_6_31 disable qos name reg = (if disable then reg else reg((qos, name) := None))"

definition shannon_pm_qos_is_required_2_6_31 :: "bool \<Rightarrow> int \<Rightarrow> (qos_registry \<Rightarrow> int \<Rightarrow> int) \<Rightarrow> qos_registry \<Rightarrow> int \<Rightarrow> bool" where
  "shannon_pm_qos_is_required_2_6_31 disable pm_qos_value pm_qos_requirement reg qos =
    (if disable then True else pm_qos_requirement reg qos = pm_qos_value)"

section \<open>Kernels before 2.6.31\<close>

definition shannon_pm_qos_add_requirement_none :: "'k \<Rightarrow> int \<times> 'k" where "shannon_pm_qos_add_requirement_none k = (0, k)"
definition shannon_pm_qos_update_requirement_none :: "'k \<Rightarrow> int \<times> 'k" where "shannon_pm_qos_update_requirement_none k = (0, k)"
definition shannon_pm_qos_remove_requirement_none :: "'k \<Rightarrow> 'k" where "shannon_pm_qos_remove_requirement_none k = k"
definition shannon_pm_qos_is_required_none :: int where "shannon_pm_qos_is_required_none = 1"

section \<open>The contract\<close>

text \<open>An enabled requirement as an optional value: \<open>add\<close> sets it (if memory is found), \<open>upd\<close> changes one that is there,
  \<open>rem\<close> removes it; \<open>others\<close> is what else the state holds.\<close>

locale latency_requirement =
  fixes add :: "bool \<Rightarrow> int \<Rightarrow> 's \<Rightarrow> 's" and upd :: "int \<Rightarrow> 's \<Rightarrow> 's" and rem :: "'s \<Rightarrow> 's" and req :: "'s \<Rightarrow> int option"
  assumes add_value: "req s = None \<Longrightarrow> req (add ok v s) = (if ok then Some v else None)"
    and upd_value: "req (upd v s) = map_option (\<lambda>_. v) (req s)"
    and rem_value: "req (rem s) = None"
begin

lemma updates_value: "req (fold upd vs s) = (case req s of None \<Rightarrow> None | Some v \<Rightarrow> Some (last (v # vs)))"
  by (induction vs arbitrary: s) (auto simp: upd_value split: option.splits)

text \<open>From no requirement: after adding and any updates the last value is in force, or none if adding failed, and removing
  leaves none.\<close>

lemma lifecycle:
  assumes "req s = None"
  shows "req (fold upd vs (add ok v s)) = (if ok then Some (last (v # vs)) else None)"
    and "req (rem (fold upd vs (add ok v s))) = None"
  using assms by (simp_all add: updates_value add_value rem_value)

end

section \<open>The variants implement the contract\<close>

definition pm_value :: "pm_request \<Rightarrow> int option" where
  "pm_value l = (case l of PmRegistered v \<Rightarrow> Some v | _ \<Rightarrow> None)"

definition qos_value :: "int \<Rightarrow> qos_request \<Rightarrow> int option" where
  "qos_value qos l = (case l of Qos_Null \<Rightarrow> None | Qos_Request c v \<Rightarrow> if c = qos then Some v else None)"

lemmas pm_qos_defs = shannon_pm_qos_add_requirement_def shannon_pm_qos_update_requirement_def shannon_pm_qos_remove_requirement_def
  shannon_pm_qos_add_requirement_3_2_def shannon_pm_qos_update_requirement_3_2_def shannon_pm_qos_remove_requirement_3_2_def
  shannon_pm_qos_add_requirement_2_6_36_def shannon_pm_qos_update_requirement_2_6_36_def shannon_pm_qos_remove_requirement_2_6_36_def
  shannon_pm_qos_add_requirement_2_6_35_def shannon_pm_qos_update_requirement_2_6_35_def shannon_pm_qos_remove_requirement_2_6_35_def
  shannon_pm_qos_add_requirement_2_6_31_def shannon_pm_qos_update_requirement_2_6_31_def shannon_pm_qos_remove_requirement_2_6_31_def

interpretation qn: latency_requirement
  "\<lambda>ok v. shannon_pm_qos_add_requirement False ok SHANNON_PM_QOS_CPU_DMA_LATENCY v"
  "shannon_pm_qos_update_requirement False SHANNON_PM_QOS_CPU_DMA_LATENCY"
  "shannon_pm_qos_remove_requirement False SHANNON_PM_QOS_CPU_DMA_LATENCY" pm_value
  by unfold_locales (auto simp: pm_qos_defs pm_value_def split: pm_request.splits)

interpretation q32: latency_requirement
  "\<lambda>ok v l. snd (shannon_pm_qos_add_requirement_3_2 False ok qos v l)"
  "\<lambda>v l. snd (shannon_pm_qos_update_requirement_3_2 False qos v l)"
  "shannon_pm_qos_remove_requirement_3_2 False qos" "qos_value qos" for qos
  by unfold_locales (auto simp: pm_qos_defs qos_value_def split: qos_request.splits)

interpretation q36: latency_requirement
  "\<lambda>ok v l. snd (shannon_pm_qos_add_requirement_2_6_36 False ok qos v l)"
  "\<lambda>v l. snd (shannon_pm_qos_update_requirement_2_6_36 False qos v l)"
  "shannon_pm_qos_remove_requirement_2_6_36 False qos" "qos_value qos" for qos
  by unfold_locales (auto simp: pm_qos_defs qos_value_def split: qos_request.splits)

interpretation q35: latency_requirement
  "\<lambda>ok v l. snd (shannon_pm_qos_add_requirement_2_6_35 False ok qos v l)"
  "\<lambda>v l. snd (shannon_pm_qos_update_requirement_2_6_35 False qos v l)"
  "shannon_pm_qos_remove_requirement_2_6_35 False qos" "qos_value qos" for qos
  by unfold_locales (auto simp: pm_qos_defs qos_value_def split: qos_request.splits)

interpretation q31: latency_requirement
  "\<lambda>ok v reg. snd (shannon_pm_qos_add_requirement_2_6_31 False ok qos name v reg)"
  "\<lambda>v reg. snd (shannon_pm_qos_update_requirement_2_6_31 False qos name v reg)"
  "shannon_pm_qos_remove_requirement_2_6_31 False qos name" "\<lambda>reg. reg (qos, name)" for qos name
  by unfold_locales (auto simp: pm_qos_defs split: option.splits)

section \<open>Properties\<close>

text \<open>On every kernel the latency requirement behaves as an optional value: once added and updated any number of
  times it has the last value, or none if adding found no memory, and removing it leaves none.\<close>

theorem pm_qos_variants_refine:
  "let L = SHANNON_PM_QOS_CPU_DMA_LATENCY; want = (if ok then Some (last (v # vs)) else None);
       n = fold (shannon_pm_qos_update_requirement False L) vs (shannon_pm_qos_add_requirement False ok L v PmNull);
       a = fold (\<lambda>w l. snd (shannon_pm_qos_update_requirement_3_2 False qos w l)) vs
             (snd (shannon_pm_qos_add_requirement_3_2 False ok qos v Qos_Null));
       b = fold (\<lambda>w l. snd (shannon_pm_qos_update_requirement_2_6_36 False qos w l)) vs
             (snd (shannon_pm_qos_add_requirement_2_6_36 False ok qos v Qos_Null));
       c = fold (\<lambda>w l. snd (shannon_pm_qos_update_requirement_2_6_35 False qos w l)) vs
             (snd (shannon_pm_qos_add_requirement_2_6_35 False ok qos v Qos_Null));
       d = fold (\<lambda>w r. snd (shannon_pm_qos_update_requirement_2_6_31 False qos name w r)) vs
             (snd (shannon_pm_qos_add_requirement_2_6_31 False ok qos name v (reg((qos, name) := None))))
   in pm_value n = want \<and> qos_value qos a = want \<and> qos_value qos b = want \<and> qos_value qos c = want \<and> d (qos, name) = want \<and>
      pm_value (shannon_pm_qos_remove_requirement False L n) = None \<and>
      qos_value qos (shannon_pm_qos_remove_requirement_3_2 False qos a) = None \<and>
      qos_value qos (shannon_pm_qos_remove_requirement_2_6_36 False qos b) = None \<and>
      qos_value qos (shannon_pm_qos_remove_requirement_2_6_35 False qos c) = None \<and>
      shannon_pm_qos_remove_requirement_2_6_31 False qos name d (qos, name) = None"
proof -
  have start: "pm_value PmNull = None" "qos_value qos Qos_Null = None" "(reg((qos, name) := None)) (qos, name) = None"
    by (simp_all add: pm_value_def qos_value_def)
  show ?thesis
    unfolding Let_def
    by (intro conjI qn.lifecycle q32.lifecycle q36.lifecycle q35.lifecycle q31.lifecycle) (rule start)+
qed

text \<open>With the module parameter set, no variant changes anything, and every kernel reports the requirement as met.\<close>

lemma disabled_pm_qos:
  "shannon_pm_qos_add_requirement True ok qos v l = l" "snd (shannon_pm_qos_add_requirement_3_2 True ok qos v m) = m"
  "snd (shannon_pm_qos_add_requirement_2_6_36 True ok qos v m) = m" "snd (shannon_pm_qos_add_requirement_2_6_35 True ok qos v m) = m"
  "snd (shannon_pm_qos_add_requirement_2_6_31 True ok qos name v reg) = reg"
  "shannon_pm_qos_is_required True qos" "shannon_pm_qos_is_required_3_2 True w others m qos"
  "shannon_pm_qos_is_required_2_6_36 True w others m qos" "shannon_pm_qos_is_required_2_6_35 True w others m qos"
  "shannon_pm_qos_is_required_2_6_31 True w val reg qos"
  by (simp_all add: pm_qos_defs shannon_pm_qos_is_required_def shannon_pm_qos_is_required_3_2_def
      shannon_pm_qos_is_required_2_6_36_def shannon_pm_qos_is_required_2_6_35_def shannon_pm_qos_is_required_2_6_31_def)

text \<open>Kernels before 2.6.31 behave like later ones with the parameter set.\<close>

lemma absent_is_disabled:
  "shannon_pm_qos_add_requirement_none m = shannon_pm_qos_add_requirement_3_2 True ok qos v m"
  "shannon_pm_qos_update_requirement_none m = shannon_pm_qos_update_requirement_3_2 True qos v m"
  "shannon_pm_qos_remove_requirement_none m = shannon_pm_qos_remove_requirement_3_2 True qos m"
  "shannon_pm_qos_is_required_none \<noteq> 0 \<longleftrightarrow> shannon_pm_qos_is_required_3_2 True w others m qos"
  by (simp_all add: pm_qos_defs shannon_pm_qos_is_required_3_2_def shannon_pm_qos_add_requirement_none_def
      shannon_pm_qos_update_requirement_none_def shannon_pm_qos_remove_requirement_none_def shannon_pm_qos_is_required_none_def)

text \<open>On kernels from 3.2 to 5.6 an added requirement is reported as met exactly if its value is the one wanted and no other
  driver asks for less; on kernels from 5.7 on it never is.\<close>

lemma is_required_after_add:
  "shannon_pm_qos_is_required_3_2 False w others (snd (shannon_pm_qos_add_requirement_3_2 False True qos w l)) qos \<longleftrightarrow> w \<le> others qos"
  "\<not> shannon_pm_qos_is_required False SHANNON_PM_QOS_CPU_DMA_LATENCY"
  by (auto simp: shannon_pm_qos_is_required_3_2_def pm_qos_defs pm_qos_request_def shannon_pm_qos_is_required_def)

text \<open>Failure to add is reported by the variant for 2.6.31 only.\<close>

lemma add_failure_reported:
  "fst (shannon_pm_qos_add_requirement_2_6_31 False False qos name v reg) = - ENOMEM"
  "fst (shannon_pm_qos_add_requirement_3_2 False False qos v l) = 0"
  "fst (shannon_pm_qos_add_requirement_2_6_35 False False qos v l) = 0"
  by (simp_all add: pm_qos_defs)

end
