(* ===== verification/Kernel_Work.thy ===== *)
theory Kernel_Work
  imports Prelude
begin

text \<open>
  The wrappers of the kernel's work queues and delayed work (\<^verbatim>\<open>shannon_workqueue.c\<close>). All but one are single calls of the kernel, which
  are a parameter. The driver's own \<open>__shannon_cancel_delayed_work\<close> (kernels from 3.15 on) stops the timer and clears the pending bit
  behind the kernel's back; the theorem says what that does to an item, from what the kernel documents about its timers
  and bits.
\<close>

section \<open>The kernel's calls\<close>

text \<open>A work item, a delayed item and a timer are known by their addresses. A delayed item has its work item at \<open>work_off\<close> and its
  timer at \<open>timer_off\<close>.\<close>

record 's work_calls =
  wc_INIT_WORK :: "ptr \<Rightarrow> ptr \<Rightarrow> 's \<Rightarrow> 's"
  wc_INIT_DELAYED_WORK :: "ptr \<Rightarrow> ptr \<Rightarrow> 's \<Rightarrow> 's"
  wc_queue_work :: "ptr \<Rightarrow> ptr \<Rightarrow> 's \<Rightarrow> int \<times> 's"
  wc_schedule_work :: "ptr \<Rightarrow> 's \<Rightarrow> int \<times> 's"
  wc_queue_delayed_work :: "ptr \<Rightarrow> ptr \<Rightarrow> u64 \<Rightarrow> 's \<Rightarrow> int \<times> 's"
  wc_schedule_delayed_work :: "ptr \<Rightarrow> u64 \<Rightarrow> 's \<Rightarrow> int \<times> 's"
  wc_cancel_delayed_work :: "ptr \<Rightarrow> 's \<Rightarrow> int \<times> 's"
  wc_create_singlethread_workqueue :: "string \<Rightarrow> 's \<Rightarrow> ptr \<times> 's"
  wc_create_workqueue :: "string \<Rightarrow> 's \<Rightarrow> ptr \<times> 's"
  wc_destroy_workqueue :: "ptr \<Rightarrow> 's \<Rightarrow> 's"
  wc_flush_workqueue :: "ptr \<Rightarrow> 's \<Rightarrow> 's"
  wc_work_pending :: "ptr \<Rightarrow> 's \<Rightarrow> bool"
  wc_clear_pending_bit :: "ptr \<Rightarrow> 's \<Rightarrow> 's"
  wc_del_timer :: "ptr \<Rightarrow> 's \<Rightarrow> int \<times> 's"
  work_off :: nat
  timer_off :: nat

section \<open>The wrappers\<close>

definition shannon_init_work :: "'s work_calls \<Rightarrow> ptr \<Rightarrow> ptr \<Rightarrow> 's \<Rightarrow> 's" where
  "shannon_init_work k work func s = wc_INIT_WORK k work func s"

definition shannon_init_delayed_work :: "'s work_calls \<Rightarrow> ptr \<Rightarrow> ptr \<Rightarrow> 's \<Rightarrow> 's" where
  "shannon_init_delayed_work k work func s = wc_INIT_DELAYED_WORK k work func s"

definition get_delayed_work :: "'s work_calls \<Rightarrow> ptr \<Rightarrow> ptr" where
  "get_delayed_work k work = work - work_off k"

definition shannon_queue_work :: "'s work_calls \<Rightarrow> ptr \<Rightarrow> ptr \<Rightarrow> 's \<Rightarrow> int \<times> 's" where
  "shannon_queue_work k wq work s = wc_queue_work k wq work s"

definition shannon_create_singlethread_workqueue :: "'s work_calls \<Rightarrow> string \<Rightarrow> 's \<Rightarrow> ptr \<times> 's" where
  "shannon_create_singlethread_workqueue k name s = wc_create_singlethread_workqueue k name s"

definition shannon_create_workqueue :: "'s work_calls \<Rightarrow> string \<Rightarrow> 's \<Rightarrow> ptr \<times> 's" where
  "shannon_create_workqueue k name s = wc_create_workqueue k name s"

definition shannon_destroy_workqueue :: "'s work_calls \<Rightarrow> ptr \<Rightarrow> 's \<Rightarrow> 's" where
  "shannon_destroy_workqueue k wq s = wc_destroy_workqueue k wq s"

definition shannon_flush_workqueue :: "'s work_calls \<Rightarrow> ptr \<Rightarrow> 's \<Rightarrow> 's" where
  "shannon_flush_workqueue k wq s = wc_flush_workqueue k wq s"

text \<open>The result of the kernel's \<open>cancel_delayed_work\<close> is dropped.\<close>

definition shannon_cancel_delayed_work :: "'s work_calls \<Rightarrow> ptr \<Rightarrow> 's \<Rightarrow> 's" where
  "shannon_cancel_delayed_work k work s = snd (wc_cancel_delayed_work k work s)"

definition shannon_queue_delayed_work :: "'s work_calls \<Rightarrow> ptr \<Rightarrow> ptr \<Rightarrow> u64 \<Rightarrow> 's \<Rightarrow> int \<times> 's" where
  "shannon_queue_delayed_work k wq work delay s = wc_queue_delayed_work k wq work delay s"

definition shannon_schedule_delayed_work :: "'s work_calls \<Rightarrow> ptr \<Rightarrow> u64 \<Rightarrow> 's \<Rightarrow> int \<times> 's" where
  "shannon_schedule_delayed_work k work delay s = wc_schedule_delayed_work k work delay s"

definition shannon_schedule_work :: "'s work_calls \<Rightarrow> ptr \<Rightarrow> 's \<Rightarrow> int \<times> 's" where
  "shannon_schedule_work k work s = wc_schedule_work k work s"

definition shannon_work_clear_pending :: "'s work_calls \<Rightarrow> ptr \<Rightarrow> 's \<Rightarrow> 's" where
  "shannon_work_clear_pending k work s = wc_clear_pending_bit k work s"

definition shannon_work_pending :: "'s work_calls \<Rightarrow> ptr \<Rightarrow> 's \<Rightarrow> bool" where
  "shannon_work_pending k work s = wc_work_pending k work s"

text \<open>\<open>__shannon_cancel_delayed_work\<close>.\<close>

definition raw_shannon_cancel_delayed_work :: "'s work_calls \<Rightarrow> ptr \<Rightarrow> 's \<Rightarrow> int \<times> 's" where
  "raw_shannon_cancel_delayed_work k work s =
    (let (ret, s) = wc_del_timer k (work + timer_off k) s
     in (ret, if ret \<noteq> 0 then shannon_work_clear_pending k (work + work_off k) s else s))"

section \<open>Cancelling by the timer\<close>

text \<open>What the kernel documents: \<open>del_timer\<close> deactivates a timer and returns 1, or returns 0 if it was not active; it does not touch
  the pending bits. Clearing a bit clears this bit, which \<open>work_pending\<close> reads, and no timer.\<close>

definition timers_documented :: "'s work_calls \<Rightarrow> ('s \<Rightarrow> ptr \<Rightarrow> bool) \<Rightarrow> bool" where
  "timers_documented k active \<longleftrightarrow>
     (\<forall>t s. fst (wc_del_timer k t s) = (if active s t then 1 else 0) \<and>
        active (snd (wc_del_timer k t s)) = (active s)(t := False) \<and>
        (\<forall>w. wc_work_pending k w (snd (wc_del_timer k t s)) = wc_work_pending k w s)) \<and>
     (\<forall>w s. active (wc_clear_pending_bit k w s) = active s \<and>
        (\<forall>v. wc_work_pending k v (wc_clear_pending_bit k w s) = (v \<noteq> w \<and> wc_work_pending k v s)))"

text \<open>A delayed item whose timer runs is stopped, is no longer pending, and the result is 1; an item whose timer does not run keeps
  its pending bit, so one that is already queued stays queued, and the result is 0. No other item is touched.\<close>

theorem raw_cancel_exact:
  assumes "timers_documented k active" "raw_shannon_cancel_delayed_work k work s = (ret, s')"
  shows "ret = (if active s (work + timer_off k) then 1 else 0) \<and>
    active s' = (active s)(work + timer_off k := False) \<and>
    shannon_work_pending k (work + work_off k) s' =
      (\<not> active s (work + timer_off k) \<and> shannon_work_pending k (work + work_off k) s) \<and>
    (\<forall>v. v \<noteq> work + work_off k \<longrightarrow> shannon_work_pending k v s' = shannon_work_pending k v s)"
proof -
  let ?t = "work + timer_off k" and ?w = "work + work_off k"
  obtain r s1 where r: "wc_del_timer k ?t s = (r, s1)" by (cases "wc_del_timer k ?t s")
  then have d: "r = (if active s ?t then 1 else 0)" "active s1 = (active s)(?t := False)"
    "\<And>v. wc_work_pending k v s1 = wc_work_pending k v s"
    using assms(1) unfolding timers_documented_def by (metis fst_conv snd_conv)+
  have c: "active (wc_clear_pending_bit k ?w s1) = active s1"
    "\<And>v. wc_work_pending k v (wc_clear_pending_bit k ?w s1) = (v \<noteq> ?w \<and> wc_work_pending k v s1)"
    using assms(1) by (auto simp: timers_documented_def)
  have "ret = r" "s' = (if r \<noteq> 0 then wc_clear_pending_bit k ?w s1 else s1)"
    using assms(2) r by (auto simp: raw_shannon_cancel_delayed_work_def shannon_work_clear_pending_def)
  then show ?thesis using d c by (auto simp: shannon_work_pending_def)
qed

lemma delayed_work_roundtrip: "get_delayed_work k (dwork + work_off k) = dwork"
  by (simp add: get_delayed_work_def)

end
