(* ===== verification/Dma.thy ===== *)
theory Dma
  imports Scatter
begin

text \<open>
  DMA mappings (\<^verbatim>\<open>shannon_dma.c\<close>, \<^verbatim>\<open>shannon_dma.h\<close>): the masks, mapping and unmapping of single buffers, pages and scatter-gather entries.
  The IOMMU is an argument. Mapping one entry retries for ever; it is a partial function whose result \<open>None\<close> includes not
  returning, and the theorem says when it returns.
\<close>

section \<open>Constants\<close>

definition SHANNON_DMA_TODEVICE :: int where "SHANNON_DMA_TODEVICE = 1"
definition SHANNON_DMA_FROMDEVICE :: int where "SHANNON_DMA_FROMDEVICE = 2"

text \<open>The kernel's \<open>enum dma_data_direction\<close>.\<close>

definition DMA_TO_DEVICE :: int where "DMA_TO_DEVICE = 1"
definition DMA_FROM_DEVICE :: int where "DMA_FROM_DEVICE = 2"

definition SHANNON_DMA_BIT_MASK :: "nat \<Rightarrow> u64" where
  "SHANNON_DMA_BIT_MASK n = (if n = 64 then NOT 0 else push_bit n 1 - 1)"

section \<open>Mappings\<close>

text \<open>A call to the kernel that gives a mapping back: address, length and direction.\<close>

datatype dma_unmap = DmaUnmapPage u64 nat int | DmaUnmapSingle u64 nat int | DmaUnmapSg sg_table nat int

text \<open>The conditional expression that turns the driver's direction into the kernel's.\<close>

definition kernel_dir :: "int \<Rightarrow> int" where
  "kernel_dir dir = (if dir = SHANNON_DMA_FROMDEVICE then DMA_FROM_DEVICE else DMA_TO_DEVICE)"

text \<open>The kernel's \<open>dma_mapping_error\<close>.\<close>

definition shannon_dma_mapping_error :: "(u64 \<Rightarrow> bool) \<Rightarrow> u64 \<Rightarrow> bool" where
  "shannon_dma_mapping_error mapping_error dma_addr = mapping_error dma_addr"

text \<open>The loop of \<open>shannon_dma_map_one_sg_page\<close>; \<open>map_page i\<close> is the address its \<open>i\<close>-th call of \<open>dma_map_page\<close> returns.\<close>

partial_function (option) dma_map_loop :: "(u64 \<Rightarrow> bool) \<Rightarrow> (nat \<Rightarrow> u64) \<Rightarrow> nat \<Rightarrow> u64 option" where
  "dma_map_loop mapping_error map_page i =
    (let dma_handle = map_page i
     in if shannon_dma_mapping_error mapping_error dma_handle then dma_map_loop mapping_error map_page (Suc i)
        else Some dma_handle)"

text \<open>\<open>dma_map_page page offset length direction i\<close> answers the \<open>i\<close>-th call with these arguments.\<close>

definition shannon_dma_map_one_sg_page ::
    "(u64 \<Rightarrow> bool) \<Rightarrow> (ptr \<Rightarrow> nat \<Rightarrow> nat \<Rightarrow> int \<Rightarrow> nat \<Rightarrow> u64) \<Rightarrow> sg_table \<Rightarrow> sg_ptr \<Rightarrow> int \<Rightarrow> (u64 \<times> sg_table) option" where
  "shannon_dma_map_one_sg_page mapping_error dma_map_page t sg dir =
    (case (shannon_sg_page t sg, shannon_sg_offset t sg, shannon_sg_length t sg) of
       (Some page, Some off, Some len) \<Rightarrow>
         (case dma_map_loop mapping_error (dma_map_page page off len (kernel_dir dir)) 0 of None \<Rightarrow> None
          | Some dma_handle \<Rightarrow> map_option (\<lambda>t'. (dma_handle, t')) (shannon_sg_set_dma_address t sg dma_handle))
     | _ \<Rightarrow> None)"

definition shannon_dma_unmap_one_sg_page :: "sg_table \<Rightarrow> sg_ptr \<Rightarrow> int \<Rightarrow> dma_unmap option" where
  "shannon_dma_unmap_one_sg_page t sg dir =
    (case (shannon_sg_dma_address t sg, shannon_sg_length t sg) of
       (Some a, Some n) \<Rightarrow> Some (DmaUnmapPage a n (kernel_dir dir)) | _ \<Rightarrow> None)"

text \<open>The functions for a whole table hand the driver's direction on as it is.\<close>

definition shannon_dma_unmap_sg :: "sg_table \<Rightarrow> nat \<Rightarrow> int \<Rightarrow> dma_unmap" where
  "shannon_dma_unmap_sg sgl nents dir = DmaUnmapSg sgl nents dir"

definition shannon_dma_map_sg :: "(sg_table \<Rightarrow> nat \<Rightarrow> int \<Rightarrow> nat \<times> sg_table) \<Rightarrow> sg_table \<Rightarrow> nat \<Rightarrow> int \<Rightarrow> nat \<times> sg_table" where
  "shannon_dma_map_sg dma_map_sg sgl nents dir = dma_map_sg sgl nents dir"

definition shannon_dma_map_single :: "(ptr \<Rightarrow> nat \<Rightarrow> int \<Rightarrow> u64) \<Rightarrow> ptr \<Rightarrow> nat \<Rightarrow> int \<Rightarrow> u64" where
  "shannon_dma_map_single dma_map_single p len dir = dma_map_single p len (kernel_dir dir)"

definition shannon_dma_unmap_single :: "u64 \<Rightarrow> nat \<Rightarrow> int \<Rightarrow> dma_unmap" where
  "shannon_dma_unmap_single addr len dir = DmaUnmapSingle addr len (kernel_dir dir)"

definition shannon_dma_map_page :: "(ptr \<Rightarrow> nat \<Rightarrow> nat \<Rightarrow> int \<Rightarrow> u64) \<Rightarrow> ptr \<Rightarrow> nat \<Rightarrow> nat \<Rightarrow> int \<Rightarrow> u64" where
  "shannon_dma_map_page dma_map_page p off len dir = dma_map_page p off len (kernel_dir dir)"

definition shannon_dma_unmap_page :: "u64 \<Rightarrow> nat \<Rightarrow> int \<Rightarrow> dma_unmap" where
  "shannon_dma_unmap_page addr len dir = DmaUnmapPage addr len (kernel_dir dir)"

text \<open>Before Linux 2.6.34 the coherent mask is stored if the device supports it: the result and the mask of the device.\<close>

definition shannon_dma_set_coherent_mask_2_6_33 :: "(u64 \<Rightarrow> bool) \<Rightarrow> u64 \<Rightarrow> u64 \<Rightarrow> int \<times> u64" where
  "shannon_dma_set_coherent_mask_2_6_33 dma_supported old new = (if \<not> dma_supported new then (- EIO, old) else (0, new))"

section \<open>Masks and directions\<close>

text \<open>The mask of \<open>n\<close> bits admits exactly the addresses below \<open>2 ^ n\<close>, 64 bits included, where the shift alone would not.\<close>

lemma dma_bit_mask_addresses: "n \<le> 64 \<Longrightarrow> a \<le> SHANNON_DMA_BIT_MASK n \<longleftrightarrow> unat a < 2 ^ n"
proof (cases "n = 64")
  case True
  then show ?thesis using unsigned_less [of a, where 'a = nat] by (simp add: SHANNON_DMA_BIT_MASK_def)
next
  case False
  assume "n \<le> 64"
  with False have n: "n < LENGTH(64)" by simp
  then have "SHANNON_DMA_BIT_MASK n = word_of_nat (2 ^ n - 1)"
    using False by (simp add: SHANNON_DMA_BIT_MASK_def push_bit_eq_mult of_nat_diff)
  moreover have "(2 :: nat) ^ n - 1 < 2 ^ LENGTH(64)" using power_strict_increasing [OF n, of "2 :: nat"] by simp
  ultimately have "unat (SHANNON_DMA_BIT_MASK n) = 2 ^ n - 1" by (simp only: unsigned_of_nat take_bit_nat_eq_self of_nat_id)
  moreover have "0 < (2 :: nat) ^ n" by simp
  ultimately show ?thesis unfolding word_le_nat_alt by linarith
qed

text \<open>The directions of the driver have the values of the kernel's, so mapping a table as a whole uses the same direction as
  mapping its entries one by one.\<close>

lemma kernel_dir_values: "dir \<in> {SHANNON_DMA_TODEVICE, SHANNON_DMA_FROMDEVICE} \<Longrightarrow> kernel_dir dir = dir"
  by (auto simp: kernel_dir_def SHANNON_DMA_TODEVICE_def SHANNON_DMA_FROMDEVICE_def DMA_TO_DEVICE_def DMA_FROM_DEVICE_def)

section \<open>The loop\<close>

lemma dma_map_loop_first:
  "(\<And>j. j < n \<Longrightarrow> err (f (i + j))) \<Longrightarrow> \<not> err (f (i + n)) \<Longrightarrow> dma_map_loop err f i = Some (f (i + n))"
proof (induction n arbitrary: i)
  case 0
  then show ?case by (simp add: dma_map_loop.simps [of err f i] shannon_dma_mapping_error_def)
next
  case (Suc n)
  have "err (f i)" using Suc.prems(1) [of 0] by simp
  moreover have "dma_map_loop err f (Suc i) = Some (f (Suc i + n))"
  proof (rule Suc.IH)
    show "err (f (Suc i + j))" if "j < n" for j using Suc.prems(1) [of "Suc j"] that by simp
    show "\<not> err (f (Suc i + n))" using Suc.prems(2) by simp
  qed
  ultimately show ?case by (simp add: dma_map_loop.simps [of err f i] shannon_dma_mapping_error_def)
qed

lemma dma_map_loop_sound: "dma_map_loop err f i = Some a \<Longrightarrow> \<exists>n. f n = a \<and> \<not> err a"
  by (rule dma_map_loop.raw_induct [where P = "\<lambda>err f i a. \<exists>n. f n = a \<and> \<not> err a"])
    (auto simp: shannon_dma_mapping_error_def Let_def split: if_splits)

lemma dma_map_loop_returns: "(\<exists>a. dma_map_loop err f 0 = Some a) \<longleftrightarrow> (\<exists>n. \<not> err (f n))"
proof
  assume "\<exists>n. \<not> err (f n)"
  then have "\<not> err (f (0 + (LEAST n. \<not> err (f n))))" unfolding add_0 by (rule LeastI_ex)
  moreover have "err (f (0 + j))" if "j < (LEAST n. \<not> err (f n))" for j using not_less_Least [OF that] by simp
  ultimately have "dma_map_loop err f 0 = Some (f (0 + (LEAST n. \<not> err (f n))))" by (intro dma_map_loop_first)
  then show "\<exists>a. dma_map_loop err f 0 = Some a" ..
next
  show "\<exists>a. dma_map_loop err f 0 = Some a \<Longrightarrow> \<exists>n. \<not> err (f n)" using dma_map_loop_sound [of err f 0] by metis
qed

section \<open>Properties\<close>

text \<open>C34 (termination). Mapping an entry of a scatter-gather table returns exactly if some attempt to map its page, offset and
  length succeeds. If \<open>n\<close> is the first attempt that does, it returns the address of that attempt and stores it in that entry
  alone, and unmapping the entry gives back that address, its length and the same direction.\<close>

theorem dma_map_one_returns:
  fixes dma_map_page :: "ptr \<Rightarrow> nat \<Rightarrow> nat \<Rightarrow> int \<Rightarrow> nat \<Rightarrow> u64" and dir :: int and e :: sg_entry
  assumes "sg_deref t sg = Some e"
  defines "f \<equiv> dma_map_page (sge_page e) (sge_offset e) (sge_length e) (kernel_dir dir)"
  shows "((\<exists>r. shannon_dma_map_one_sg_page err dma_map_page t sg dir = Some r) \<longleftrightarrow> (\<exists>n. \<not> err (f n))) \<and>
    (\<not> err (f n) \<and> list_all (\<lambda>i. err (f i)) [0 ..< n] \<longrightarrow>
      (\<exists>t'. shannon_dma_map_one_sg_page err dma_map_page t sg dir = Some (f n, t') \<and>
        sg_deref t' sg = Some (e\<lparr>sge_dma := f n\<rparr>) \<and> (\<forall>p. p \<noteq> sg \<longrightarrow> sg_deref t' p = sg_deref t p) \<and>
        shannon_dma_unmap_one_sg_page t' sg dir = Some (DmaUnmapPage (f n) (sge_length e) (kernel_dir dir))))"
proof -
  obtain i where i: "sg = Some i" "i < length t" "t ! i = e"
    using assms(1) by (auto simp: sg_deref_def split: option.splits if_splits)
  have set: "shannon_sg_set_dma_address t sg b = Some (t[i := e\<lparr>sge_dma := b\<rparr>])" for b
    using i by (simp add: shannon_sg_set_dma_address_def sg_store_def)
  have map: "shannon_dma_map_one_sg_page err dma_map_page t sg dir =
      map_option (\<lambda>b. (b, t[i := e\<lparr>sge_dma := b\<rparr>])) (dma_map_loop err f 0)"
    using assms(1) by (simp add: shannon_dma_map_one_sg_page_def shannon_sg_page_def shannon_sg_offset_def shannon_sg_length_def
        set f_def split: option.split)
  have first: "dma_map_loop err f 0 = Some (f n)" if "\<not> err (f n)" "list_all (\<lambda>i. err (f i)) [0 ..< n]"
    using that dma_map_loop_first [of n err f 0] by (simp add: list_all_iff)
  have stored: "sg_deref (t[i := e\<lparr>sge_dma := b\<rparr>]) sg = Some (e\<lparr>sge_dma := b\<rparr>)"
    "p \<noteq> sg \<Longrightarrow> sg_deref (t[i := e\<lparr>sge_dma := b\<rparr>]) p = sg_deref t p"
    "shannon_dma_unmap_one_sg_page (t[i := e\<lparr>sge_dma := b\<rparr>]) sg dir = Some (DmaUnmapPage b (sge_length e) (kernel_dir dir))" for b p
    using i by (auto simp: sg_deref_def nth_list_update shannon_dma_unmap_one_sg_page_def shannon_sg_dma_address_def shannon_sg_length_def
        split: option.split)
  have "(\<exists>r. shannon_dma_map_one_sg_page err dma_map_page t sg dir = Some r) \<longleftrightarrow> (\<exists>n. \<not> err (f n))"
    using dma_map_loop_returns [of err f] by (auto simp: map)
  then show ?thesis using first stored by (auto simp: map)
qed

text \<open>An IOMMU that has no address for the first two attempts: \<^term>\<open>0 :: u64\<close> is its error value.\<close>

definition sample_map_page :: "ptr \<Rightarrow> nat \<Rightarrow> nat \<Rightarrow> int \<Rightarrow> nat \<Rightarrow> u64" where
  "sample_map_page p off len dir i = (if i < 2 then 0 else word_of_nat (4096 * p + off))"

definition sample_sg :: sg_table where
  "sample_sg = [zero_sge\<lparr>sge_page := 5, sge_offset := 512, sge_length := 1024, sge_end := True\<rparr>]"

theorem dma_map_one_returns_witness:
  "\<exists>t'. shannon_dma_map_one_sg_page (\<lambda>a. a = 0) sample_map_page sample_sg (Some 0) SHANNON_DMA_FROMDEVICE = Some (20992, t') \<and>
    shannon_dma_unmap_one_sg_page t' (Some 0) SHANNON_DMA_FROMDEVICE = Some (DmaUnmapPage 20992 1024 DMA_FROM_DEVICE)"
proof -
  let ?e = "zero_sge\<lparr>sge_page := 5, sge_offset := 512, sge_length := 1024, sge_end := True\<rparr>"
  have "sg_deref sample_sg (Some 0) = Some ?e" by (simp add: sg_deref_def sample_sg_def)
  from dma_map_one_returns [OF this, of "\<lambda>a. a = 0" sample_map_page SHANNON_DMA_FROMDEVICE 2] show ?thesis
    by (auto simp: sample_map_page_def upt_rec kernel_dir_def)
qed

end
