(* ===== verification/Timekeeping.thy ===== *)
theory Timekeeping
  imports Prelude
begin

text \<open>
  Time (\<^verbatim>\<open>shannon_time.c\<close>): timers, the clock and comparisons of jiffies. A timer is the part of the kernel's \<^verbatim>\<open>struct timer_list\<close>
  that the driver writes, for kernels before 4.15 (with a data word) and from 4.15 on. The kernel macros \<open>time_after_eq\<close> and
  \<open>time_before\<close> compare the difference of two counters as a signed number; here on 64 bits.
\<close>

section \<open>Timers\<close>

text \<open>\<open>'f\<close> are the callbacks of the core; a timer is known by its address.\<close>

record 'f timer_list =
  tl_addr :: ptr
  tl_expires :: u64
  tl_function :: "'f option"
  tl_data :: ptr
  tl_pending :: bool

definition shannon_init_timer :: "'f timer_list \<Rightarrow> 'f timer_list" where
  "shannon_init_timer timer = timer\<lparr>tl_pending := False, tl_function := None\<rparr>"

text \<open>\<open>add_timer\<close> stops the kernel if the timer is pending.\<close>

definition shannon_add_timer :: "'f timer_list \<Rightarrow> u64 \<Rightarrow> 'f timer_list option" where
  "shannon_add_timer timer expires =
    (let timer = timer\<lparr>tl_expires := expires\<rparr>
     in if tl_pending timer then None else Some (timer\<lparr>tl_pending := True\<rparr>))"

definition shannon_del_timer :: "'f timer_list \<Rightarrow> 'f timer_list \<times> int" where
  "shannon_del_timer timer = (timer\<lparr>tl_pending := False\<rparr>, if tl_pending timer then 1 else 0)"

definition shannon_mod_timer :: "'f timer_list \<Rightarrow> u64 \<Rightarrow> 'f timer_list \<times> int" where
  "shannon_mod_timer timer expires = (timer\<lparr>tl_expires := expires, tl_pending := True\<rparr>, if tl_pending timer then 1 else 0)"

definition shannon_timer_pending :: "'f timer_list \<Rightarrow> bool" where
  "shannon_timer_pending timer = tl_pending timer"

definition shannon_set_timer_context :: "'f timer_list \<Rightarrow> 'f \<Rightarrow> 'f timer_list" where
  "shannon_set_timer_context timer f = timer\<lparr>tl_function := Some f\<rparr>"

definition shannon_set_timer_context_4_14 :: "'f timer_list \<Rightarrow> 'f \<Rightarrow> 'f timer_list" where
  "shannon_set_timer_context_4_14 timer f = timer\<lparr>tl_data := tl_addr timer, tl_function := Some f\<rparr>"

definition shannon_timer_has_function :: "'f timer_list \<Rightarrow> int" where
  "shannon_timer_has_function timer = (if tl_function timer \<noteq> None then 1 else 0)"

text \<open>How the kernel runs a timer that expires: from 4.15 on the callback gets the timer, before that the data word. \<open>None\<close> is a
  call of NULL.\<close>

definition expire :: "'f timer_list \<Rightarrow> ('f \<times> ptr) option" where
  "expire timer = map_option (\<lambda>f. (f, tl_addr timer)) (tl_function timer)"

definition expire_4_14 :: "'f timer_list \<Rightarrow> ('f \<times> ptr) option" where
  "expire_4_14 timer = map_option (\<lambda>f. (f, tl_data timer)) (tl_function timer)"

section \<open>Clock and jiffies\<close>

record shannon_timeval =
  tv_sec :: u64
  tv_usec :: u64

text \<open>The kernel's clock gives seconds and nanoseconds.\<close>

definition shannon_getnstimeofday :: "int \<times> int \<Rightarrow> shannon_timeval" where
  "shannon_getnstimeofday time = \<lparr>tv_sec = word_of_int (fst time), tv_usec = word_of_int (snd time div 1000)\<rparr>"

definition shannon_do_gettimeofday :: "int \<times> int \<Rightarrow> shannon_timeval" where
  "shannon_do_gettimeofday time = shannon_getnstimeofday time"

text \<open>Before 5.6 the clock is that of \<open>struct timespec\<close>, and before 5.0 there is one that gives microseconds.\<close>

definition shannon_getnstimeofday_5_5 :: "int \<times> int \<Rightarrow> shannon_timeval" where
  "shannon_getnstimeofday_5_5 time = \<lparr>tv_sec = word_of_int (fst time), tv_usec = word_of_int (snd time div 1000)\<rparr>"

definition shannon_do_gettimeofday_4_20 :: "int \<times> int \<Rightarrow> shannon_timeval" where
  "shannon_do_gettimeofday_4_20 time = \<lparr>tv_sec = word_of_int (fst time), tv_usec = word_of_int (snd time)\<rparr>"

definition shannon_time_after_eq :: "u64 \<Rightarrow> u64 \<Rightarrow> bool" where
  "shannon_time_after_eq now timeout \<longleftrightarrow> 0 \<le> sint (now - timeout)"

definition shannon_time_before :: "u64 \<Rightarrow> u64 \<Rightarrow> bool" where
  "shannon_time_before now timeout \<longleftrightarrow> sint (now - timeout) < 0"

section \<open>Timers run the callback that was set\<close>

lemma timer_callback:
  "expire (shannon_set_timer_context timer f) = Some (f, tl_addr timer) \<and>
   expire_4_14 (shannon_set_timer_context_4_14 timer f) = Some (f, tl_addr timer) \<and>
   shannon_timer_has_function (shannon_set_timer_context timer f) = 1 \<and> shannon_timer_has_function (shannon_init_timer timer) = 0"
  by (simp add: expire_def expire_4_14_def shannon_set_timer_context_def shannon_set_timer_context_4_14_def
      shannon_timer_has_function_def shannon_init_timer_def)

lemma timer_added_once:
  "shannon_add_timer (shannon_init_timer timer) t = Some timer' \<Longrightarrow>
   tl_expires timer' = t \<and> shannon_timer_pending timer' \<and> shannon_add_timer timer' t2 = None \<and>
   shannon_timer_pending (fst (shannon_mod_timer timer' t2)) \<and> snd (shannon_del_timer timer') = 1 \<and>
   snd (shannon_del_timer (fst (shannon_del_timer timer'))) = 0"
  by (auto simp: shannon_add_timer_def shannon_init_timer_def shannon_timer_pending_def shannon_mod_timer_def shannon_del_timer_def)

text \<open>The clock's nanoseconds stay below a second, so the microseconds are exact and below a million.\<close>

lemma timeval_exact:
  assumes "0 \<le> ns" "ns < 1000000000" "0 \<le> s" "s < 2 ^ 64"
  shows "uint (tv_usec (shannon_getnstimeofday (s, ns))) = ns div 1000 \<and> ns div 1000 < 1000000 \<and>
    uint (tv_sec (shannon_getnstimeofday (s, ns))) = s"
proof -
  have "ns div 1000 < 1000000" "0 \<le> ns div 1000" using assms by auto
  then show ?thesis using assms by (simp add: shannon_getnstimeofday_def uint_word_of_int)
qed

text \<open>The variants give the same time when the kernel's two clocks do.\<close>

lemma timeval_variants:
  assumes "us = ns div 1000"
  shows "shannon_getnstimeofday_5_5 (s, ns) = shannon_getnstimeofday (s, ns) \<and>
    shannon_do_gettimeofday_4_20 (s, us) = shannon_do_gettimeofday (s, ns)"
  using assms by (simp add: shannon_getnstimeofday_5_5_def shannon_getnstimeofday_def shannon_do_gettimeofday_4_20_def shannon_do_gettimeofday_def)

section \<open>Deadlines\<close>

lemma sint_diff_small:
  assumes "(a :: nat) < 2 ^ 63" "b < 2 ^ 63"
  shows "sint (word_of_nat a - word_of_nat b :: u64) = int a - int b"
proof -
  have "- (2 ^ (LENGTH(64) - Suc 0)) \<le> int a - int b \<and> int a - int b < 2 ^ (LENGTH(64) - Suc 0)" using assms by simp
  then have "signed_take_bit (LENGTH(64) - Suc 0) (int a - int b) = int a - int b"
    by (intro signed_take_bit_int_eq_self) blast+
  then have "sint (word_of_int (int a - int b) :: u64) = int a - int b" unfolding sint_sbintrunc' by simp
  then show ?thesis by simp
qed

text \<open>A deadline set \<open>d\<close> ticks after a counter value \<open>start\<close> is reported as reached after \<open>e\<close> ticks exactly if
  \<open>d \<le> e\<close>, and as still ahead exactly if \<open>e < d\<close>, wherever the 64-bit counter wraps in between, as long as both distances stay
  below half of its range.\<close>

theorem deadline_survives_wrap:
  fixes start :: u64
  assumes "d < 2 ^ 63" "e < 2 ^ 63"
  shows "(shannon_time_after_eq (start + word_of_nat e) (start + word_of_nat d) \<longleftrightarrow> d \<le> e) \<and>
    (shannon_time_before (start + word_of_nat e) (start + word_of_nat d) \<longleftrightarrow> e < d)"
proof -
  have "(start + word_of_nat e) - (start + word_of_nat d) = word_of_nat e - word_of_nat d" by simp
  then show ?thesis using sint_diff_small [OF assms(2,1)] by (simp add: shannon_time_after_eq_def shannon_time_before_def)
qed

theorem deadline_survives_wrap_witness:
  "\<not> shannon_time_after_eq 4 5 \<and> shannon_time_before (- 6) 4 \<and> shannon_time_after_eq 4 (- 6)"
  using deadline_survives_wrap [of 15 14 "- 10"] deadline_survives_wrap [of 14 4 "- 10"] deadline_survives_wrap [of 4 14 "- 10"]
  by simp

end
