(* ===== verification/Seq_File.thy ===== *)
theory Seq_File
  imports Prelude
begin

text \<open>
  Output of the debug files (\<^verbatim>\<open>shannon_file.c\<close>): \<open>shannon_seq_printf\<close> writes into the buffer of a kernel \<^verbatim>\<open>struct seq_file\<close> itself.
  The buffer is a list of characters, \<open>count\<close> the bytes used. What a format and its arguments
  expand to is given as a string; \<open>vsnprintf\<close> is modelled as the C library defines it: it writes at most \<open>n\<close> characters with the
  terminating NUL and returns the length of the whole expansion. A write outside the buffer is the result \<open>None\<close>.
\<close>

section \<open>Operations\<close>

record seq_file =
  sf_buf :: string
  sf_size :: nat
  sf_count :: nat

text \<open>The characters \<open>vsnprintf (p, n, ...)\<close> stores for the expansion \<open>s\<close>.\<close>

definition vsnprintf_out :: "nat \<Rightarrow> string \<Rightarrow> string" where
  "vsnprintf_out n s = (if n = 0 then [] else take (n - 1) s @ [CHR 0x00])"

definition store_at :: "string \<Rightarrow> nat \<Rightarrow> string \<Rightarrow> string option" where
  "store_at buf i out = (if i + length out \<le> length buf then Some (take i buf @ out @ drop (i + length out) buf) else None)"

definition shannon_seq_printf :: "seq_file \<Rightarrow> string \<Rightarrow> (seq_file \<times> int) option" where
  "shannon_seq_printf m s =
    (if sf_count m < sf_size m then
      (case store_at (sf_buf m) (sf_count m) (vsnprintf_out (sf_size m - sf_count m) s) of None \<Rightarrow> None
       | Some buf \<Rightarrow>
          let m = m\<lparr>sf_buf := buf\<rparr>; len = length s
          in if sf_count m + len < sf_size m then Some (m\<lparr>sf_count := sf_count m + len\<rparr>, 0)
             else Some (m\<lparr>sf_count := sf_size m\<rparr>, -1))
     else Some (m\<lparr>sf_count := sf_size m\<rparr>, -1))"

text \<open>A show function prints line after line and does not look at the results.\<close>

fun print_all :: "seq_file \<Rightarrow> string list \<Rightarrow> (seq_file \<times> int list) option" where
  "print_all m [] = Some (m, [])"
| "print_all m (s # ss) =
    (case shannon_seq_printf m s of None \<Rightarrow> None
     | Some (m', r) \<Rightarrow> map_option (\<lambda>(m'', rs). (m'', r # rs)) (print_all m' ss))"

section \<open>One call\<close>

definition seq_ok :: "seq_file \<Rightarrow> bool" where
  "seq_ok m \<longleftrightarrow> length (sf_buf m) = sf_size m \<and> sf_count m \<le> sf_size m"

lemma vsnprintf_out_fits: "length (vsnprintf_out n s) \<le> n"
  by (auto simp: vsnprintf_out_def)

lemma store_at_inside:
  assumes "i + length out \<le> length buf"
  shows "\<exists>buf'. store_at buf i out = Some buf' \<and> length buf' = length buf \<and> take i buf' = take i buf \<and>
    take (length out) (drop i buf') = out"
  using assms by (simp add: store_at_def)

lemma seq_printf_step:
  assumes "seq_ok m"
  shows "\<exists>m' r. shannon_seq_printf m s = Some (m', r) \<and> seq_ok m' \<and> sf_size m' = sf_size m \<and>
    take (sf_count m) (sf_buf m') = take (sf_count m) (sf_buf m) \<and>
    (if sf_count m + length s < sf_size m
     then r = 0 \<and> take (sf_count m') (sf_buf m') = take (sf_count m) (sf_buf m) @ s \<and> sf_count m' = sf_count m + length s
     else r = -1 \<and> sf_count m' = sf_size m)"
proof (cases "sf_count m < sf_size m")
  case True
  let ?out = "vsnprintf_out (sf_size m - sf_count m) s"
  have len: "sf_count m + length ?out \<le> length (sf_buf m)"
    using assms True vsnprintf_out_fits [of "sf_size m - sf_count m" s] by (simp add: seq_ok_def)
  obtain buf where buf: "store_at (sf_buf m) (sf_count m) ?out = Some buf" "length buf = length (sf_buf m)"
    "take (sf_count m) buf = take (sf_count m) (sf_buf m)" "take (length ?out) (drop (sf_count m) buf) = ?out"
    using store_at_inside [OF len] by blast
  have "take (sf_count m + length s) buf = take (sf_count m) (sf_buf m) @ s" if fits: "sf_count m + length s < sf_size m"
  proof -
    have out: "?out = s @ [CHR 0x00]" using fits by (simp add: vsnprintf_out_def)
    have "take (length s) (drop (sf_count m) buf) = take (length s) (take (length ?out) (drop (sf_count m) buf))"
      by (simp add: out)
    also have "\<dots> = s" unfolding buf(4) by (simp add: out)
    finally show ?thesis using buf(3) by (simp add: take_add)
  qed
  then show ?thesis using True buf(1-3) assms
    by (cases "sf_count m + length s < sf_size m") (auto simp: shannon_seq_printf_def seq_ok_def)
next
  case False
  then show ?thesis using assms by (auto simp: shannon_seq_printf_def seq_ok_def)
qed

lemma set_full_count: "sf_count m = sf_size m \<Longrightarrow> m\<lparr>sf_count := sf_size m\<rparr> = m"
  by (cases m) simp

lemma seq_full_stays:
  "seq_ok m \<Longrightarrow> sf_count m = sf_size m \<Longrightarrow> print_all m ss = Some (m, replicate (length ss) (-1))"
  by (induction ss) (simp_all add: shannon_seq_printf_def set_full_count)

section \<open>Many calls\<close>

text \<open>The text the calls should leave: the lines as long as each fits with its NUL; from the first that does not, the buffer counts
  as full.\<close>

fun fitting :: "nat \<Rightarrow> nat \<Rightarrow> string list \<Rightarrow> string list" where
  "fitting sz n [] = []"
| "fitting sz n (s # ss) = (if n + length s < sz then s # fitting sz (n + length s) ss else [])"

text \<open>C33 (bounds). Any number of calls of \<open>shannon_seq_printf\<close> stays inside the buffer and keeps its size and what was in it. The calls
  succeed exactly up to the first text that does not fit with its terminating NUL; the texts up to there are in the buffer one after the
  other. From that text on every call fails, and the buffer counts as full, which makes the kernel try again with a larger one.\<close>

theorem seq_printf_appends:
  fixes m :: seq_file and ss :: "string list"
  assumes "seq_ok m"
  defines "fit \<equiv> fitting (sf_size m) (sf_count m) ss"
  shows "\<exists>m' rs. print_all m ss = Some (m', rs) \<and> seq_ok m' \<and> sf_size m' = sf_size m \<and>
    rs = replicate (length fit) 0 @ replicate (length ss - length fit) (-1) \<and>
    take (sf_count m + length (concat fit)) (sf_buf m') = take (sf_count m) (sf_buf m) @ concat fit \<and>
    sf_count m' = (if length fit = length ss then sf_count m + length (concat fit) else sf_size m)"
  unfolding fit_def using assms(1)
proof (induction ss arbitrary: m)
  case Nil
  then show ?case by simp
next
  case (Cons s ss)
  obtain m' r where step: "shannon_seq_printf m s = Some (m', r)" "seq_ok m'" "sf_size m' = sf_size m"
    "take (sf_count m) (sf_buf m') = take (sf_count m) (sf_buf m)"
    "if sf_count m + length s < sf_size m
     then r = 0 \<and> take (sf_count m') (sf_buf m') = take (sf_count m) (sf_buf m) @ s \<and> sf_count m' = sf_count m + length s
     else r = -1 \<and> sf_count m' = sf_size m"
    using seq_printf_step [OF Cons.prems, of s] by blast
  show ?case
  proof (cases "sf_count m + length s < sf_size m")
    case True
    then show ?thesis using Cons.IH [OF step(2)] step by (auto simp: add.assoc)
  next
    case False
    then show ?thesis using seq_full_stays [OF step(2)] step by auto
  qed
qed

definition empty_seq :: "nat \<Rightarrow> seq_file" where
  "empty_seq n = \<lparr>sf_buf = replicate n (CHR 0x00), sf_size = n, sf_count = 0\<rparr>"

theorem seq_printf_appends_witness:
  "\<exists>m' rs. print_all (empty_seq 6) [''ab'', ''cd'', ''efg'', ''h''] = Some (m', rs) \<and>
    take (length ''abcd'') (sf_buf m') = ''abcd'' \<and> rs = [0, 0, -1, -1] \<and> sf_count m' = 6"
proof -
  have "seq_ok (empty_seq 6)" by (simp add: seq_ok_def empty_seq_def)
  from seq_printf_appends [OF this, of "[''ab'', ''cd'', ''efg'', ''h'']"] show ?thesis
    by (auto simp: empty_seq_def)
qed

end
