(* ===== verification/Sched.thy ===== *)
theory Sched
  imports Prelude
begin

text \<open>
  Threads (\<^verbatim>\<open>shannon_sched.c\<close>, \<open>shannon_fio_cpumask_set\<close> of \<^verbatim>\<open>shannon_block.c\<close>): scheduling class, creation and processor affinity.
  The kernel functions that change the class or the affinity of a task are arguments; what a lemma relies on of their
  documented behaviour (the ranges of nice values and priorities they accept) is a hypothesis of the lemma.
\<close>

section \<open>Scheduling class\<close>

datatype sched_policy = SCHED_NORMAL | SCHED_FIFO

definition MAX_PRIO :: int where "MAX_PRIO = 140"
definition MAX_RT_PRIO :: int where "MAX_RT_PRIO = 100"
definition MAX_USER_RT_PRIO :: int where "MAX_USER_RT_PRIO = 100"

text \<open>The kernel's functions; those of 5.9 and later have no result.\<close>

record 't sched_ops =
  sched_set_normal :: "'t \<Rightarrow> int \<Rightarrow> 't"
  sched_set_fifo :: "'t \<Rightarrow> 't"
  sched_setscheduler :: "'t \<Rightarrow> sched_policy \<Rightarrow> int \<Rightarrow> 't \<times> int"

text \<open>The functions of the driver: from 5.9 on, on 5.7 and 5.8, and before.\<close>

datatype kernel_version = V5_9 | V5_7 | V_old

definition set_thread_normal :: "'t sched_ops \<Rightarrow> kernel_version \<Rightarrow> 't \<Rightarrow> 't \<times> int" where
  "set_thread_normal k v current =
    (if v = V5_9 then (sched_set_normal k current 0, 0) else sched_setscheduler k current SCHED_NORMAL 0)"

definition set_thread_highest_prio_normal :: "'t sched_ops \<Rightarrow> kernel_version \<Rightarrow> 't \<Rightarrow> 't \<times> int" where
  "set_thread_highest_prio_normal k v current =
    (if v = V5_9 then (sched_set_normal k current (MAX_PRIO - 1), 0)
     else sched_setscheduler k current SCHED_NORMAL (MAX_PRIO - 1))"

definition set_thread_rt :: "'t sched_ops \<Rightarrow> kernel_version \<Rightarrow> 't \<Rightarrow> 't \<times> int" where
  "set_thread_rt k v current =
    (case v of V5_9 \<Rightarrow> (sched_set_fifo k current, 0)
     | V5_7 \<Rightarrow> sched_setscheduler k current SCHED_FIFO (MAX_RT_PRIO - 1)
     | V_old \<Rightarrow> sched_setscheduler k current SCHED_FIFO (MAX_USER_RT_PRIO - 1))"

section \<open>Creating a thread\<close>

text \<open>What a format without arguments expands to; \<open>None\<close> reads an argument that is not there.\<close>

fun expand :: "string \<Rightarrow> string option" where
  "expand [] = Some []"
| "expand (c # cs) =
    (if c \<noteq> CHR ''%'' then map_option (Cons c) (expand cs)
     else case cs of [] \<Rightarrow> None | d # ds \<Rightarrow> if d = CHR ''%'' then map_option (Cons CHR ''%'') (expand ds) else None)"

text \<open>\<open>kvasprintf\<close> before 2.6.22: a buffer that is just long enough, given what the format expands to and whether memory is available.\<close>

definition kvasprintf :: "bool \<Rightarrow> string \<Rightarrow> string option" where
  "kvasprintf mem s = (let len = length s in if \<not> mem then None else Some (take len s @ [CHR 0x00]))"

definition c_string :: "string \<Rightarrow> string" where
  "c_string p = takeWhile (\<lambda>c. c \<noteq> CHR 0x00) p"

text \<open>\<open>shannon_kthread_run\<close>: \<open>name\<close> is what the format given by the caller expands to, \<open>kthread\<close> creates a thread with a
  name and returns its task. The expanded name becomes the format of \<open>kthread_run\<close>.\<close>

definition shannon_kthread_run :: "(string \<Rightarrow> 't) \<Rightarrow> bool \<Rightarrow> string \<Rightarrow> 't option" where
  "shannon_kthread_run kthread mem name =
    (case kvasprintf mem name of None \<Rightarrow> None
     | Some p \<Rightarrow> map_option kthread (expand (c_string p)))"

section \<open>Affinity\<close>

type_synonym cpumask = "bool list"

definition shannon_not_set_cpumask :: "cpumask \<Rightarrow> bool" where
  "shannon_not_set_cpumask m = list_all (\<lambda>b. b) m"

text \<open>\<open>set_allowed\<close> is \<open>set_cpus_allowed_ptr\<close> for the task: its new mask and the result; \<open>cpumask_of\<close> gives the processors of a node.\<close>

definition NUMA_NO_NODE :: int where "NUMA_NO_NODE = -1"

definition shannon_set_node_cpus_allowed ::
    "(cpumask \<Rightarrow> cpumask \<Rightarrow> cpumask \<times> int) \<Rightarrow> (int \<Rightarrow> cpumask) \<Rightarrow> cpumask \<Rightarrow> int \<Rightarrow> cpumask \<times> int" where
  "shannon_set_node_cpus_allowed set_allowed cpumask_of m node =
    (if node \<noteq> NUMA_NO_NODE then
      let mask = cpumask_of node in if list_ex (\<lambda>b. b) mask then set_allowed m mask else (m, 0)
     else (m, 0))"

definition shannon_fio_cpumask_set ::
    "(cpumask \<Rightarrow> cpumask \<Rightarrow> cpumask \<times> int) \<Rightarrow> (int \<Rightarrow> cpumask) \<Rightarrow> int \<Rightarrow> string option \<Rightarrow> cpumask \<Rightarrow> cpumask" where
  "shannon_fio_cpumask_set set_allowed cpumask_of numa_node comm m =
    (if numa_node < 0 then m
     else case comm of None \<Rightarrow> m
     | Some name \<Rightarrow>
        if name = ''fio'' then
          if shannon_not_set_cpumask m then fst (shannon_set_node_cpus_allowed set_allowed cpumask_of m numa_node) else m
        else m)"

section \<open>What they do\<close>

lemmas sched_defs = set_thread_normal_def set_thread_rt_def set_thread_highest_prio_normal_def MAX_PRIO_def MAX_RT_PRIO_def
  MAX_USER_RT_PRIO_def

text \<open>The documented behaviour: which requests are accepted, and that one that is refused changes nothing. \<open>policy_of\<close> reads the class
  of a task.\<close>

definition sched_documented :: "'t sched_ops \<Rightarrow> ('t \<Rightarrow> sched_policy) \<Rightarrow> bool" where
  "sched_documented k policy_of \<longleftrightarrow>
    (\<forall>t nice. if - 20 \<le> nice \<and> nice \<le> 19 then policy_of (sched_set_normal k t nice) = SCHED_NORMAL else sched_set_normal k t nice = t) \<and>
    (\<forall>t. policy_of (sched_set_fifo k t) = SCHED_FIFO) \<and>
    (\<forall>t p prio. if p = SCHED_NORMAL \<and> prio = 0 \<or> p = SCHED_FIFO \<and> 1 \<le> prio \<and> prio \<le> 99
       then policy_of (fst (sched_setscheduler k t p prio)) = p \<and> snd (sched_setscheduler k t p prio) = 0
       else sched_setscheduler k t p prio = (t, - EINVAL))"

text \<open>On every kernel the thread of a work queue becomes a real-time thread, and a normal one again.\<close>

lemma thread_class_toggles:
  assumes "sched_documented k policy_of"
  shows "policy_of (fst (set_thread_rt k v t)) = SCHED_FIFO \<and> snd (set_thread_rt k v t) = 0 \<and>
   policy_of (fst (set_thread_normal k v t)) = SCHED_NORMAL \<and> snd (set_thread_normal k v t) = 0"
  using assms by (cases v) (simp_all add: sched_defs sched_documented_def)

text \<open>The request of \<open>set_thread_highest_prio_normal\<close> is refused on every kernel: 139 is no nice value and no priority of the normal
  class. Nothing changes, and from 5.9 on the caller gets 0.\<close>

theorem highest_prio_normal_refused:
  assumes "sched_documented k policy_of"
  shows "set_thread_highest_prio_normal k v t = (t, if v = V5_9 then 0 else - EINVAL)"
  using assms by (simp add: sched_defs sched_documented_def)

text \<open>A scheduler that behaves as documented, on tasks that are their class.\<close>

definition plain_scheduler :: "sched_policy sched_ops" where
  "plain_scheduler = \<lparr>sched_set_normal = \<lambda>t nice. if - 20 \<le> nice \<and> nice \<le> 19 then SCHED_NORMAL else t,
     sched_set_fifo = \<lambda>t. SCHED_FIFO,
     sched_setscheduler = \<lambda>t p prio. if p = SCHED_NORMAL \<and> prio = 0 \<or> p = SCHED_FIFO \<and> 1 \<le> prio \<and> prio \<le> 99 then (p, 0)
       else (t, - EINVAL)\<rparr>"

lemma plain_scheduler_documented: "sched_documented plain_scheduler (\<lambda>t. t)"
  by (simp add: sched_documented_def plain_scheduler_def)

text \<open>A thread gets the name asked for if it has no percent sign; one that has is expanded a second time.\<close>

lemma expand_plain: "CHR ''%'' \<notin> set s \<Longrightarrow> expand s = Some s"
  by (induction s) auto

lemma c_string_terminated: "CHR 0x00 \<notin> set s \<Longrightarrow> c_string (s @ [CHR 0x00]) = s"
  by (induction s) (auto simp: c_string_def)

lemma kthread_run_name:
  assumes "CHR 0x00 \<notin> set name" "CHR ''%'' \<notin> set name"
  shows "shannon_kthread_run kthread True name = Some (kthread name) \<and> shannon_kthread_run kthread False name = None"
  using assms by (simp add: shannon_kthread_run_def kvasprintf_def c_string_terminated expand_plain)

theorem kthread_run_expands_twice: "shannon_kthread_run (\<lambda>n. n) True ''a%s'' = None"
  by (simp add: shannon_kthread_run_def kvasprintf_def c_string_def)

text \<open>The affinity changes only for a task named fio that may run everywhere, on a device with a node; such a node without
  processors leaves it alone.\<close>

lemma fio_cpumask_changes:
  assumes "shannon_fio_cpumask_set set_allowed cpumask_of node comm m \<noteq> m"
  shows "0 \<le> node \<and> comm = Some ''fio'' \<and> shannon_not_set_cpumask m \<and> list_ex (\<lambda>b. b) (cpumask_of node) \<and>
    shannon_fio_cpumask_set set_allowed cpumask_of node comm m = fst (set_allowed m (cpumask_of node))"
  using assms
  by (auto simp: shannon_fio_cpumask_set_def shannon_set_node_cpus_allowed_def Let_def split: if_splits option.splits)

end
