(* ===== verification/Legacy_Request.thy ===== *)
theory Legacy_Request
  imports Block_IO
begin

text \<open>
  Completion of a request on old kernels (\<^verbatim>\<open>shannon_block.c\<close>). Before Linux 2.6.25 \<open>complete_buffers\<close> takes the chain of bios of a request
  apart and ends each of them; later kernels do that themselves. The chain is the field \<open>bi_next\<close> of every bio, and 0 is NULL. The
  driver keeps its verdict in the field \<open>errors\<close> of the request: 1 is good, 0 is an error. The conversion of a request before
  2.6.24 walks over its bios and their segments in two nested loops.
\<close>

section \<open>Operations\<close>

datatype end_event = EvEndio ptr int | EvFinishedIo ptr | EvStatSectors bool nat | EvRandomness | EvEndLast int
  | EvEndAll int | EvEndBytes int nat

record lreq =
  lr_bio :: ptr
  lr_errors :: int
  lr_fs :: bool              \<comment> \<open>\<open>blk_fs_request\<close>\<close>
  lr_dir :: bool             \<comment> \<open>\<open>rq_data_dir\<close>\<close>
  lr_nr_sectors :: nat
  lr_bytes :: nat

definition shannon_set_lreq_errors :: "lreq \<Rightarrow> int \<Rightarrow> lreq" where
  "shannon_set_lreq_errors rq errors = rq\<lparr>lr_errors := errors\<rparr>"

text \<open>The loop; \<open>v18\<close> says whether the kernel is older than 2.6.19.\<close>

partial_function (option) complete_buffers ::
    "bool \<Rightarrow> (ptr \<Rightarrow> ptr) \<Rightarrow> ptr \<Rightarrow> int \<Rightarrow> end_event list \<Rightarrow> (end_event list \<times> (ptr \<Rightarrow> ptr)) option" where
  "complete_buffers v18 nxt bio status evs =
    (if bio = 0 then Some (evs, nxt)
     else let xbh = nxt bio;
              nxt = nxt(bio := 0);
              evs = evs @ (if v18 then [EvFinishedIo bio] else []) @ [EvEndio bio (if status \<noteq> 0 then 0 else - EIO)]
          in complete_buffers v18 nxt xbh status evs)"

definition shannon_end_request_2_6_24 :: "bool \<Rightarrow> (ptr \<Rightarrow> ptr) \<Rightarrow> lreq \<Rightarrow> (end_event list \<times> (ptr \<Rightarrow> ptr)) option" where
  "shannon_end_request_2_6_24 v18 nxt rq =
    (case complete_buffers v18 nxt (lr_bio rq) (lr_errors rq) [] of None \<Rightarrow> None
     | Some (evs, nxt) \<Rightarrow>
        let evs = (if lr_fs rq then evs @ [EvStatSectors (lr_dir rq) (lr_nr_sectors rq)] else evs)
        in Some (evs @ [EvRandomness, EvEndLast (lr_errors rq)], nxt))"

definition shannon_end_request_2_6_31 :: "lreq \<Rightarrow> end_event" where
  "shannon_end_request_2_6_31 rq = EvEndAll (if lr_errors rq \<noteq> 0 then 0 else - EIO)"

definition shannon_end_request_2_6_30 :: "lreq \<Rightarrow> end_event" where
  "shannon_end_request_2_6_30 rq = EvEndBytes (if lr_errors rq \<noteq> 0 then 0 else - EIO) (lr_bytes rq)"

definition shannon_end_request_4_12 :: "lreq \<Rightarrow> int \<Rightarrow> end_event" where
  "shannon_end_request_4_12 rq error = EvEndBytes (if error \<noteq> 0 then 0 else - EIO) (lr_bytes rq)"

section \<open>The chain\<close>

fun chain :: "(ptr \<Rightarrow> ptr) \<Rightarrow> ptr \<Rightarrow> ptr list \<Rightarrow> bool" where
  "chain nxt p [] \<longleftrightarrow> p = 0"
| "chain nxt p (b # bs) \<longleftrightarrow> p = b \<and> b \<noteq> 0 \<and> chain nxt (nxt b) bs"

definition ending :: "bool \<Rightarrow> int \<Rightarrow> ptr \<Rightarrow> end_event list" where
  "ending v18 status b = (if v18 then [EvFinishedIo b] else []) @ [EvEndio b (if status \<noteq> 0 then 0 else - EIO)]"

definition endings :: "bool \<Rightarrow> int \<Rightarrow> ptr list \<Rightarrow> end_event list" where
  "endings v18 status bs = concat (map (ending v18 status) bs)"

lemma chain_upd: "b \<notin> set bs \<Longrightarrow> chain (nxt(b := x)) p bs = chain nxt p bs"
  by (induction bs arbitrary: p) auto

lemma complete_buffers_chain:
  assumes "chain nxt p bs" "distinct bs"
  shows "complete_buffers v18 nxt p status evs =
    Some (evs @ endings v18 status bs, \<lambda>b. if b \<in> set bs then 0 else nxt b)"
  using assms
proof (induction bs arbitrary: nxt p evs)
  case Nil
  then show ?case by (simp add: complete_buffers.simps endings_def)
next
  case (Cons b bs)
  have "chain (nxt(b := 0)) (nxt b) bs" "distinct bs" using Cons.prems by (auto simp: chain_upd)
  note IH = Cons.IH [OF this]
  have nxt: "(\<lambda>x. if x \<in> set bs then 0 else (nxt(b := 0)) x) = (\<lambda>x. if x \<in> set (b # bs) then 0 else nxt x)" by auto
  have "complete_buffers v18 nxt p status evs = complete_buffers v18 (nxt(b := 0)) (nxt b) status (evs @ ending v18 status b)"
    using Cons.prems by (subst complete_buffers.simps) (simp add: ending_def Let_def)
  then show ?case unfolding IH nxt by (simp add: endings_def)
qed

section \<open>Properties\<close>

text \<open>On kernels before 2.6.25 completing a request returns; it ends every bio of the request exactly once, in the
  order of the chain, without error if the driver's verdict is good and with -EIO otherwise, unlinks exactly these bios, and
  ends the request last; the sectors are counted for file system requests only.\<close>

theorem end_request_legacy_ends_all:
  assumes "chain nxt (lr_bio rq) bs" "distinct bs"
  shows "\<exists>evs nxt'. shannon_end_request_2_6_24 v18 nxt rq = Some (evs, nxt') \<and>
    filter (\<lambda>e. case e of EvEndio _ _ \<Rightarrow> True | _ \<Rightarrow> False) evs = map (\<lambda>b. EvEndio b (if lr_errors rq \<noteq> 0 then 0 else - EIO)) bs \<and>
    filter (\<lambda>e. case e of EvStatSectors _ _ \<Rightarrow> True | _ \<Rightarrow> False) evs =
      (if lr_fs rq then [EvStatSectors (lr_dir rq) (lr_nr_sectors rq)] else []) \<and>
    last evs = EvEndLast (lr_errors rq) \<and> nxt' = (\<lambda>b. if b \<in> set bs then 0 else nxt b)"
proof -
  have "filter (\<lambda>e. case e of EvEndio _ _ \<Rightarrow> True | _ \<Rightarrow> False) (endings v18 st bs) = map (\<lambda>b. EvEndio b (if st \<noteq> 0 then 0 else - EIO)) bs"
    "filter (\<lambda>e. case e of EvStatSectors _ _ \<Rightarrow> True | _ \<Rightarrow> False) (endings v18 st bs) = []" for st
    by (induction bs) (simp_all add: endings_def ending_def)
  then show ?thesis using complete_buffers_chain [OF assms] by (simp add: shannon_end_request_2_6_24_def)
qed

theorem end_request_legacy_ends_all_witness:
  "\<exists>evs nxt'. shannon_end_request_2_6_24 True (\<lambda>b. if b = 10 then 20 else 0)
     \<lparr>lr_bio = 10, lr_errors = LREQ_IO_ERROR, lr_fs = True, lr_dir = False, lr_nr_sectors = 8, lr_bytes = 4096\<rparr> = Some (evs, nxt') \<and>
     filter (\<lambda>e. case e of EvEndio _ _ \<Rightarrow> True | _ \<Rightarrow> False) evs = [EvEndio 10 (- EIO), EvEndio 20 (- EIO)] \<and> nxt' 10 = 0"
  using end_request_legacy_ends_all [of "\<lambda>b. if b = 10 then 20 else 0"
      "\<lparr>lr_bio = 10, lr_errors = LREQ_IO_ERROR, lr_fs = True, lr_dir = False, lr_nr_sectors = 8, lr_bytes = 4096\<rparr>" "[10, 20]" True]
  by auto

section \<open>Conversion before 2.6.24\<close>

text \<open>What \<open>rq_for_each_bio\<close> and, for each bio, \<open>bio_for_each_segment\<close> yield.\<close>

record bio_request =
  br_bios :: "bvec list list"
  br_bytes :: nat
  br_pos :: u64

text \<open>The variables of the loops: \<open>i\<close>, \<open>sbio->has_hole\<close>, and the table with what is left of the block.\<close>

record lreq_loop =
  ll_i :: nat
  ll_hole :: bool
  ll_conv :: conv_st

definition lreq_body :: "nat \<Rightarrow> nat \<Rightarrow> bvec \<Rightarrow> lreq_loop \<Rightarrow> lreq_loop option" where
  "lreq_body logicb_size segments bv s =
    (let s = (if ll_i s \<noteq> 0 \<and> bv_offset bv \<noteq> 0 then s\<lparr>ll_hole := True\<rparr> else s);
         s = (if int (ll_i s) \<noteq> int segments - 1 \<and> bv_offset bv + bv_len bv \<noteq> 4096 then s\<lparr>ll_hole := True\<rparr> else s)
     in case lreq_segment (bv_len bv + 1) logicb_size bv 0 (ll_conv s) of None \<Rightarrow> None
        | Some c \<Rightarrow> Some (s\<lparr>ll_conv := c, ll_i := ll_i s + 1\<rparr>))"

definition shannon_convert_lreq_2_6_23 ::
    "kenv \<Rightarrow> nat \<Rightarrow> shannon_bio \<Rightarrow> bio_request \<Rightarrow> (int \<times> shannon_bio) option" where
  "shannon_convert_lreq_2_6_23 k logicb_size sbio rq =
    (let sbio = sbio\<lparr>sb_segments := fold (\<lambda>bio n. n + length bio) (br_bios rq) 0\<rparr>;
         sbio = sbio\<lparr>sb_sg_count := 2 * sb_segments sbio + 1\<rparr>;
         sbio = sbio\<lparr>sb_sg := shannon_sg_alloc (k_kzalloc k) (k_GFP_NOWARN k) (sb_sg_count sbio) (k_GFP_SHANNON k)\<rparr>
     in case sb_sg sbio of None \<Rightarrow> Some (- ENOMEM, sbio)
        | Some t0 \<Rightarrow>
           (case shannon_sg_init_table t0 (sb_sg_count sbio) of None \<Rightarrow> None
            | Some t \<Rightarrow>
               let sbio = sbio\<lparr>sb_bio_size := br_bytes rq, sb_start_sector := br_pos rq\<rparr>;
                   sbio = sbio\<lparr>sb_first_size := first_size_of (sb_start_sector sbio) (sb_bio_size sbio) logicb_size\<rparr>;
                   remained = (if sb_first_size sbio \<noteq> 0 then sb_first_size sbio else logicb_size)
               in case fold_opt (\<lambda>bio s. fold_opt (lreq_body logicb_size (sb_segments sbio)) bio s) (br_bios rq)
                        \<lparr>ll_i = 0, ll_hole = False,
                         ll_conv = \<lparr>cv_cur = \<lparr>cur_table = t, cur_sg = None, cur_used = 0\<rparr>, cv_remained = remained\<rparr>\<rparr> of
                    None \<Rightarrow> None
                  | Some s \<Rightarrow>
                     let c = cv_cur (ll_conv s)
                     in (case shannon_sg_mark_end (cur_table c) (cur_sg c) of None \<Rightarrow> None
                         | Some t' \<Rightarrow> Some (0, sbio\<lparr>sb_sg := Some t', sb_used_sg_count := cur_used c, sb_has_hole := ll_hole s\<rparr>))))"

text \<open>The same request as later kernels present it: all segments in one sequence.\<close>

definition flat_request :: "bio_request \<Rightarrow> request" where
  "flat_request rq = \<lparr>rq_segs = concat (br_bios rq), rq_bio_segments = map length (br_bios rq), rq_bytes = br_bytes rq, rq_pos = br_pos rq\<rparr>"

lemma fold_opt_concat: "fold_opt (\<lambda>xs s. fold_opt f xs s) xss s = fold_opt f (concat xss) s"
  by (induction xss arbitrary: s) (auto simp: fold_opt_append split: option.split)

lemma lreq_body_hole:
  "lreq_body L n bv s = map_option (\<lambda>c. \<lparr>ll_i = ll_i s + 1, ll_hole = (if hole_at 0 n (ll_i s, bv) then True else ll_hole s), ll_conv = c\<rparr>)
     (lreq_segment (bv_len bv + 1) L bv 0 (ll_conv s))"
  by (cases s) (auto simp: lreq_body_def hole_at_def Let_def simp del: lreq_segment.simps split: option.split)

lemma fold_lreq_body:
  "fold_opt (lreq_body L n) bvs s =
   map_option (\<lambda>c. \<lparr>ll_i = ll_i s + length bvs,
       ll_hole = fold (\<lambda>ib h. if hole_at 0 n ib then True else h) (zip [ll_i s ..< ll_i s + length bvs] bvs) (ll_hole s), ll_conv = c\<rparr>)
     (fold_opt (\<lambda>bv c. lreq_segment (bv_len bv + 1) L bv 0 c) bvs (ll_conv s))"
proof (induction bvs arbitrary: s)
  case Nil
  then show ?case by (cases s) simp
next
  case (Cons bv bvs)
  have zip: "zip [ll_i s ..< ll_i s + length (bv # bvs)] (bv # bvs) =
      (ll_i s, bv) # zip [Suc (ll_i s) ..< Suc (ll_i s) + length bvs] bvs"
    by (simp add: upt_rec)
  show ?case
  proof (cases "lreq_segment (bv_len bv + 1) L bv 0 (ll_conv s)")
    case None
    then show ?thesis by (simp add: lreq_body_hole [of L n bv s] del: lreq_segment.simps)
  next
    case (Some c)
    then have "fold_opt (lreq_body L n) (bv # bvs) s = fold_opt (lreq_body L n) bvs
        \<lparr>ll_i = Suc (ll_i s), ll_hole = (if hole_at 0 n (ll_i s, bv) then True else ll_hole s), ll_conv = c\<rparr>"
      by (simp add: lreq_body_hole [of L n bv s] del: lreq_segment.simps)
    then show ?thesis unfolding zip using Some by (simp only: Cons.IH) (simp del: lreq_segment.simps upt_Suc)
  qed
qed

text \<open>The conversion of a request with the nested loops of old kernels gives the same result and the same
  table as the conversion with one loop over all segments, whatever the bios, also where it fails.\<close>

theorem convert_lreq_legacy_equiv:
  "shannon_convert_lreq_2_6_23 k L sb rq = shannon_convert_lreq k L sb (flat_request rq)"
proof -
  have "fold (\<lambda>bio n. n + length bio) xss a = fold (\<lambda>n acc. acc + n) (map length xss) a" for xss :: "bvec list list" and a
    by (induction xss arbitrary: a) auto
  then have segs: "fold (\<lambda>bio n. n + length bio) (br_bios rq) 0 = shannon_lreq_segments (flat_request rq)"
    by (simp add: shannon_lreq_segments_def flat_request_def)
  show ?thesis
    unfolding shannon_convert_lreq_2_6_23_def shannon_convert_lreq_def segs fold_opt_concat fold_lreq_body Let_def
    by (simp add: flat_request_def shannon_blk_rq_bytes_def shannon_blk_rq_pos_def del: lreq_segment.simps split: option.split)
qed

end
