(* ===== verification/Legacy_Queue.thy ===== *)
theory Legacy_Queue
  imports Block_Queue
begin

text \<open>
  Request queues on old kernels (\<^verbatim>\<open>shannon_block.c\<close>): the queue with the noop scheduler before 4.18, the queue with the default
  scheduler on 4.18 to 4.20, the queue without scheduler before 5.15, and the discard limits before 6.9. The kernel's answers are
  arguments. A queue is the part the driver sets: its data, the function that gets its I/O and its scheduler.
\<close>

section \<open>Queues\<close>

datatype request_fn = DiskRequest | MakeRequest | MakeRequestNs

record old_queue =
  oq_data :: "nat option"
  oq_fn :: request_fn
  oq_elevator :: "string option"

datatype old_event = BlkInitQueue | BlkAllocQueue | BlkCleanupQueue | ElevatorExit

text \<open>\<open>elevator_init\<close> answers \<open>ret\<close>; it installs the scheduler if that is 0.\<close>

definition shannon_elevator_change :: "int \<Rightarrow> old_queue \<Rightarrow> string \<Rightarrow> int \<times> old_queue \<times> old_event list" where
  "shannon_elevator_change ret q name =
    (let ev = [ElevatorExit]; q = q\<lparr>oq_elevator := None\<rparr>
     in (ret, if ret = 0 then q\<lparr>oq_elevator := Some name\<rparr> else q, ev))"

text \<open>\<open>blk_init_queue\<close> gives a queue for \<open>shannon_disk_request\<close> with a default scheduler, if there is memory.\<close>

definition new_queue :: "request_fn \<Rightarrow> string option \<Rightarrow> old_queue" where
  "new_queue f el = \<lparr>oq_data = None, oq_fn = f, oq_elevator = el\<rparr>"

definition shannon_init_queue_4_17 :: "bool \<Rightarrow> string \<Rightarrow> int \<Rightarrow> nat \<Rightarrow> old_queue option \<times> old_event list" where
  "shannon_init_queue_4_17 mem def elevator_ret data =
    (if \<not> mem then (None, [])
     else let q = new_queue DiskRequest (Some def); ev = [BlkInitQueue];
              (ret, q, ev') = shannon_elevator_change elevator_ret q ''noop''
          in if ret \<noteq> 0 then (None, ev @ ev' @ [BlkCleanupQueue])
             else (Some (q\<lparr>oq_data := Some data\<rparr>), ev @ ev'))"

definition shannon_init_queue_4_20 :: "bool \<Rightarrow> string \<Rightarrow> nat \<Rightarrow> old_queue option \<times> old_event list" where
  "shannon_init_queue_4_20 mem def data =
    (if mem then (Some ((new_queue DiskRequest (Some def))\<lparr>oq_data := Some data\<rparr>), [BlkInitQueue]) else (None, []))"

text \<open>Before 5.7 the request function is set on the queue, later it is an argument of its allocation.\<close>

definition shannon_alloc_queue_5_7 :: "(request_fn \<Rightarrow> bool) \<Rightarrow> nat \<Rightarrow> bool \<Rightarrow> old_queue option \<times> old_event list" where
  "shannon_alloc_queue_5_7 blk_alloc_queue data ns =
    (let f = (if ns then MakeRequestNs else MakeRequest)
     in if blk_alloc_queue f then (Some ((new_queue f None)\<lparr>oq_data := Some data\<rparr>), [BlkAllocQueue]) else (None, []))"

definition shannon_alloc_queue_5_6 :: "bool \<Rightarrow> request_fn \<Rightarrow> nat \<Rightarrow> bool \<Rightarrow> old_queue option \<times> old_event list" where
  "shannon_alloc_queue_5_6 mem unset data ns =
    (if \<not> mem then (None, [])
     else let q = new_queue unset None;
              q = (if ns then q\<lparr>oq_fn := MakeRequestNs\<rparr> else q\<lparr>oq_fn := MakeRequest\<rparr>)
          in (Some (q\<lparr>oq_data := Some data\<rparr>), [BlkAllocQueue]))"

definition shannon_blk_cleanup_queue_4_20 :: "old_queue \<Rightarrow> old_event list" where
  "shannon_blk_cleanup_queue_4_20 q = [BlkCleanupQueue]"

section \<open>Discard limits\<close>

definition shannon_trim_setting_6_8 :: "nat \<Rightarrow> blk_heap \<Rightarrow> blk_heap" where
  "shannon_trim_setting_6_8 q h =
    (let h = with_limits (\<lambda>l. l\<lparr>discard_granularity := of_nat PAGE_SIZE\<rparr>) q h;
         h = with_limits (\<lambda>l. l\<lparr>max_discard_sectors := drop_bit 9 (- 1) AND NOT 7\<rparr>) q h
     in with_limits (\<lambda>l. l\<lparr>max_write_zeroes_sectors := drop_bit 9 (- 1) AND NOT 7\<rparr>) q h)"

text \<open>Kernels from 2.6.33 on; the number of the flag is the kernel's.\<close>

definition shannon_trim_setting_2_6_33 :: "nat \<Rightarrow> nat \<Rightarrow> blk_heap \<Rightarrow> blk_heap" where
  "shannon_trim_setting_2_6_33 QUEUE_FLAG_DISCARD q h =
    (let h = with_limits (\<lambda>l. l\<lparr>discard_granularity := of_nat PAGE_SIZE\<rparr>) q h;
         h = with_limits (\<lambda>l. l\<lparr>max_discard_sectors := drop_bit 9 (- 1) AND NOT 7\<rparr>) q h
     in shannon_queue_flag_set QUEUE_FLAG_DISCARD q h)"

section \<open>Properties\<close>

text \<open>Resources a run of the functions leaves: queues created less queues cleaned up.\<close>

definition queues_left :: "old_event list \<Rightarrow> int" where
  "queues_left evs = int (length (filter (\<lambda>e. e = BlkInitQueue \<or> e = BlkAllocQueue) evs)) - int (length (filter (\<lambda>e. e = BlkCleanupQueue) evs))"

definition queue_outcome :: "nat \<Rightarrow> request_fn \<Rightarrow> string option \<Rightarrow> old_queue option \<times> old_event list \<Rightarrow> bool" where
  "queue_outcome data f el r = (case r of
      (None, evs) \<Rightarrow> queues_left evs = 0
    | (Some q, evs) \<Rightarrow> oq_data q = Some data \<and> oq_fn q = f \<and> oq_elevator q = el \<and>
        queues_left (evs @ shannon_blk_cleanup_queue_4_20 q) = 0)"

text \<open>On every old kernel creating a queue either gives a queue that leads to the driver's object and to the function for its
  kind, with the noop scheduler where it is set, or leaves nothing behind; cleaning up such a queue gives it back.\<close>

lemma legacy_queue_outcome:
  "queue_outcome data DiskRequest (Some ''noop'') (shannon_init_queue_4_17 mem def e data) \<and>
   queue_outcome data DiskRequest (Some def) (shannon_init_queue_4_20 mem def data) \<and>
   queue_outcome data (if ns then MakeRequestNs else MakeRequest) None (shannon_alloc_queue_5_7 ok data ns) \<and>
   queue_outcome data (if ns then MakeRequestNs else MakeRequest) None (shannon_alloc_queue_5_6 mem unset data ns)"
  by (simp add: queue_outcome_def shannon_init_queue_4_17_def shannon_init_queue_4_20_def shannon_alloc_queue_5_7_def
      shannon_alloc_queue_5_6_def shannon_elevator_change_def new_queue_def queues_left_def shannon_blk_cleanup_queue_4_20_def Let_def)

lemma trim_sectors: "drop_bit 9 (- 1) AND NOT 7 = (8388600 :: u32)"
proof -
  have "mask 23 = (8388607 :: u32)" by (simp add: mask_eq_exp_minus_1)
  then show ?thesis by simp
qed

text \<open>All variants announce discards of whole pages, of at most 4 GB less a page.\<close>

lemma trim_limits_whole_pages:
  "max_discard_sectors (limits (qs (shannon_trim_setting q h) q)) = 8388600 \<and>
   limits (qs (shannon_trim_setting_6_8 q h) q) = limits (qs (shannon_trim_setting q h) q) \<and>
   max_discard_sectors (limits (qs (shannon_trim_setting_2_6_33 fl q h) q)) = 8388600 \<and>
   discard_granularity (limits (qs (shannon_trim_setting_2_6_33 fl q h) q)) = 4096 \<and>
   fl \<in> queue_flags (qs (shannon_trim_setting_2_6_33 fl q h) q)"
  by (simp only: shannon_trim_setting_def shannon_trim_setting_6_8_def shannon_trim_setting_2_6_33_def with_limits_def
      shannon_queue_flag_set_def PAGE_SIZE_def Let_def trim_sectors) simp

end
