(* ===== verification/Bit_Loop.thy ===== *)
theory Bit_Loop
  imports Kcore
begin

text \<open>
  The loop over the set bits of a little-endian bit array (\<open>shannon_for_each_set_bit_le\<close> of \<^verbatim>\<open>shannon_kcore.h\<close>), with the searches of
  \<^verbatim>\<open>Kcore\<close>. The loop ends only if every search moves on; it is a partial function, and the theorem says that it returns.
\<close>

section \<open>The loop\<close>

text \<open>The body of the loop changes a state and sees the number of the bit; it leaves the array alone.\<close>

partial_function (option) set_bit_loop :: "(nat \<Rightarrow> 's \<Rightarrow> 's) \<Rightarrow> u64 list \<Rightarrow> nat \<Rightarrow> nat \<Rightarrow> 's \<Rightarrow> 's option" where
  "set_bit_loop body addr sz b s =
    (if b < sz then
       let s = body b s
       in case shannon_find_next_bit_le addr sz (b + 1) of None \<Rightarrow> None
          | Some b' \<Rightarrow> set_bit_loop body addr sz b' s
     else Some s)"

definition shannon_for_each_set_bit_le :: "(nat \<Rightarrow> 's \<Rightarrow> 's) \<Rightarrow> u64 list \<Rightarrow> nat \<Rightarrow> 's \<Rightarrow> 's option" where
  "shannon_for_each_set_bit_le body addr sz s =
    (case shannon_find_first_bit_le addr sz of None \<Rightarrow> None | Some b \<Rightarrow> set_bit_loop body addr sz b s)"

section \<open>Properties\<close>

lemma filter_next_bit:
  "filter B [a ..< sz] = (if next_bit B sz a < sz then next_bit B sz a # filter B [Suc (next_bit B sz a) ..< sz] else [])"
proof (induction "sz - a" arbitrary: a)
  case 0
  then show ?case by (simp add: next_bit_empty)
next
  case (Suc k)
  then have a: "a < sz" by simp
  show ?case
  proof (cases "B a")
    case True
    then have "next_bit B sz a = a" using a by (intro next_bit_hit) auto
    then show ?thesis using a True by (simp add: upt_conv_Cons)
  next
    case False
    then have "next_bit B sz a = next_bit B sz (Suc a)"
      using a by (intro next_bit_skip) (auto simp: less_Suc_eq_le le_antisym)
    moreover have "filter B [a ..< sz] = filter B [Suc a ..< sz]" using a False by (simp add: upt_conv_Cons)
    ultimately show ?thesis using Suc by simp
  qed
qed

lemma set_bit_loop_visits:
  assumes "sz \<le> 64 * length addr"
  shows "set_bit_loop body addr sz (next_bit (le_bit addr) sz a) s = Some (fold body (filter (le_bit addr) [a ..< sz]) s)"
proof (induction "sz - a" arbitrary: a s rule: less_induct)
  case less
  let ?b = "next_bit (le_bit addr) sz a"
  show ?case
  proof (cases "?b < sz")
    case True
    have "a \<le> ?b"
    proof (rule ccontr)
      assume "\<not> a \<le> ?b"
      then have "filter (le_bit addr) [a ..< sz] = ?b # filter (le_bit addr) [Suc ?b ..< sz]"
        using filter_next_bit [of "le_bit addr" a sz] True by simp
      then have "?b \<in> set (filter (le_bit addr) [a ..< sz])" by simp
      with \<open>\<not> a \<le> ?b\<close> show False by simp
    qed
    then have "sz - Suc ?b < sz - a" using True by linarith
    from less.hyps [OF this] True show ?thesis
      by (subst set_bit_loop.simps, subst filter_next_bit)
        (simp add: shannon_find_next_bit_le_def find_next_le_bit_ok [OF assms] Let_def)
  next
    case False
    then show ?thesis by (subst set_bit_loop.simps, subst filter_next_bit) simp
  qed
qed

text \<open>C35 (equivalence). The loop over the set bits of a little-endian bit array returns; its body ran exactly once for every set bit
  below the size, in ascending order, also on a big-endian machine, where the search reads the words byte-swapped, and the
  searches never read outside the array.\<close>

theorem for_each_set_bit_le_visits:
  assumes "sz \<le> 64 * length addr"
  shows "shannon_for_each_set_bit_le body addr sz s = Some (fold body (filter (le_bit addr) [0 ..< sz]) s)"
  using set_bit_loop_visits [OF assms, of body 0 s]
  by (simp add: shannon_for_each_set_bit_le_def shannon_find_first_bit_le_def find_next_le_bit_ok [OF assms])

theorem for_each_set_bit_le_visits_witness:
  "\<exists>bits. shannon_for_each_set_bit_le (\<lambda>b bs. bs @ [b]) [0, 3] 128 [] = Some bits \<and> bits = filter (le_bit [0, 3]) [0 ..< 128]"
proof -
  have f: "fold (\<lambda>b bs. bs @ [b]) xs ys = ys @ xs" for xs ys :: "nat list" by (induction xs arbitrary: ys) auto
  show ?thesis using for_each_set_bit_le_visits [of 128 "[0, 3]" "\<lambda>b bs. bs @ [b]" "[]"] by (simp add: f)
qed

end
