(* ===== verification/Layout.thy ===== *)
theory Layout
  imports Prelude
begin

text \<open>
  The layout of \<^verbatim>\<open>struct shannon_dev\<close> (\<^verbatim>\<open>shannon_kcore.h\<close>). The structure belongs to the precompiled core; the sources declare the fields
  they use at the offsets found in the object files, with padding between them, as a packed structure, and give the offset
  of each field in a comment. The driver reads and writes the core's memory through this declaration, so every padding has to be
  exact. Sizes and alignments are those of a 64-bit machine.
\<close>

section \<open>Sizes and offsets\<close>

text \<open>\<open>Reserve n\<close> is a structure with the member \<open>RESERVE_MEM(n)\<close>, an array of \<open>n\<close> characters aligned to 8 bytes.\<close>

datatype ctype = UChar | U32 | U64 | Pointer | Reserve nat | Array ctype nat | Struct "ctype list"

definition align_up :: "nat \<Rightarrow> nat \<Rightarrow> nat" where
  "align_up n a = (n + (a - 1)) div a * a"

fun c_align :: "ctype \<Rightarrow> nat" where
  "c_align UChar = 1"
| "c_align U32 = 4"
| "c_align U64 = 8"
| "c_align Pointer = 8"
| "c_align (Reserve n) = 8"
| "c_align (Array t n) = c_align t"
| "c_align (Struct ts) = fold max (map c_align ts) 1"

fun c_size :: "ctype \<Rightarrow> nat" where
  "c_size UChar = 1"
| "c_size U32 = 4"
| "c_size U64 = 8"
| "c_size Pointer = 8"
| "c_size (Reserve n) = align_up n 8"
| "c_size (Array t n) = c_size t * n"
| "c_size (Struct ts) =
    align_up (fold (\<lambda>(a, n) off. align_up off a + n) (map (\<lambda>t. (c_align t, c_size t)) ts) 0) (fold max (map c_align ts) 1)"

type_synonym fields = "(string \<times> ctype) list"

text \<open>A packed structure has its members one after the other.\<close>

fun packed_offsets :: "fields \<Rightarrow> nat \<Rightarrow> (string \<times> nat) list" where
  "packed_offsets [] off = []"
| "packed_offsets ((f, t) # fs) off = (f, off) # packed_offsets fs (off + c_size t)"

definition offsetof :: "fields \<Rightarrow> string \<Rightarrow> nat option" where
  "offsetof fs f = map_of (packed_offsets fs 0) f"

definition packed_size :: "fields \<Rightarrow> nat" where
  "packed_size fs = sum_list (map (\<lambda>x. c_size (snd x)) fs)"

section \<open>The declarations\<close>

definition shannon_spinlock_t :: ctype where "shannon_spinlock_t = Reserve 128"
definition shannon_atomic_t :: ctype where "shannon_atomic_t = Reserve 8"
definition shannon_kobject_t :: ctype where "shannon_kobject_t = Reserve 152"

text \<open>\<^verbatim>\<open>struct shannon_list_head\<close> has two pointers.\<close>

definition shannon_list_head :: ctype where "shannon_list_head = Struct [Pointer, Pointer]"
definition shannon_wait_queue_head_t :: ctype where
  "shannon_wait_queue_head_t = Struct [shannon_spinlock_t, shannon_list_head]"

definition shannon_dev_fields :: fields where
  "shannon_dev_fields =
    [(''_pad0'', Array UChar 0xb2c), (''counter1'', U32), (''counter2'', U32), (''_pad1'', Array UChar 0x154),
     (''atomic_counter'', shannon_atomic_t), (''_pad1_1'', Array UChar 0x1f18), (''value_at_0x2ba8'', U32), (''_pad1_2'', Array UChar 0x2c4),
     (''over_provision'', U32), (''_pad2'', Array UChar 0x20), (''param1'', U32), (''_pad3'', Array UChar 0x318), (''value_at_0x31b0'', U32),
     (''value_at_0x31b4'', U32), (''minor'', U32), (''major'', U32), (''_pad4'', Array UChar 0x110), (''name'', Array UChar 256),
     (''_pad5'', Array UChar 0x18), (''value_at_0x33e8'', U32), (''_pad5_1'', Array UChar 0x244), (''limit1'', U64), (''_pad5_2'', Array UChar 8),
     (''limit2'', U64), (''_pad6'', Array UChar 0x90d8), (''queue'', Pointer), (''disk'', Pointer), (''_pad10'', Array UChar 0xca8),
     (''value_at_0xd3d8'', U32), (''_pad10_1'', Array UChar 4), (''disk_name'', Array UChar 16), (''capacity'', U64), (''_pad11'', Array UChar 0xb8),
     (''value_at_0xd4b0'', U32), (''_pad11_1'', Array UChar 0x1dc), (''wait_queue_head'', shannon_wait_queue_head_t),
     (''_pad11_2'', Array UChar 0x344), (''logicb_shift'', U32), (''logicb_size'', U32), (''_pad7'', Array UChar 0x8), (''param4'', U32),
     (''_pad8'', Array UChar 0x20), (''param2'', U32), (''_pad9'', Array UChar 0x834), (''kobj'', shannon_kobject_t), (''_pad12'', Array UChar 152),
     (''state'', U32)]"

text \<open>The comments beside the fields.\<close>

definition shannon_dev_comments :: "(string \<times> nat) list" where
  "shannon_dev_comments =
    [(''_pad0'', 0x0), (''counter1'', 0xb2c), (''counter2'', 0xb30), (''_pad1'', 0xb34), (''atomic_counter'', 0xc88), (''_pad1_1'', 0xc90),
     (''value_at_0x2ba8'', 0x2ba8), (''_pad1_2'', 0xc8c), (''over_provision'', 0x2e70), (''_pad2'', 0x2e74), (''param1'', 0x2e94),
     (''_pad3'', 0x2e98), (''value_at_0x31b0'', 0x31b0), (''value_at_0x31b4'', 0x31b4), (''minor'', 0x31b8), (''major'', 0x31bc),
     (''_pad4'', 0x31c0), (''name'', 0x32d0), (''_pad5'', 0x33d0), (''value_at_0x33e8'', 0x33e8), (''_pad5_1'', 0x33ec), (''limit1'', 0x3630),
     (''_pad5_2'', 0x3638), (''limit2'', 0x3640), (''_pad6'', 0x3648), (''queue'', 0xc720), (''disk'', 0xc728), (''_pad10'', 0xc730),
     (''value_at_0xd3d8'', 0xd3d8), (''_pad10_1'', 0xd3dc), (''disk_name'', 0xd3e0), (''capacity'', 0xd3f0), (''_pad11'', 0xd3f8),
     (''value_at_0xd4b0'', 0xd4b0), (''_pad11_1'', 0xd4b4), (''wait_queue_head'', 0xd690), (''_pad11_2'', 0xd720), (''logicb_shift'', 0xda64),
     (''logicb_size'', 0xda68), (''_pad7'', 0xda6c), (''param4'', 0xda74), (''_pad8'', 0xda78), (''param2'', 0xda98), (''_pad9'', 0xda9c),
     (''kobj'', 0xe2d0), (''_pad12'', 0xe368), (''state'', 0xe400)]"

text \<open>The static assertions after the declaration.\<close>

definition shannon_dev_asserts :: "(string \<times> nat) list" where
  "shannon_dev_asserts = [(''value_at_0x2ba8'', 0x2ba8), (''kobj'', 0xe2d0), (''_pad12'', 0xe368), (''state'', 0xe400)]"

section \<open>Properties\<close>

lemma packed_offset_bound: "(f, n) \<in> set (packed_offsets fs off) \<Longrightarrow> off \<le> n"
  by (induction fs off rule: packed_offsets.induct) fastforce+

lemma length_packed_offsets [simp]: "length (packed_offsets fs off) = length fs"
  by (induction fs off rule: packed_offsets.induct) auto

text \<open>Every field ends before the next one starts, so two fields never share a byte, and the last one ends with the structure.\<close>

lemma packed_offset_nth:
  "i < length fs \<Longrightarrow> packed_offsets fs off ! i = (fst (fs ! i), off + sum_list (map (\<lambda>x. c_size (snd x)) (take i fs)))"
proof (induction fs off arbitrary: i rule: packed_offsets.induct)
  case (2 f t fs off)
  then show ?case by (cases i) auto
qed simp

lemma packed_disjoint:
  assumes "i < j" "j < length fs"
  shows "snd (packed_offsets fs 0 ! i) + c_size (snd (fs ! i)) \<le> snd (packed_offsets fs 0 ! j) \<and>
    snd (packed_offsets fs 0 ! j) + c_size (snd (fs ! j)) \<le> packed_size fs"
proof -
  let ?sz = "\<lambda>xs. sum_list (map (\<lambda>x. c_size (snd x)) xs)"
  have split: "?sz (take k fs) + c_size (snd (fs ! k)) = ?sz (take (Suc k) fs)" if "k < length fs" for k
    using that by (simp add: take_Suc_conv_app_nth)
  have mono: "?sz (take k fs) \<le> ?sz (take l fs)" if "k \<le> l" for k l
  proof -
    have "take l fs = take k fs @ take (l - k) (drop k fs)" using take_add [of k "l - k" fs] that by simp
    then show ?thesis by simp
  qed
  have "?sz (take (Suc i) fs) \<le> ?sz (take j fs)" "?sz (take (Suc j) fs) \<le> ?sz (take (length fs) fs)"
    using mono [of "Suc i" j] mono [of "Suc j" "length fs"] assms by simp_all
  then show ?thesis using split [of i] split [of j] assms by (simp add: packed_offset_nth packed_size_def)
qed

lemmas layout_defs = shannon_dev_fields_def shannon_dev_comments_def shannon_dev_asserts_def shannon_spinlock_t_def shannon_atomic_t_def
  shannon_kobject_t_def shannon_list_head_def shannon_wait_queue_head_t_def offsetof_def packed_size_def align_up_def

text \<open>The fields of \<^verbatim>\<open>struct shannon_dev\<close> lie at the offsets their comments give, all but the padding \<open>_pad1_2\<close>, which
  lies at 0x2bac and not at 0x0c8c. The static assertions hold and the structure has 0xe404 bytes.\<close>

theorem shannon_dev_layout:
  "packed_offsets shannon_dev_fields 0 =
     map (\<lambda>(f, off). (f, if f = ''_pad1_2'' then 0x2bac else off)) shannon_dev_comments \<and>
   map_of shannon_dev_comments ''_pad1_2'' = Some 0x0c8c \<and>
   list_all (\<lambda>(f, off). offsetof shannon_dev_fields f = Some off) shannon_dev_asserts \<and>
   packed_size shannon_dev_fields = 0xe404"
  by (simp add: layout_defs)

end
