(* ===== verification/Prefetch.thy ===== *)
theory Prefetch
  imports Kcore
begin

text \<open>
  The state word of the prefetch engine (\<^verbatim>\<open>shannon_prefetch.h\<close>) and the user counts of memory blocks (\<^verbatim>\<open>shannon_memblock.h\<close>): the macros
  through which the driver and the core switch the engine on and off, mark its thread as working or sleeping, and count
  the users of a block. The cache itself is filled by the precompiled core.
\<close>

section \<open>Macros\<close>

definition PREFETCH_ENABLE_BIT :: nat where [simp]: "PREFETCH_ENABLE_BIT = 0"
definition PREFETCH_WORKING_BIT :: nat where [simp]: "PREFETCH_WORKING_BIT = 1"

text \<open>The state is one \<open>unsigned long\<close>, that is, a bit array of one word.\<close>

definition get_prefetch_enable_state :: "bitmap \<Rightarrow> bool option" where
  "get_prefetch_enable_state st = shannon_test_bit PREFETCH_ENABLE_BIT st"

definition set_prefetch_enable :: "bitmap \<Rightarrow> bitmap option" where
  "set_prefetch_enable st = shannon_set_bit PREFETCH_ENABLE_BIT st"

definition set_prefetch_disable :: "bitmap \<Rightarrow> bitmap option" where
  "set_prefetch_disable st = shannon_clear_bit PREFETCH_ENABLE_BIT st"

definition get_prefetch_working_state :: "bitmap \<Rightarrow> bool option" where
  "get_prefetch_working_state st = shannon_test_bit PREFETCH_WORKING_BIT st"

definition set_prefetch_working :: "bitmap \<Rightarrow> bitmap option" where
  "set_prefetch_working st = shannon_set_bit PREFETCH_WORKING_BIT st"

definition set_prefetch_sleeping :: "bitmap \<Rightarrow> bitmap option" where
  "set_prefetch_sleeping st = shannon_clear_bit PREFETCH_WORKING_BIT st"

text \<open>The user counts, one counter per block; a block number outside the array is undefined.\<close>

definition on_counter :: "(u32 \<Rightarrow> u32 \<times> int) \<Rightarrow> u32 list \<Rightarrow> nat \<Rightarrow> (u32 list \<times> int) option" where
  "on_counter f cs i = (if i < length cs then (case f (cs ! i) of (v, r) \<Rightarrow> Some (cs[i := v], r)) else None)"

definition increase_memblock_user_count :: "u32 list \<Rightarrow> nat \<Rightarrow> (u32 list \<times> int) option" where
  "increase_memblock_user_count cs i = on_counter shannon_atomic_inc_return cs i"

definition decrease_memblock_user_count :: "u32 list \<Rightarrow> nat \<Rightarrow> (u32 list \<times> int) option" where
  "decrease_memblock_user_count cs i = on_counter shannon_atomic_dec_return cs i"

definition get_memblock_user_count :: "u32 list \<Rightarrow> nat \<Rightarrow> int option" where
  "get_memblock_user_count cs i = (if i < length cs then Some (shannon_atomic_read (cs ! i)) else None)"

section \<open>What they do\<close>

text \<open>A switch of the engine: a bit and its new value.\<close>

datatype prefetch_op = Enable | Disable | Work | Sleep

fun prefetch_do :: "prefetch_op \<Rightarrow> bitmap \<Rightarrow> bitmap option" where
  "prefetch_do Enable st = set_prefetch_enable st"
| "prefetch_do Disable st = set_prefetch_disable st"
| "prefetch_do Work st = set_prefetch_working st"
| "prefetch_do Sleep st = set_prefetch_sleeping st"

text \<open>The abstract state: whether the engine is enabled and whether its thread works.\<close>

fun prefetch_abs :: "prefetch_op \<Rightarrow> bool \<times> bool \<Rightarrow> bool \<times> bool" where
  "prefetch_abs Enable (e, w) = (True, w)"
| "prefetch_abs Disable (e, w) = (False, w)"
| "prefetch_abs Work (e, w) = (e, True)"
| "prefetch_abs Sleep (e, w) = (e, False)"

definition prefetch_repr :: "bitmap \<Rightarrow> bool \<times> bool \<Rightarrow> bool" where
  "prefetch_repr st ew \<longleftrightarrow> length st = 1 \<and> get_prefetch_enable_state st = Some (fst ew) \<and>
     get_prefetch_working_state st = Some (snd ew)"

lemma prefetch_step:
  assumes "prefetch_repr st ew"
  shows "\<exists>st'. prefetch_do op st = Some st' \<and> prefetch_repr st' (prefetch_abs op ew)"
proof -
  obtain w where "st = [w]" using assms by (auto simp: prefetch_repr_def length_Suc_conv)
  then show ?thesis
    using assms
    by (cases op; cases ew)
      (simp_all add: prefetch_repr_def get_prefetch_enable_state_def get_prefetch_working_state_def set_prefetch_enable_def
        set_prefetch_disable_def set_prefetch_working_def set_prefetch_sleeping_def shannon_test_bit_def shannon_set_bit_def
        shannon_clear_bit_def bit_simps)
qed

text \<open>Any sequence of switches refines the two flags: neither disturbs the other.\<close>

lemma prefetch_refines:
  "prefetch_repr st ew \<Longrightarrow> \<exists>st'. fold_opt prefetch_do ops st = Some st' \<and> prefetch_repr st' (fold prefetch_abs ops ew)"
proof (induction ops arbitrary: st ew)
  case (Cons op ops)
  obtain st1 where st1: "prefetch_do op st = Some st1" "prefetch_repr st1 (prefetch_abs op ew)"
    using prefetch_step [OF Cons.prems] by blast
  from st1(1) Cons.IH [OF st1(2)] show ?case by simp
qed simp

text \<open>An increase and a decrease of the user count cancel, and touch no other block.\<close>

lemma user_count_roundtrip:
  assumes "increase_memblock_user_count cs i = Some (cs1, r)"
  shows "decrease_memblock_user_count cs1 i = Some (cs, sint (cs ! i)) \<and> get_memblock_user_count cs1 i = Some r \<and>
    (j \<noteq> i \<longrightarrow> get_memblock_user_count cs1 j = get_memblock_user_count cs j)"
  using assms
  by (auto simp: increase_memblock_user_count_def decrease_memblock_user_count_def get_memblock_user_count_def on_counter_def
      shannon_atomic_inc_return_def shannon_atomic_dec_return_def shannon_atomic_read_def split: if_splits)

end
