(* ===== verification/Workqueue_Destroy.thy ===== *)
theory Workqueue_Destroy
  imports Workqueue
begin

text \<open>
  Flushing and destroying the real-time work queue (\<^verbatim>\<open>shannon_workqueue.c\<close>), composed with the worker and the producers of \<^verbatim>\<open>Workqueue\<close>.
  The thread that destroys the queue is a second program with its own program counter. The callers of the driver stop
  queueing items before they destroy the queue: the composed system lets the destruction begin only when no call of
  \<open>shannon_rt_queue_work\<close> is under way, and has no producers afterwards.
\<close>

section \<open>Operations\<close>

text \<open>\<open>shannon_wait_event\<close> returns once its condition holds; that the waiter is woken when the condition becomes true is the
  contract of the wait queue.\<close>

datatype flush_pc = FlushWake | FlushWait | FlushDone

definition shannon_flush_rt_workqueue :: "ptr \<Rightarrow> flush_pc \<Rightarrow> rt_sys \<Rightarrow> (flush_pc \<times> rt_sys) option" where
  "shannon_flush_rt_workqueue rtwq pc s =
    (case pc of
       FlushWake \<Rightarrow> Some (FlushWait, s\<lparr>rs_th := (rs_th s)\<lparr>th_state := TASK_RUNNING\<rparr>\<rparr>)
     | FlushWait \<Rightarrow> if shannon_list_empty (rt_heap (rs_q s)) rtwq then Some (FlushDone, s) else None
     | FlushDone \<Rightarrow> None)"

text \<open>\<open>shannon_kthread_stop\<close> sets the flag, wakes the thread and waits for its exit.\<close>

datatype destroy_pc = InUse | Flushing flush_pc | Stopping | Joining | Freeing | Freed

record destroy_sys =
  ds_sys :: rt_sys
  ds_pc :: destroy_pc

definition shannon_destroy_rt_workqueue :: "ptr \<Rightarrow> destroy_sys \<Rightarrow> destroy_sys option" where
  "shannon_destroy_rt_workqueue rtwq d =
    (case ds_pc d of
       InUse \<Rightarrow> None
     | Flushing pc \<Rightarrow>
         if pc = FlushDone then Some (d\<lparr>ds_pc := Stopping\<rparr>)
         else map_option (\<lambda>(pc', s'). d\<lparr>ds_pc := Flushing pc', ds_sys := s'\<rparr>) (shannon_flush_rt_workqueue rtwq pc (ds_sys d))
     | Stopping \<Rightarrow>
         Some (d\<lparr>ds_pc := Joining, ds_sys := (ds_sys d)\<lparr>rs_should_stop := True, rs_th := (rs_th (ds_sys d))\<lparr>th_state := TASK_RUNNING\<rparr>\<rparr>\<rparr>)
     | Joining \<Rightarrow> if th_pc (rs_th (ds_sys d)) = RtExit then Some (d\<lparr>ds_pc := Freeing\<rparr>) else None
     | Freeing \<Rightarrow> Some (d\<lparr>ds_pc := Freed\<rparr>)
     | Freed \<Rightarrow> None)"

text \<open>The system: producers and their wake-ups while the queue is in use, the worker at any time, even after the queue is
  freed, and the thread that destroys it.\<close>

inductive destroy_step :: "ptr \<Rightarrow> ptr set \<Rightarrow> destroy_sys \<Rightarrow> destroy_sys \<Rightarrow> bool" for rtwq W where
  work: "rt_worker rtwq (ds_sys d) = Some s \<Longrightarrow> destroy_step rtwq W d (d\<lparr>ds_sys := s\<rparr>)"
| use: "ds_pc d = InUse \<Longrightarrow> rt_step rtwq W (ds_sys d) s \<Longrightarrow> rs_should_stop s = rs_should_stop (ds_sys d) \<Longrightarrow>
    destroy_step rtwq W d (d\<lparr>ds_sys := s\<rparr>)"
| begin_destroy: "ds_pc d = InUse \<Longrightarrow> rs_wakers (ds_sys d) = 0 \<Longrightarrow> destroy_step rtwq W d (d\<lparr>ds_pc := Flushing FlushWake\<rparr>)"
| destroy: "shannon_destroy_rt_workqueue rtwq d = Some d' \<Longrightarrow> destroy_step rtwq W d d'"

inductive_cases destroy_stepE: "destroy_step rtwq W d d'"

definition destroy_init :: "ptr \<Rightarrow> ptr list \<Rightarrow> list_heap \<Rightarrow> destroy_sys" where
  "destroy_init rtwq works h = \<lparr>ds_sys = rt_created rtwq works h, ds_pc = InUse\<rparr>"

definition destroy_reachable :: "ptr \<Rightarrow> ptr list \<Rightarrow> list_heap \<Rightarrow> destroy_sys \<Rightarrow> bool" where
  "destroy_reachable rtwq works h d = (destroy_step rtwq (set works))\<^sup>*\<^sup>* (destroy_init rtwq works h) d"

section \<open>Invariant\<close>

text \<open>Once the flush is over the list stays empty; the stop flag is set exactly by the destroying thread; the worker exits only
  after the flag and with nothing in hand; and the memory is freed only after the exit.\<close>

definition flushed :: "destroy_pc \<Rightarrow> bool" where
  "flushed pc \<longleftrightarrow> pc \<in> {Flushing FlushDone, Stopping, Joining, Freeing, Freed}"

definition stopped :: "destroy_pc \<Rightarrow> bool" where
  "stopped pc \<longleftrightarrow> pc \<in> {Joining, Freeing, Freed}"

definition destroy_inv :: "ptr \<Rightarrow> ptr set \<Rightarrow> destroy_sys \<Rightarrow> ptr list \<Rightarrow> bool" where
  "destroy_inv rtwq W d xs \<longleftrightarrow> rt_inv rtwq W (ds_sys d) xs \<and>
     (flushed (ds_pc d) \<longrightarrow> xs = []) \<and> (rs_should_stop (ds_sys d) \<longleftrightarrow> stopped (ds_pc d)) \<and>
     (th_pc (rs_th (ds_sys d)) = RtExit \<longrightarrow> rs_should_stop (ds_sys d)) \<and>
     (ds_pc d \<in> {Freeing, Freed} \<longrightarrow> th_pc (rs_th (ds_sys d)) = RtExit) \<and>
     (ds_pc d \<noteq> InUse \<longrightarrow> rs_wakers (ds_sys d) = 0)"

lemma worker_keeps:
  assumes "rt_worker rtwq s = Some s'"
  shows "rs_should_stop s' = rs_should_stop s \<and> rs_accepted s' = rs_accepted s \<and> rs_wakers s' = rs_wakers s \<and>
    th_pc (rs_th s) \<noteq> RtExit \<and> (th_pc (rs_th s') = RtExit \<longrightarrow> rs_should_stop s)"
  using assms by (auto simp: rt_worker_def Let_def split: rt_pc.splits if_splits prod.splits)

text \<open>The worker never adds to the list.\<close>

lemma worker_keeps_empty:
  assumes "rt_inv rtwq W s []" "rt_worker rtwq s = Some s'"
  shows "rt_inv rtwq W s' []"
proof -
  obtain xs where xs: "rt_inv rtwq W s' xs" using rt_worker_inv [OF assms] by blast
  have "th_pc (rs_th s) \<noteq> RtTake" using assms(1) by (auto simp: rt_inv_def)
  then have "rs_q s' = rs_q s" using assms(2) by (auto simp: rt_worker_def Let_def split: rt_pc.splits if_splits)
  then have "xs = []" using xs assms(1) q_inv_empty by (metis rt_inv_def)
  with xs show ?thesis by simp
qed

lemma rt_step_no_exit:
  "rt_step rtwq W s s' \<Longrightarrow> \<not> rs_should_stop s \<Longrightarrow> th_pc (rs_th s) \<noteq> RtExit \<Longrightarrow> th_pc (rs_th s') \<noteq> RtExit"
  by (induction rule: rt_step.induct) (auto dest: worker_keeps)

lemma destroy_step_inv:
  assumes "destroy_step rtwq W d d'" "destroy_inv rtwq W d xs"
  shows "\<exists>xs'. destroy_inv rtwq W d' xs'"
  using assms(1)
proof (cases rule: destroy_step.cases)
  case (work s)
  have i: "rt_inv rtwq W (ds_sys d) xs" using assms(2) by (simp add: destroy_inv_def)
  note keeps = worker_keeps [OF work(2)]
  show ?thesis
  proof (cases "flushed (ds_pc d)")
    case True
    then have "rt_inv rtwq W (ds_sys d) []" using assms(2) by (auto simp: destroy_inv_def)
    then have "rt_inv rtwq W s []" using worker_keeps_empty work(2) by blast
    then show ?thesis using work assms(2) keeps by (intro exI [of _ "[]"]) (auto simp: destroy_inv_def)
  next
    case False
    obtain xs' where "rt_inv rtwq W s xs'" using rt_worker_inv [OF i work(2)] by blast
    then show ?thesis using work assms(2) keeps False by (intro exI [of _ xs']) (auto simp: destroy_inv_def)
  qed
next
  case (use s)
  have no: "\<not> rs_should_stop (ds_sys d)" "th_pc (rs_th (ds_sys d)) \<noteq> RtExit"
    using use(2) assms(2) by (auto simp: destroy_inv_def stopped_def)
  have "rt_inv rtwq W (ds_sys d) xs" using assms(2) by (simp add: destroy_inv_def)
  then obtain xs' where "rt_inv rtwq W s xs'" using rt_step_inv [OF use(3)] by blast
  then show ?thesis
    using use assms(2) no rt_step_no_exit [OF use(3) no] by (intro exI [of _ xs']) (auto simp: destroy_inv_def flushed_def)
next
  case begin_destroy
  then show ?thesis using assms(2) by (intro exI [of _ xs]) (auto simp: destroy_inv_def flushed_def stopped_def)
next
  case destroy
  have run: "rt_inv rtwq W (s\<lparr>rs_th := (rs_th s)\<lparr>th_state := TASK_RUNNING\<rparr>\<rparr>) ys"
      "rt_inv rtwq W (s\<lparr>rs_should_stop := True, rs_th := (rs_th s)\<lparr>th_state := TASK_RUNNING\<rparr>\<rparr>) ys"
    if "rt_inv rtwq W s ys" for s ys using that by (auto simp: rt_inv_def in_hand_def)
  have "shannon_list_empty (rt_heap (rs_q (ds_sys d))) rtwq \<longleftrightarrow> xs = []"
    using assms(2) q_inv_empty by (metis destroy_inv_def rt_inv_def)
  then show ?thesis
    using destroy(1) assms(2) run [of "ds_sys d" xs]
    by (intro exI [of _ xs])
      (auto simp: shannon_destroy_rt_workqueue_def shannon_flush_rt_workqueue_def destroy_inv_def flushed_def stopped_def
        split: destroy_pc.splits flush_pc.splits if_splits)
qed

lemma destroy_reachable_inv:
  assumes "destroy_reachable rtwq works h d" "distinct works" "rtwq \<notin> set works"
  shows "\<exists>xs. destroy_inv rtwq (set works) d xs"
  using assms(1) unfolding destroy_reachable_def
proof (induction rule: rtranclp_induct)
  case base
  have "\<not> rs_should_stop (rt_created rtwq works h)" "th_pc (rs_th (rt_created rtwq works h)) = RtTop"
    by (simp_all add: rt_created_def shannon_create_singlethread_rt_workqueue_def Let_def)
  then show ?case
    using rt_created_inv [OF assms(2,3), of h]
    by (intro exI [of _ "[]"]) (auto simp: destroy_inv_def destroy_init_def flushed_def stopped_def)
next
  case (step y z)
  then show ?case using destroy_step_inv by blast
qed

section \<open>Safety\<close>

text \<open>C13 (safety). The memory of a real-time work queue is freed only when it is no longer used: in every run of producers, worker and
  destruction the worker has exited when the queue is freed, and no action of it remains, and every item that was ever accepted has run,
  in the order of acceptance. The flag that stops the worker is never set before the flush has seen the list
  empty.\<close>

theorem rt_destroy_safe:
  assumes "destroy_reachable rtwq works h d" "distinct works" "rtwq \<notin> set works"
  shows "(ds_pc d = Freed \<longrightarrow> rt_worker rtwq (ds_sys d) = None \<and> th_pc (rs_th (ds_sys d)) = RtExit \<and>
      rs_ran (ds_sys d) = rs_accepted (ds_sys d)) \<and>
    (rs_should_stop (ds_sys d) \<longrightarrow> shannon_list_empty (rt_heap (rs_q (ds_sys d))) rtwq)"
proof -
  obtain xs where i: "destroy_inv rtwq (set works) d xs" using destroy_reachable_inv [OF assms] by blast
  have "xs = []" if "rs_should_stop (ds_sys d)" using i that by (auto simp: destroy_inv_def flushed_def stopped_def)
  moreover have "shannon_list_empty (rt_heap (rs_q (ds_sys d))) rtwq \<longleftrightarrow> xs = []"
    using i q_inv_empty by (metis destroy_inv_def rt_inv_def)
  moreover have "th_pc (rs_th (ds_sys d)) = RtExit" "rs_should_stop (ds_sys d)" if "ds_pc d = Freed"
    using i that by (auto simp: destroy_inv_def stopped_def)
  ultimately show ?thesis using i by (auto simp: destroy_inv_def rt_inv_def in_hand_def rt_worker_def)
qed

section \<open>Progress\<close>

text \<open>The worker alone, seen from the composed system.\<close>

lemma run_worker_path: "(destroy_step rtwq W)\<^sup>*\<^sup>* d (d\<lparr>ds_sys := run_worker rtwq n (ds_sys d)\<rparr>)"
proof (induction n)
  case (Suc n)
  let ?d = "d\<lparr>ds_sys := run_worker rtwq n (ds_sys d)\<rparr>"
  have "(destroy_step rtwq W)\<^sup>*\<^sup>* ?d (d\<lparr>ds_sys := run_worker rtwq (Suc n) (ds_sys d)\<rparr>)"
    using destroy_step.work [of rtwq ?d] by (auto simp: run_worker_def split: option.split)
  with Suc show ?case by (rule rtranclp_trans)
qed (simp add: run_worker_def)

lemma run_worker_add: "run_worker rtwq m (run_worker rtwq n s) = run_worker rtwq (m + n) s"
  by (simp add: run_worker_def funpow_add)

lemma run_worker_Suc: "rt_worker rtwq s = Some s' \<Longrightarrow> run_worker rtwq (Suc n) s = run_worker rtwq n s'"
  by (simp add: run_worker_def funpow_Suc_right del: funpow.simps)

lemma run_worker_keeps:
  "rs_should_stop (run_worker rtwq n s) = rs_should_stop s \<and> rs_accepted (run_worker rtwq n s) = rs_accepted s \<and>
   rs_wakers (run_worker rtwq n s) = rs_wakers s"
  by (induction n) (auto simp: run_worker_def dest: worker_keeps split: option.split)

lemma run_worker_keeps_empty: "rt_inv rtwq W s [] \<Longrightarrow> rt_inv rtwq W (run_worker rtwq n s) []"
  by (induction n) (auto simp: run_worker_def dest: worker_keeps_empty split: option.split)

text \<open>With no producer left the worker runs everything by itself: nobody owes it a wake-up, so it does not sleep on
  a non-empty list.\<close>

lemma worker_drains:
  assumes "rt_inv rtwq W s xs" "\<not> rs_should_stop s" "rs_wakers s = 0" "th_pc (rs_th s) \<noteq> RtExit"
  shows "\<exists>n. rt_inv rtwq W (run_worker rtwq n s) [] \<and> in_hand (run_worker rtwq n s) = [] \<and> th_pc (rs_th (run_worker rtwq n s)) \<noteq> RtExit"
  using assms
proof (induction "rt_distance s xs" arbitrary: s xs rule: less_induct)
  case less
  show ?case
  proof (cases "in_hand s @ xs = []")
    case True
    then show ?thesis using less.prems by (intro exI [of _ 0]) (simp add: run_worker_def)
  next
    case False
    have "rt_worker rtwq s \<noteq> None"
    proof
      assume "rt_worker rtwq s = None"
      then have "th_pc (rs_th s) = RtSched" "th_state (rs_th s) = TASK_INTERRUPTIBLE" using rt_worker_blocked less.prems(4) by auto
      then show False using False less.prems(1,3) by (auto simp: rt_inv_def in_hand_def)
    qed
    then obtain s' where s': "rt_worker rtwq s = Some s'" by blast
    obtain xs' where xs': "rt_inv rtwq W s' xs'" "rt_distance s' xs' < rt_distance s xs"
      using rt_worker_progress [OF less.prems(1) False less.prems(2) s'] by blast
    have "\<not> rs_should_stop s'" "rs_wakers s' = 0" "th_pc (rs_th s') \<noteq> RtExit"
      using worker_keeps [OF s'] less.prems by auto
    from less.hyps [OF xs'(2,1) this] show ?thesis by (metis run_worker_Suc [OF s'])
  qed
qed

lemma worker_parks:
  assumes "rt_inv rtwq W s []" "in_hand s = []" "\<not> rs_should_stop s" "th_pc (rs_th s) \<noteq> RtExit"
  shows "\<exists>n. th_pc (rs_th (run_worker rtwq n s)) = RtSched"
proof -
  have e: "shannon_list_empty (rt_heap (rs_q s)) rtwq" using assms(1) q_inv_empty by (auto simp: rt_inv_def)
  have step: "rt_worker rtwq s = Some s' \<Longrightarrow> \<exists>n. th_pc (rs_th (run_worker rtwq n s')) = RtSched \<Longrightarrow>
      \<exists>n. th_pc (rs_th (run_worker rtwq n s)) = RtSched" for s s' by (metis run_worker_Suc)
  note compute = run_worker_def rt_worker_def Let_def eval_nat_numeral
  show ?thesis
  proof (cases "th_pc (rs_th s)")
    case RtTop then show ?thesis using e assms by (intro exI [of _ 5]) (simp add: compute)
  next
    case RtTest then show ?thesis using e assms by (intro exI [of _ 4]) (simp add: compute)
  next
    case RtNap then show ?thesis using e assms by (intro exI [of _ 5]) (simp add: compute)
  next
    case RtIdle then show ?thesis using e assms by (intro exI [of _ 3]) (simp add: compute)
  next
    case RtStop then show ?thesis using e assms by (intro exI [of _ 2]) (simp add: compute)
  next
    case RtSleep then show ?thesis using e assms by (intro exI [of _ 1]) (simp add: compute)
  next
    case RtSched then show ?thesis by (intro exI [of _ 0]) (simp add: compute)
  qed (use assms in \<open>auto simp: rt_inv_def in_hand_def\<close>)
qed

text \<open>The stop request reaches a worker that sleeps in \<open>schedule()\<close>.\<close>

lemma parked_worker_exits:
  assumes "shannon_list_empty (rt_heap (rs_q s)) rtwq" "rs_should_stop s" "th_pc (rs_th s) = RtSched" "th_state (rs_th s) = TASK_RUNNING"
  shows "th_pc (rs_th (run_worker rtwq 5 s)) = RtExit"
  using assms by (simp add: run_worker_def rt_worker_def Let_def eval_nat_numeral)

text \<open>The destroying thread alone; while the worker stays parked on an empty list, it comes to the wait for the exit.\<close>

definition run_destroy :: "ptr \<Rightarrow> nat \<Rightarrow> destroy_sys \<Rightarrow> destroy_sys" where
  "run_destroy rtwq n d = ((\<lambda>d. case shannon_destroy_rt_workqueue rtwq d of None \<Rightarrow> d | Some d' \<Rightarrow> d') ^^ n) d"

lemma run_destroy_path: "(destroy_step rtwq W)\<^sup>*\<^sup>* d (run_destroy rtwq n d)"
proof (induction n)
  case (Suc n)
  have "(destroy_step rtwq W)\<^sup>*\<^sup>* (run_destroy rtwq n d) (run_destroy rtwq (Suc n) d)"
    by (auto simp: run_destroy_def intro: destroy split: option.split)
  with Suc show ?case by (rule rtranclp_trans)
qed (simp add: run_destroy_def)

lemmas run_destroy_compute = run_destroy_def shannon_destroy_rt_workqueue_def shannon_flush_rt_workqueue_def eval_nat_numeral

lemma destroy_to_joining:
  assumes "shannon_list_empty (rt_heap (rs_q (ds_sys d))) rtwq" "ds_pc d \<noteq> InUse" "\<not> stopped (ds_pc d)"
  shows "\<exists>n. run_destroy rtwq n d =
    d\<lparr>ds_pc := Joining, ds_sys := (ds_sys d)\<lparr>rs_should_stop := True, rs_th := (rs_th (ds_sys d))\<lparr>th_state := TASK_RUNNING\<rparr>\<rparr>\<rparr>"
proof -
  consider "ds_pc d = Flushing FlushWake" | "ds_pc d = Flushing FlushWait" | "ds_pc d = Flushing FlushDone" | "ds_pc d = Stopping"
    using assms(2,3) by (cases "ds_pc d" rule: destroy_pc.exhaust) (auto simp: stopped_def intro: flush_pc.exhaust)
  then show ?thesis
  proof cases
    case 1 then show ?thesis using assms(1) by (intro exI [of _ 4]) (simp add: run_destroy_compute)
  next
    case 2 then show ?thesis using assms(1) by (intro exI [of _ 3]) (simp add: run_destroy_compute)
  next
    case 3 then show ?thesis by (intro exI [of _ 2]) (simp add: run_destroy_compute)
  next
    case 4 then show ?thesis by (intro exI [of _ 1]) (simp add: run_destroy_compute)
  qed
qed

lemma destroy_can_finish_aux:
  assumes inv: "destroy_inv rtwq W d xs" and pc: "ds_pc d \<noteq> InUse" "\<not> rs_should_stop (ds_sys d)"
  shows "\<exists>d'. (destroy_step rtwq W)\<^sup>*\<^sup>* d d' \<and> ds_pc d' = Freed \<and> rs_ran (ds_sys d') = rs_accepted (ds_sys d)"
proof -
  have i: "rt_inv rtwq W (ds_sys d) xs" "rs_wakers (ds_sys d) = 0" "th_pc (rs_th (ds_sys d)) \<noteq> RtExit" "\<not> stopped (ds_pc d)"
    using inv pc by (auto simp: destroy_inv_def)
  obtain n where n: "rt_inv rtwq W (run_worker rtwq n (ds_sys d)) []" "in_hand (run_worker rtwq n (ds_sys d)) = []"
      "th_pc (rs_th (run_worker rtwq n (ds_sys d))) \<noteq> RtExit"
    using worker_drains [OF i(1) pc(2) i(2,3)] by blast
  obtain m where m: "th_pc (rs_th (run_worker rtwq m (run_worker rtwq n (ds_sys d)))) = RtSched"
    using worker_parks [OF n(1,2) _ n(3)] pc(2) run_worker_keeps by blast
  define s1 where "s1 = run_worker rtwq (m + n) (ds_sys d)"
  have s1: "rt_inv rtwq W s1 []" "th_pc (rs_th s1) = RtSched" "rs_accepted s1 = rs_accepted (ds_sys d)"
    using run_worker_keeps_empty [OF n(1), of m] m run_worker_keeps by (auto simp: s1_def run_worker_add)
  have e: "shannon_list_empty (rt_heap (rs_q s1)) rtwq" using s1(1) q_inv_empty by (auto simp: rt_inv_def)
  define s2 where "s2 = s1\<lparr>rs_should_stop := True, rs_th := (rs_th s1)\<lparr>th_state := TASK_RUNNING\<rparr>\<rparr>"
  define s3 where "s3 = run_worker rtwq 5 s2"
  have "(destroy_step rtwq W)\<^sup>*\<^sup>* d (d\<lparr>ds_sys := s1\<rparr>)" unfolding s1_def by (rule run_worker_path)
  also have "(destroy_step rtwq W)\<^sup>*\<^sup>* (d\<lparr>ds_sys := s1\<rparr>) (d\<lparr>ds_pc := Joining, ds_sys := s2\<rparr>)"
    using destroy_to_joining [of "d\<lparr>ds_sys := s1\<rparr>" rtwq] run_destroy_path [of rtwq W "d\<lparr>ds_sys := s1\<rparr>"] e pc(1) i(4)
    by (auto simp: s2_def) metis
  also have "(destroy_step rtwq W)\<^sup>*\<^sup>* (d\<lparr>ds_pc := Joining, ds_sys := s2\<rparr>) (d\<lparr>ds_pc := Joining, ds_sys := s3\<rparr>)"
    using run_worker_path [of rtwq W "d\<lparr>ds_pc := Joining, ds_sys := s2\<rparr>" 5] by (simp add: s3_def)
  also have "(destroy_step rtwq W)\<^sup>*\<^sup>* (d\<lparr>ds_pc := Joining, ds_sys := s3\<rparr>) (run_destroy rtwq 2 (d\<lparr>ds_pc := Joining, ds_sys := s3\<rparr>))"
    by (rule run_destroy_path)
  finally have path: "(destroy_step rtwq W)\<^sup>*\<^sup>* d (run_destroy rtwq 2 (d\<lparr>ds_pc := Joining, ds_sys := s3\<rparr>))" .
  have x: "th_pc (rs_th s3) = RtExit" unfolding s3_def by (rule parked_worker_exits) (use e s1(2) in \<open>simp_all add: s2_def\<close>)
  have "rt_inv rtwq W s2 []" using s1(1,2) by (simp add: s2_def rt_inv_def in_hand_def)
  then have "rt_inv rtwq W s3 []" unfolding s3_def by (rule run_worker_keeps_empty)
  then have "rs_ran s3 = rs_accepted s3" using x by (simp add: rt_inv_def in_hand_def)
  moreover have "rs_accepted s3 = rs_accepted (ds_sys d)" using run_worker_keeps [of rtwq 5 s2] s1(3) by (simp add: s3_def s2_def)
  moreover have "run_destroy rtwq 2 (d\<lparr>ds_pc := Joining, ds_sys := s3\<rparr>) = d\<lparr>ds_pc := Freed, ds_sys := s3\<rparr>"
    using x by (simp add: run_destroy_compute)
  ultimately show ?thesis using path by auto
qed

text \<open>C14 (liveness). Destroying the real-time work queue can always complete: from every reachable state in which the destruction has begun and the
  worker has not been told to stop, steps of the worker and of the destroying thread lead to the freed queue, with everything that was
  accepted run.\<close>

theorem rt_destroy_can_finish:
  assumes "destroy_reachable rtwq works h d" "distinct works" "rtwq \<notin> set works"
    and "ds_pc d \<noteq> InUse" "\<not> rs_should_stop (ds_sys d)"
  shows "\<exists>d'. (destroy_step rtwq (set works))\<^sup>*\<^sup>* d d' \<and> ds_pc d' = Freed \<and> rs_ran (ds_sys d') = rs_accepted (ds_sys d)"
  using destroy_reachable_inv [OF assms(1-3)] destroy_can_finish_aux assms(4,5) by blast

text \<open>An item is queued, its producer wakes the worker, and the destruction begins.\<close>

definition sample_destroy :: destroy_sys where
  "sample_destroy = \<lparr>ds_sys = rt_queued_state\<lparr>rs_wakers := 0, rs_th := (rs_th rt_queued_state)\<lparr>th_state := TASK_RUNNING\<rparr>\<rparr>,
     ds_pc = Flushing FlushWake\<rparr>"

lemma sample_destroy_reachable: "destroy_reachable 1 [10] sample_heap0 sample_destroy"
proof -
  let ?s = "rt_created 1 [10] sample_heap0"
  let ?W = "set [10 :: ptr]"
  obtain q where q: "shannon_rt_queue_work 1 (rs_q ?s) 10 = Some (q, 0)" by (simp add: rt_compute)
  have queued: "?s\<lparr>rs_q := q, rs_wakers := Suc (rs_wakers ?s), rs_accepted := rs_accepted ?s @ [10]\<rparr> = rt_queued_state"
    using q by (simp add: rt_queued_state_def Let_def) (simp add: rt_created_def shannon_create_singlethread_rt_workqueue_def)
  have a: "rt_step 1 ?W ?s rt_queued_state" unfolding queued [symmetric] by (rule rt_step.accept) (use q in auto)
  have th: "rs_wakers rt_queued_state = Suc 0" "rs_should_stop rt_queued_state = rs_should_stop ?s"
    by (simp_all add: rt_compute)
  let ?s2 = "rt_queued_state\<lparr>rs_wakers := 0, rs_th := (rs_th rt_queued_state)\<lparr>th_state := TASK_RUNNING\<rparr>\<rparr>"
  have b: "rt_step 1 ?W rt_queued_state ?s2" by (rule rt_step.wake [OF th(1)])
  let ?d1 = "\<lparr>ds_sys = rt_queued_state, ds_pc = InUse\<rparr>" and ?d2 = "\<lparr>ds_sys = ?s2, ds_pc = InUse\<rparr>"
  have "destroy_step 1 ?W (destroy_init 1 [10] sample_heap0) ?d1"
    using use [of "destroy_init 1 [10] sample_heap0" 1 ?W rt_queued_state] a th(2) by (simp add: destroy_init_def)
  moreover have "destroy_step 1 ?W ?d1 ?d2" using use [of ?d1 1 ?W] b by simp
  moreover have "destroy_step 1 ?W ?d2 sample_destroy" using begin_destroy [of ?d2 1 ?W] by (simp add: sample_destroy_def)
  ultimately show ?thesis unfolding destroy_reachable_def by (meson converse_rtranclp_into_rtranclp rtranclp.rtrancl_refl)
qed

lemma destroy_reachable_trans:
  "destroy_reachable rtwq works h d \<Longrightarrow> (destroy_step rtwq (set works))\<^sup>*\<^sup>* d d' \<Longrightarrow> destroy_reachable rtwq works h d'"
  unfolding destroy_reachable_def by (rule rtranclp_trans)

theorem rt_destroy_can_finish_witness:
  "\<exists>d'. (destroy_step 1 (set [10]))\<^sup>*\<^sup>* sample_destroy d' \<and> ds_pc d' = Freed \<and> rs_ran (ds_sys d') = [10]"
proof -
  have "ds_pc sample_destroy \<noteq> InUse" "\<not> rs_should_stop (ds_sys sample_destroy)" "rs_accepted (ds_sys sample_destroy) = [10]"
    by (simp_all add: sample_destroy_def rt_compute)
  then show ?thesis using rt_destroy_can_finish [OF sample_destroy_reachable] by simp
qed

theorem rt_destroy_safe_witness:
  "\<exists>d. destroy_reachable 1 [10] sample_heap0 d \<and> ds_pc d = Freed \<and> rt_worker 1 (ds_sys d) = None \<and> rs_ran (ds_sys d) = [10]"
proof -
  obtain xs where "destroy_inv 1 (set [10]) sample_destroy xs" using destroy_reachable_inv [OF sample_destroy_reachable] by auto
  moreover have "ds_pc sample_destroy \<noteq> InUse" "\<not> rs_should_stop (ds_sys sample_destroy)" "rs_accepted (ds_sys sample_destroy) = [10]"
    by (simp_all add: sample_destroy_def rt_compute)
  ultimately obtain d where d: "(destroy_step 1 (set [10]))\<^sup>*\<^sup>* sample_destroy d" "ds_pc d = Freed" "rs_ran (ds_sys d) = [10]"
    by (metis destroy_can_finish_aux)
  have reach: "destroy_reachable 1 [10] sample_heap0 d" by (rule destroy_reachable_trans [OF sample_destroy_reachable d(1)])
  then show ?thesis using d rt_destroy_safe [OF reach] by auto
qed

text \<open>The destruction can also hang: the worker tests the stop flag just before the destroying thread sets it, and marks itself
  sleeping just after the wake-up. The composed system then has no step left, with the destroying thread waiting for the
  exit of a worker that is never woken.\<close>

theorem rt_destroy_can_hang:
  "\<exists>d. destroy_reachable 1 [10] sample_heap0 d \<and> ds_pc d = Joining \<and> (\<forall>d'. \<not> destroy_step 1 (set [10]) d d')"
proof -
  let ?d0 = "destroy_init 1 [10] sample_heap0"
  define s1 where "s1 = run_worker 1 4 (rt_created 1 [10] sample_heap0)"
  define d2 where "d2 = run_destroy 1 4 \<lparr>ds_sys = s1, ds_pc = Flushing FlushWake\<rparr>"
  define d where "d = d2\<lparr>ds_sys := run_worker 1 1 (ds_sys d2)\<rparr>"
  have s1: "th_pc (rs_th s1) = RtSleep" "shannon_list_empty (rt_heap (rs_q s1)) 1" "rs_wakers s1 = 0"
    by (simp_all add: s1_def run_worker_def eval_nat_numeral rt_compute)
  have "destroy_reachable 1 [10] sample_heap0 (?d0\<lparr>ds_sys := s1\<rparr>)"
    unfolding destroy_reachable_def using run_worker_path [of 1 "set [10]" ?d0 4] by (simp add: destroy_init_def s1_def)
  moreover have "destroy_step 1 (set [10]) (?d0\<lparr>ds_sys := s1\<rparr>) \<lparr>ds_sys = s1, ds_pc = Flushing FlushWake\<rparr>"
    using begin_destroy [of "?d0\<lparr>ds_sys := s1\<rparr>" 1 "set [10]"] s1(3) by (simp add: destroy_init_def)
  ultimately have "destroy_reachable 1 [10] sample_heap0 \<lparr>ds_sys = s1, ds_pc = Flushing FlushWake\<rparr>"
    by (rule destroy_reachable_trans [OF _ r_into_rtranclp])
  then have "destroy_reachable 1 [10] sample_heap0 d"
    unfolding d_def d2_def by (intro destroy_reachable_trans [OF _ run_destroy_path] destroy_reachable_trans [OF _ run_worker_path])
  moreover have st: "ds_pc d = Joining" "th_pc (rs_th (ds_sys d)) = RtSched" "rt_worker 1 (ds_sys d) = None"
    using s1 by (simp_all add: d_def d2_def run_destroy_compute run_worker_def rt_worker_def Let_def)
  moreover have "\<not> destroy_step 1 (set [10]) d d'" for d'
    using st by (auto elim!: destroy_stepE simp: shannon_destroy_rt_workqueue_def)
  ultimately show ?thesis by blast
qed

end
