(* ===== verification/Message_Log.thy ===== *)
theory Message_Log
  imports Kcore
begin

text \<open>
  The messages of the driver (the macros \<open>shannon_info\<close>, \<open>shannon_warn\<close>, \<open>shannon_err\<close> and the others of \<^verbatim>\<open>shannon_kcore.h\<close> and the printing functions of
  \<^verbatim>\<open>shannon_kcore.c\<close>) over the rate limit of \<^verbatim>\<open>Kcore\<close>. The kernel log is a list of lines; a format with its arguments is the text it expands to.
  Every call carries the time at which it is made, and the trylock of the rate limit succeeds; a contended lock drops the message
  (\<open>shannon_ratelimit\<close> with \<open>trylock\<close> false).
\<close>

section \<open>Kinds of messages\<close>

datatype msg_kind = Info | RecoverInfo | Log | Warn | Alarm | Err | RecoverErr | Fatal | Dbg int

datatype printer = Printk | PrintkRatelimited | RecoverPrintkRatelimited

text \<open>The printing function each macro calls and the text it puts in front: \<open>%s()\<close> is the calling function. \<open>kern_err\<close> is the kernel's
  \<open>KERN_ERR\<close>; the header has a value for kernels without one.\<close>

definition KERN_ERR :: string where "KERN_ERR = ''<3>''"

fun msg_printer :: "msg_kind \<Rightarrow> printer" where
  "msg_printer Info = PrintkRatelimited"
| "msg_printer RecoverInfo = RecoverPrintkRatelimited"
| "msg_printer Log = PrintkRatelimited"
| "msg_printer Warn = PrintkRatelimited"
| "msg_printer Alarm = Printk"
| "msg_printer Err = Printk"
| "msg_printer RecoverErr = RecoverPrintkRatelimited"
| "msg_printer Fatal = Printk"
| "msg_printer (Dbg level) = Printk"

fun msg_prefix :: "msg_kind \<Rightarrow> string \<Rightarrow> string" where
  "msg_prefix Info func = ''shn_info: ''"
| "msg_prefix RecoverInfo func = ''shn_info: ''"
| "msg_prefix Log func = ''shn_log: ''"
| "msg_prefix Warn func = ''shn_warn: '' @ func @ ''(): ''"
| "msg_prefix Alarm func = ''shn_alarm: '' @ func @ ''(): ''"
| "msg_prefix Err func = ''shn_err: '' @ func @ ''(): ''"
| "msg_prefix RecoverErr func = ''shn_err: '' @ func @ ''(): ''"
| "msg_prefix Fatal func = ''shn_fatal: '' @ func @ ''(): ''"
| "msg_prefix (Dbg level) func = ''shn_dbg: '' @ func @ ''(): ''"

section \<open>Printing\<close>

text \<open>A line of the log: a message, or the report of a limiter, by the name of its function, how many it dropped.\<close>

datatype log_line = Printed string | Suppressed string nat

record log_state =
  shannon_rs :: shannon_ratelimit_state
  recover_rs :: shannon_ratelimit_state
  shannon_debug_level :: int
  klog :: "log_line list"

definition shannon_printk :: "string \<Rightarrow> log_state \<Rightarrow> log_state" where
  "shannon_printk line st = st\<lparr>klog := klog st @ [Printed line]\<rparr>"

text \<open>What \<open>shannon_ratelimit\<close> itself prints when an interval has ended.\<close>

definition ratelimit_report :: "string \<Rightarrow> u64 \<Rightarrow> shannon_ratelimit_state \<Rightarrow> log_line list" where
  "ratelimit_report func jiffies rs =
    (if rl_interval rs \<noteq> 0 \<and> ratelimit_resets jiffies rs \<and> rl_missed rs \<noteq> 0 then [Suppressed func (rl_missed rs)] else [])"

definition printk_ratelimited :: "u64 \<Rightarrow> string \<Rightarrow> log_state \<Rightarrow> log_state" where
  "printk_ratelimited jiffies line st =
    (let rep = ratelimit_report ''shannon_printk_ratelimited'' jiffies (shannon_rs st);
         (rs, ok) = shannon_ratelimit True jiffies (shannon_rs st);
         st = st\<lparr>shannon_rs := rs, klog := klog st @ rep\<rparr>
     in if ok then shannon_printk line st else st)"

definition shannon_recover_printk_ratelimited :: "u64 \<Rightarrow> string \<Rightarrow> log_state \<Rightarrow> log_state" where
  "shannon_recover_printk_ratelimited jiffies line st =
    (let rep = ratelimit_report ''shannon_recover_printk_ratelimited'' jiffies (recover_rs st);
         (rs, ok) = shannon_ratelimit True jiffies (recover_rs st);
         st = st\<lparr>recover_rs := rs, klog := klog st @ rep\<rparr>
     in if ok then shannon_printk line st else st)"

definition print_by :: "printer \<Rightarrow> u64 \<Rightarrow> string \<Rightarrow> log_state \<Rightarrow> log_state" where
  "print_by p jiffies line st =
    (case p of Printk \<Rightarrow> shannon_printk line st
     | PrintkRatelimited \<Rightarrow> printk_ratelimited jiffies line st
     | RecoverPrintkRatelimited \<Rightarrow> shannon_recover_printk_ratelimited jiffies line st)"

text \<open>\<open>shannon_dbg\<close> tests its level first.\<close>

definition shannon_dbg :: "int \<Rightarrow> u64 \<Rightarrow> string \<Rightarrow> log_state \<Rightarrow> log_state" where
  "shannon_dbg level jiffies line st = (if level \<le> shannon_debug_level st then print_by Printk jiffies line st else st)"

record log_call =
  lc_time :: u64
  lc_kind :: msg_kind
  lc_func :: string
  lc_text :: string

definition log_line_of :: "log_call \<Rightarrow> string" where
  "log_line_of c = KERN_ERR @ msg_prefix (lc_kind c) (lc_func c) @ lc_text c"

definition shannon_message :: "log_call \<Rightarrow> log_state \<Rightarrow> log_state" where
  "shannon_message c st =
    (case lc_kind c of Dbg level \<Rightarrow> shannon_dbg level (lc_time c) (log_line_of c) st
     | k \<Rightarrow> print_by (msg_printer k) (lc_time c) (log_line_of c) st)"

text \<open>The limiters at load: 500 and 1000 messages in five seconds of \<open>hz\<close> jiffies each.\<close>

definition SHANNON_DEFAULT_RATELIMIT_BURST :: nat where "SHANNON_DEFAULT_RATELIMIT_BURST = 500"
definition SHANNON_DEFAULT_RECOVER_RATELIMIT_BURST :: nat where "SHANNON_DEFAULT_RECOVER_RATELIMIT_BURST = 1000"

definition ratelimit_state_init :: "u64 \<Rightarrow> nat \<Rightarrow> shannon_ratelimit_state" where
  "ratelimit_state_init interval burst = \<lparr>rl_interval = interval, rl_burst = burst, rl_printed = 0, rl_missed = 0, rl_begin = 0\<rparr>"

definition log_init :: "u64 \<Rightarrow> int \<Rightarrow> log_state" where
  "log_init hz debug_level = \<lparr>shannon_rs = ratelimit_state_init (5 * hz) SHANNON_DEFAULT_RATELIMIT_BURST,
     recover_rs = ratelimit_state_init (5 * hz) SHANNON_DEFAULT_RECOVER_RATELIMIT_BURST, shannon_debug_level = debug_level, klog = []\<rparr>"

section \<open>The log that should result\<close>

text \<open>What is promised of each kind, independently of the macros: alarms, errors and fatal errors always appear, debug messages up
  to the level; informations, log messages and warnings share one budget, the messages of recovery another.\<close>

datatype budget = Always | Never | Shared | Recovery

fun budget_of :: "int \<Rightarrow> msg_kind \<Rightarrow> budget" where
  "budget_of level (Dbg l) = (if l \<le> level then Always else Never)"
| "budget_of level k = (if k \<in> {Info, Log, Warn} then Shared else if k \<in> {RecoverInfo, RecoverErr} then Recovery else Always)"

text \<open>The label of a kind; every kind but informations and log messages names the function that reports.\<close>

definition label_of :: "msg_kind \<Rightarrow> string" where
  "label_of k = (case k of Info \<Rightarrow> ''info'' | RecoverInfo \<Rightarrow> ''info'' | Log \<Rightarrow> ''log'' | Warn \<Rightarrow> ''warn'' | Alarm \<Rightarrow> ''alarm''
     | Err \<Rightarrow> ''err'' | RecoverErr \<Rightarrow> ''err'' | Fatal \<Rightarrow> ''fatal'' | Dbg _ \<Rightarrow> ''dbg'')"

definition expected_line :: "log_call \<Rightarrow> string" where
  "expected_line c = ''<3>shn_'' @ label_of (lc_kind c) @ '': '' @
     (if lc_kind c \<in> {Info, RecoverInfo, Log} then [] else lc_func c @ ''(): '') @ lc_text c"

fun admitted :: "int \<Rightarrow> nat \<Rightarrow> nat \<Rightarrow> log_call list \<Rightarrow> log_call list" where
  "admitted level a b [] = []"
| "admitted level a b (c # cs) =
    (case budget_of level (lc_kind c) of
       Always \<Rightarrow> c # admitted level a b cs
     | Never \<Rightarrow> admitted level a b cs
     | Shared \<Rightarrow> (if 0 < a then [c] else []) @ admitted level (a - 1) b cs
     | Recovery \<Rightarrow> (if 0 < b then [c] else []) @ admitted level a (b - 1) cs)"

text \<open>When the calls are made that draw on a budget.\<close>

definition times_of :: "budget \<Rightarrow> log_call list \<Rightarrow> u64 list" where
  "times_of p cs = map lc_time (filter (\<lambda>c. budget_of 0 (lc_kind c) = p) cs)"

lemma times_of_Cons [simp]:
  "times_of p (c # cs) = (if budget_of 0 (lc_kind c) = p then [lc_time c] else []) @ times_of p cs"
  by (simp add: times_of_def)

lemma budget_level: "budget_of l k = Shared \<longleftrightarrow> budget_of 0 k = Shared" "budget_of l k = Recovery \<longleftrightarrow> budget_of 0 k = Recovery"
  by (cases k; simp)+

lemma line_as_expected: "log_line_of c = expected_line c"
  by (cases "lc_kind c") (simp_all add: log_line_of_def expected_line_def label_of_def KERN_ERR_def)

definition rs_left :: "shannon_ratelimit_state \<Rightarrow> nat" where "rs_left rs = rl_burst rs - rl_printed rs"

text \<open>A limited call inside the interval: one message less is left, or none was.\<close>

lemma limited_call:
  assumes "rl_interval rs \<noteq> 0" "\<not> ratelimit_resets j rs"
  shows "\<exists>rs'. shannon_ratelimit True j rs = (rs', 0 < rs_left rs) \<and> rl_interval rs' \<noteq> 0 \<and> rs_left rs' = rs_left rs - 1 \<and>
    ratelimit_report f j rs = []"
proof -
  obtain rs' ok where c: "shannon_ratelimit True j rs = (rs', ok)" by (cases "shannon_ratelimit True j rs")
  show ?thesis using ratelimit_call [OF assms c] c assms by (auto simp: rs_left_def ratelimit_report_def)
qed

lemma printed_line: "klog (shannon_printk line st) = klog st @ [Printed line]"
  and printed_rest: "shannon_rs (shannon_printk line st) = shannon_rs st" "recover_rs (shannon_printk line st) = recover_rs st"
    "shannon_debug_level (shannon_printk line st) = shannon_debug_level st"
  by (simp_all add: shannon_printk_def)

lemma message_eq:
  "shannon_message c st = (case budget_of (shannon_debug_level st) (lc_kind c) of
     Always \<Rightarrow> shannon_printk (expected_line c) st
   | Never \<Rightarrow> st
   | Shared \<Rightarrow> printk_ratelimited (lc_time c) (expected_line c) st
   | Recovery \<Rightarrow> shannon_recover_printk_ratelimited (lc_time c) (expected_line c) st)"
  by (cases "lc_kind c") (auto simp: shannon_message_def shannon_dbg_def print_by_def line_as_expected)

text \<open>C39 (refinement). Whatever messages of all kinds are mixed, within one interval of each limiter the kernel log holds exactly the messages that
  a log with two budgets admits, in order, each as its kind's label (and, but for informations and log messages, the reporting
  function) and its text at level \<open>KERN_ERR\<close>: alarms, errors, fatal errors and debug messages up to the level all appear,
  informations, log messages and warnings share the first budget, the messages of recovery the second, and neither uses up the
  other.\<close>

theorem log_exact:
  assumes "rl_interval (shannon_rs st) \<noteq> 0" "rl_interval (recover_rs st) \<noteq> 0"
    and "within_interval (times_of Shared cs) (shannon_rs st)"
    and "within_interval (times_of Recovery cs) (recover_rs st)"
  shows "klog (fold shannon_message cs st) = klog st @
    map (Printed \<circ> expected_line) (admitted (shannon_debug_level st) (rs_left (shannon_rs st)) (rs_left (recover_rs st)) cs)"
  using assms
proof (induction cs arbitrary: st)
  case (Cons c cs)
  let ?st = "shannon_message c st" and ?lv = "shannon_debug_level st"
  note lv = budget_level [of ?lv "lc_kind c"]
  show ?case
  proof (cases "budget_of ?lv (lc_kind c)")
    case Always
    then have "klog ?st = klog st @ [Printed (expected_line c)]"
        "shannon_rs ?st = shannon_rs st" "recover_rs ?st = recover_rs st" "shannon_debug_level ?st = ?lv"
      by (simp_all add: message_eq shannon_printk_def)
    then show ?thesis using Cons.IH [of ?st] Cons.prems Always lv by simp
  next
    case Never
    then have "?st = st" by (simp add: message_eq)
    then show ?thesis using Cons.IH [of ?st] Cons.prems Never lv by simp
  next
    case Shared
    obtain rs' where rs': "shannon_ratelimit True (lc_time c) (shannon_rs st) = (rs', 0 < rs_left (shannon_rs st))"
        "rl_interval rs' \<noteq> 0" "rs_left rs' = rs_left (shannon_rs st) - 1"
        "ratelimit_report ''shannon_printk_ratelimited'' (lc_time c) (shannon_rs st) = []"
      using limited_call [OF Cons.prems(1)] Cons.prems(3) Shared lv by fastforce
    then have "klog ?st = klog st @ (if 0 < rs_left (shannon_rs st) then [Printed (expected_line c)] else [])"
        "shannon_rs ?st = rs'" "recover_rs ?st = recover_rs st" "shannon_debug_level ?st = ?lv"
      using Shared by (simp_all add: message_eq printk_ratelimited_def Let_def shannon_printk_def)
    then show ?thesis using Cons.IH [of ?st] Cons.prems Shared lv rs' by simp
  next
    case Recovery
    obtain rs' where rs': "shannon_ratelimit True (lc_time c) (recover_rs st) = (rs', 0 < rs_left (recover_rs st))"
        "rl_interval rs' \<noteq> 0" "rs_left rs' = rs_left (recover_rs st) - 1"
        "ratelimit_report ''shannon_recover_printk_ratelimited'' (lc_time c) (recover_rs st) = []"
      using limited_call [OF Cons.prems(2)] Cons.prems(4) Recovery lv by fastforce
    then have "klog ?st = klog st @ (if 0 < rs_left (recover_rs st) then [Printed (expected_line c)] else [])"
        "recover_rs ?st = rs'" "shannon_rs ?st = shannon_rs st" "shannon_debug_level ?st = ?lv"
      using Recovery by (simp_all add: message_eq shannon_recover_printk_ratelimited_def Let_def shannon_printk_def)
    then show ?thesis using Cons.IH [of ?st] Cons.prems Recovery lv rs' by simp
  qed
qed simp

definition sample_calls :: "log_call list" where
  "sample_calls = [\<lparr>lc_time = 7, lc_kind = Warn, lc_func = ''f'', lc_text = ''a''\<rparr>, \<lparr>lc_time = 8, lc_kind = Info, lc_func = ''f'', lc_text = ''b''\<rparr>,
     \<lparr>lc_time = 8, lc_kind = RecoverErr, lc_func = ''g'', lc_text = ''c''\<rparr>, \<lparr>lc_time = 9, lc_kind = Err, lc_func = ''f'', lc_text = ''d''\<rparr>,
     \<lparr>lc_time = 9, lc_kind = Dbg 3, lc_func = ''f'', lc_text = ''e''\<rparr>]"

definition sample_log :: log_state where
  "sample_log = (log_init 100 0)\<lparr>shannon_rs := ratelimit_state_init 500 1\<rparr>"

theorem log_exact_witness:
  "klog (fold shannon_message sample_calls sample_log) =
    [Printed ''<3>shn_warn: f(): a'', Printed ''<3>shn_err: g(): c'', Printed ''<3>shn_err: f(): d'']"
proof -
  note c = sample_calls_def sample_log_def log_init_def ratelimit_state_init_def times_of_def
    SHANNON_DEFAULT_RECOVER_RATELIMIT_BURST_def
  have "rl_interval (shannon_rs sample_log) \<noteq> 0" "rl_interval (recover_rs sample_log) \<noteq> 0" by (simp_all add: c)
  moreover have "within_interval (times_of Shared sample_calls) (shannon_rs sample_log)"
    "within_interval (times_of Recovery sample_calls) (recover_rs sample_log)"
    by (simp_all add: c ratelimit_resets_def time_after_def shannon_ratelimit_def Let_def)
  ultimately have "klog (fold shannon_message sample_calls sample_log) = klog sample_log @ map (Printed \<circ> expected_line)
      (admitted (shannon_debug_level sample_log) (rs_left (shannon_rs sample_log)) (rs_left (recover_rs sample_log)) sample_calls)"
    by (rule log_exact)
  then show ?thesis by (simp add: c rs_left_def expected_line_def label_of_def)
qed

text \<open>Nothing is dropped without a trace: when a new interval begins, the limiter reports exactly the number of messages it
  dropped in the old one, before the message that began the new one.\<close>

lemma next_interval_reports:
  assumes "rl_interval (shannon_rs st) \<noteq> 0" "ratelimit_resets j (shannon_rs st)" "0 < rl_missed (shannon_rs st)" "0 < rl_burst (shannon_rs st)"
  shows "klog (printk_ratelimited j line st) =
    klog st @ [Suppressed ''shannon_printk_ratelimited'' (rl_missed (shannon_rs st)), Printed line] \<and>
    rl_missed (shannon_rs (printk_ratelimited j line st)) = 0"
  using assms
  by (auto simp: printk_ratelimited_def ratelimit_report_def shannon_ratelimit_def ratelimit_resets_def Let_def shannon_printk_def)

end
