(* ===== verification/Disk_Ops.thy ===== *)
theory Disk_Ops
  imports Block_Queue Module_Init
begin

text \<open>
  The operation tables of the disks and control devices (\<^verbatim>\<open>shannon_module_init.c\<close>) with the functions they name in their variants for older
  kernels, and the way of a bio from the disk it is submitted to, over the table and the queue, to the object of the driver
  that serves it. Queues and disks are those of \<^verbatim>\<open>Block_Queue\<close>.
\<close>

section \<open>Opening and releasing on older kernels\<close>

text \<open>Before 6.0 the open functions only count a user, and the kernel checks for a media change itself; before 3.10 the release
  functions return 0.\<close>

definition shannon_open_2_6_28 :: "(disk_users \<Rightarrow> int \<times> disk_users) \<Rightarrow> disk_users \<Rightarrow> int \<times> disk_users" where
  "shannon_open_2_6_28 inc disk = inc disk"

definition shannon_open_ns_2_6_28 :: "(disk_users \<Rightarrow> int \<times> disk_users) \<Rightarrow> disk_users \<Rightarrow> int \<times> disk_users" where
  "shannon_open_ns_2_6_28 inc disk = inc disk"

definition shannon_release_2_6_28 :: "(disk_users \<Rightarrow> int \<times> disk_users) \<Rightarrow> disk_users \<Rightarrow> int \<times> disk_users" where
  "shannon_release_2_6_28 dec disk = (0, snd (dec disk))"

definition shannon_release_ns_2_6_28 :: "(disk_users \<Rightarrow> int \<times> disk_users) \<Rightarrow> disk_users \<Rightarrow> int \<times> disk_users" where
  "shannon_release_ns_2_6_28 dec disk = (0, snd (dec disk))"

text \<open>Before 2.6.28 they get an inode and find the disk through its block device; \<open>i_bdev\<close> and \<open>bd_disk\<close> are the two
  pointers.\<close>

definition shannon_open_inode ::
    "('i \<Rightarrow> 'b) \<Rightarrow> ('b \<Rightarrow> nat) \<Rightarrow> (disk_users \<Rightarrow> int \<times> disk_users) \<Rightarrow> 'i \<Rightarrow> (nat \<Rightarrow> disk_users) \<Rightarrow> int \<times> (nat \<Rightarrow> disk_users)" where
  "shannon_open_inode i_bdev bd_disk inc i ds =
    (let d = bd_disk (i_bdev i); (ret, u) = inc (ds d) in (ret, ds(d := u)))"

definition shannon_release_inode ::
    "('i \<Rightarrow> 'b) \<Rightarrow> ('b \<Rightarrow> nat) \<Rightarrow> (disk_users \<Rightarrow> int \<times> disk_users) \<Rightarrow> 'i \<Rightarrow> (nat \<Rightarrow> disk_users) \<Rightarrow> int \<times> (nat \<Rightarrow> disk_users)" where
  "shannon_release_inode i_bdev bd_disk dec i ds =
    (let d = bd_disk (i_bdev i) in (0, ds(d := snd (dec (ds d)))))"

text \<open>A counter of the core that a release takes back gives the disks back as they were before the open.\<close>

lemma open_release_inode:
  assumes "\<And>u. snd (dec (snd (inc u))) = u"
  shows "snd (shannon_release_inode i_bdev bd_disk dec i (snd (shannon_open_inode i_bdev bd_disk inc i ds))) = ds"
  using assms by (auto simp: shannon_release_inode_def shannon_open_inode_def Let_def split: prod.splits) (metis fun_upd_triv snd_conv)

section \<open>Operation tables\<close>

text \<open>Each member names the function for whole devices or the one for namespaces; \<open>None\<close> is a member that is not set.\<close>

datatype served = ForDev | ForNs

record block_device_operations =
  op_getgeo :: "served option"
  op_open :: "served option"
  op_release :: "served option"
  op_revalidate_disk :: "served option"
  op_submit_bio :: "served option"

definition shannon_ops_6_0 :: block_device_operations where
  "shannon_ops_6_0 =
    \<lparr>op_getgeo = Some ForDev, op_open = Some ForDev, op_release = Some ForDev, op_revalidate_disk = None, op_submit_bio = Some ForDev\<rparr>"

definition shannon_ops_2_6_28 :: "nat \<Rightarrow> block_device_operations" where
  "shannon_ops_2_6_28 v =
    \<lparr>op_getgeo = Some ForDev, op_open = Some ForDev, op_release = Some ForDev,
     op_revalidate_disk = (if v < KERNEL_VERSION 5 15 0 then Some ForDev else None),
     op_submit_bio = (if v < KERNEL_VERSION 5 15 0 then None else Some ForDev)\<rparr>"

definition shannon_ops_2_6_27 :: block_device_operations where
  "shannon_ops_2_6_27 =
    \<lparr>op_getgeo = Some ForDev, op_open = Some ForDev, op_release = Some ForDev, op_revalidate_disk = Some ForDev, op_submit_bio = None\<rparr>"

definition shannon_ops :: "nat \<Rightarrow> block_device_operations" where
  "shannon_ops v =
    (if KERNEL_VERSION 6 0 0 \<le> v then shannon_ops_6_0
     else if KERNEL_VERSION 2 6 28 \<le> v then shannon_ops_2_6_28 v
     else shannon_ops_2_6_27)"

definition shannon_ops_ns :: "nat \<Rightarrow> block_device_operations" where
  "shannon_ops_ns v =
    \<lparr>op_getgeo = Some ForNs, op_open = Some ForNs, op_release = Some ForNs,
     op_revalidate_disk = (if v < KERNEL_VERSION 5 15 0 then Some ForNs else None),
     op_submit_bio = (if v < KERNEL_VERSION 5 15 0 then None else Some ForNs)\<rparr>"

text \<open>The table of a disk. The member \<open>submit_bio\<close> of \<open>shannon_ops\<close> is cleared for all disks at once.\<close>

definition disk_operations :: "nat \<Rightarrow> blk_heap \<Rightarrow> nat \<Rightarrow> block_device_operations option" where
  "disk_operations v h disk =
    (case fops (gds h disk) of
       OpsUnset \<Rightarrow> None
     | ShannonOps \<Rightarrow> Some (if shannon_ops_submit_bio h then shannon_ops v else (shannon_ops v)\<lparr>op_submit_bio := None\<rparr>)
     | ShannonOpsNs \<Rightarrow> Some (shannon_ops_ns v))"

section \<open>Submitting a bio\<close>

text \<open>\<open>q = bio->bi_bdev->bd_disk->queue\<close>; \<open>make_request\<close> gets the queue and the bio.\<close>

definition shannon_submit_bio :: "(nat \<Rightarrow> 'b \<Rightarrow> 'r) \<Rightarrow> (nat \<Rightarrow> gendisk) \<Rightarrow> nat \<Rightarrow> 'b \<Rightarrow> 'r" where
  "shannon_submit_bio make_request disks bd_disk bio = (let q = gd_queue (disks bd_disk) in make_request q bio)"

definition shannon_submit_bio_ns :: "(nat \<Rightarrow> 'b \<Rightarrow> 'r) \<Rightarrow> (nat \<Rightarrow> gendisk) \<Rightarrow> nat \<Rightarrow> 'b \<Rightarrow> 'r" where
  "shannon_submit_bio_ns make_request_ns disks bd_disk bio = (let q = gd_queue (disks bd_disk) in make_request_ns q bio)"

text \<open>On 5.15 to 5.19 both return a cookie.\<close>

definition BLK_QC_T_NONE :: "32 word" where "BLK_QC_T_NONE = - 1"

definition shannon_submit_bio_5_15 :: "(nat \<Rightarrow> 'b \<Rightarrow> 's \<Rightarrow> int \<times> 's) \<Rightarrow> (nat \<Rightarrow> gendisk) \<Rightarrow> nat \<Rightarrow> 'b \<Rightarrow> 's \<Rightarrow> 32 word \<times> 's" where
  "shannon_submit_bio_5_15 make_request disks bd_disk bio s =
    (let q = gd_queue (disks bd_disk); s = snd (make_request q bio s) in (BLK_QC_T_NONE, s))"

definition shannon_submit_bio_ns_5_15 :: "(nat \<Rightarrow> 'b \<Rightarrow> 's \<Rightarrow> int \<times> 's) \<Rightarrow> (nat \<Rightarrow> gendisk) \<Rightarrow> nat \<Rightarrow> 'b \<Rightarrow> 's \<Rightarrow> 32 word \<times> 's" where
  "shannon_submit_bio_ns_5_15 make_request_ns disks bd_disk bio s =
    (let q = gd_queue (disks bd_disk); s = snd (make_request_ns q bio s) in (BLK_QC_T_NONE, s))"

lemma submit_bio_variants:
  "snd (shannon_submit_bio_5_15 f disks d bio s) = shannon_submit_bio (\<lambda>q bio. snd (f q bio s)) disks d bio"
  "snd (shannon_submit_bio_ns_5_15 f disks d bio s) = shannon_submit_bio_ns (\<lambda>q bio. snd (f q bio s)) disks d bio"
  by (simp_all add: shannon_submit_bio_5_15_def shannon_submit_bio_ns_5_15_def shannon_submit_bio_def shannon_submit_bio_ns_def Let_def)

text \<open>On older kernels the request function is given to the queue itself, through a wrapper whose result depends on the kernel: a cookie
  from 4.4 on, nothing from 3.2 on, the result of the function before.\<close>

definition shannon_make_request_wrapper_4_4 :: "('q \<Rightarrow> 'b \<Rightarrow> 's \<Rightarrow> int \<times> 's) \<Rightarrow> 'q \<Rightarrow> 'b \<Rightarrow> 's \<Rightarrow> 32 word \<times> 's" where
  "shannon_make_request_wrapper_4_4 make_request q bio s = (BLK_QC_T_NONE, snd (make_request q bio s))"

definition shannon_make_request_wrapper_3_2 :: "('q \<Rightarrow> 'b \<Rightarrow> 's \<Rightarrow> int \<times> 's) \<Rightarrow> 'q \<Rightarrow> 'b \<Rightarrow> 's \<Rightarrow> 's" where
  "shannon_make_request_wrapper_3_2 make_request q bio s = snd (make_request q bio s)"

definition shannon_make_request_wrapper_2_6 :: "('q \<Rightarrow> 'b \<Rightarrow> 's \<Rightarrow> int \<times> 's) \<Rightarrow> 'q \<Rightarrow> 'b \<Rightarrow> 's \<Rightarrow> int \<times> 's" where
  "shannon_make_request_wrapper_2_6 make_request q bio s = make_request q bio s"

text \<open>The kernel calls \<open>submit_bio\<close> of the table if there is one. The result here: which of the two request functions gets the bio, and
  the object it finds in the queue. \<open>None\<close>: the bio goes to the multi-queue layer, which calls \<open>shannon_disk_request\<close>.\<close>

definition submit_bio_served :: "nat \<Rightarrow> blk_heap \<Rightarrow> nat \<Rightarrow> (served \<times> nat option) option" where
  "submit_bio_served v h disk =
    (case map_option op_submit_bio (disk_operations v h disk) of
       Some (Some ForDev) \<Rightarrow> Some (shannon_submit_bio (\<lambda>q bio. (ForDev, make_request_owner q h)) (gds h) disk ())
     | Some (Some ForNs) \<Rightarrow> Some (shannon_submit_bio_ns (\<lambda>q bio. (ForNs, make_request_owner q h)) (gds h) disk ())
     | _ \<Rightarrow> None)"

section \<open>Control devices\<close>

definition shannon_ctrl_miscdevice_release :: int where "shannon_ctrl_miscdevice_release = 0"

definition shannon_destroy_miscdevice :: "('m \<Rightarrow> 'k \<Rightarrow> 'k) \<Rightarrow> 'm \<Rightarrow> 'k \<Rightarrow> int \<times> 'k" where
  "shannon_destroy_miscdevice misc_deregister misc k = (0, misc_deregister misc k)"

record 'f file_operations_misc =
  fo_open :: 'f
  fo_release :: 'f
  fo_unlocked_ioctl :: 'f

datatype misc_fn = CtrlOpen | CtrlRelease | CtrlIoctl | PoolOpen | PoolRelease | PoolIoctl

definition misc_operations :: "misc_fops \<Rightarrow> misc_fn file_operations_misc" where
  "misc_operations f =
    (case f of CtrlFops \<Rightarrow> \<lparr>fo_open = CtrlOpen, fo_release = CtrlRelease, fo_unlocked_ioctl = CtrlIoctl\<rparr>
     | PoolFops \<Rightarrow> \<lparr>fo_open = PoolOpen, fo_release = PoolRelease, fo_unlocked_ioctl = PoolIoctl\<rparr>)"

section \<open>The way of a bio\<close>

lemma init_gendisk_keeps:
  "qs (shannon_init_gendisk ios d name maj sp fst_minor pri h) = qs h"
  "gd_queue (gds (shannon_init_gendisk ios d name maj sp fst_minor pri h) d') = gd_queue (gds h d')"
  "mqs (shannon_init_gendisk ios d name maj sp fst_minor pri h) = mqs h"
  by (simp_all add: shannon_init_gendisk_def Let_def)

lemma create_alloc_keeps_ops:
  assumes "shannon_create_blkqueue env ios data ns h = Some (r, h1, ev)" "shannon_alloc_disk env' ios' q h1 = Some (r', h2)"
  shows "shannon_ops_submit_bio h2 = shannon_ops_submit_bio h"
  using assms
  by (auto simp: shannon_create_blkqueue_def shannon_init_queue_def shannon_alloc_queue_def shannon_alloc_disk_def Let_def
      split: option.splits sum.splits prod.splits if_splits qdata.splits)

lemma created_disk_owner:
  assumes create: "shannon_create_blkqueue env False data ns h = Some (Some q, h1, ev)"
    and disk: "shannon_alloc_disk env' False q h1 = Some (Some d, h2)"
  shows "gd_queue (gds h2 d) = q \<and> make_request_owner q h2 = Some data"
proof -
  obtain d0 where h1: "queuedata (qs h1 q) = QDisk d0" "gd_queue (gds h1 d0) = q" "private_data (gds h1 d0) = Some data"
    using create by (auto simp: shannon_create_blkqueue_def shannon_alloc_queue_def Let_def split: sum.splits prod.splits)
  then have "d = d0" "h2 = h1\<lparr>qs := (qs h1)(q := (qs h1 q)\<lparr>queuedata := QDriver data\<rparr>)\<rparr>"
    using disk by (auto simp: shannon_alloc_disk_def Let_def)
  then show ?thesis using h1 by (simp add: make_request_owner_def)
qed

text \<open>C23 (functional). A bio submitted to a disk reaches the driver object the disk was created for: after queue, disk and operations were set up
  without the I/O scheduler, the table of the disk leads the bio to \<open>shannon_make_request\<close> if the name of the disk begins with d and to
  \<open>shannon_make_request_ns\<close> otherwise, which find exactly that object in the queue.\<close>

theorem bio_reaches_owner:
  assumes "KERNEL_VERSION 5 15 0 \<le> v" and "shannon_ops_submit_bio h"
    and "shannon_create_blkqueue env False data ns h = Some (Some q, h1, ev)"
    and "shannon_alloc_disk env' False q h1 = Some (Some d, h2)"
  shows "submit_bio_served v (shannon_init_gendisk False d name maj span first_m pri h2) d =
    Some (if name \<noteq> [] \<and> hd name = CHR ''d'' then ForDev else ForNs, Some data)"
proof -
  let ?h = "shannon_init_gendisk False d name maj span first_m pri h2"
  have owner: "gd_queue (gds ?h d) = q" "make_request_owner q ?h = Some data"
    using created_disk_owner [OF assms(3,4)] by (simp_all add: init_gendisk_keeps make_request_owner_def)
  have "shannon_ops_submit_bio ?h" using create_alloc_keeps_ops [OF assms(3,4)] assms(2) by (simp add: shannon_init_gendisk_def Let_def)
  moreover have "fops (gds ?h d) = (if name = [] \<or> hd name \<noteq> CHR ''d'' then ShannonOpsNs else ShannonOps)"
    by (simp add: shannon_init_gendisk_def Let_def)
  moreover have "op_submit_bio (shannon_ops v) = Some ForDev" "op_submit_bio (shannon_ops_ns v) = Some ForNs"
    using assms(1) by (auto simp: shannon_ops_def shannon_ops_6_0_def shannon_ops_2_6_28_def shannon_ops_ns_def KERNEL_VERSION_def)
  ultimately show ?thesis
    using owner by (simp add: submit_bio_served_def disk_operations_def shannon_submit_bio_def shannon_submit_bio_ns_def Let_def)
qed

theorem bio_reaches_owner_witness:
  "\<exists>h1 h2 ev. shannon_create_blkqueue sample_blk_env False 99 True sample_blk_heap = Some (Some 5, h1, ev) \<and>
    shannon_alloc_disk sample_blk_env False 5 h1 = Some (Some 4, h2) \<and>
    submit_bio_served (KERNEL_VERSION 6 9 0) (shannon_init_gendisk False 4 ''p0vol1'' 252 64 0 (Some 99) h2) 4 = Some (ForNs, Some 99)"
proof -
  obtain h1 ev where c: "shannon_create_blkqueue sample_blk_env False 99 True sample_blk_heap = Some (Some 5, h1, ev)"
    "queuedata (qs h1 5) = QDisk 4"
    by (simp add: shannon_create_blkqueue_def shannon_alloc_queue_def sample_blk_env_def Let_def)
  obtain h2 where d: "shannon_alloc_disk sample_blk_env False 5 h1 = Some (Some 4, h2)"
    using c(2) by (simp add: shannon_alloc_disk_def Let_def)
  have "KERNEL_VERSION 5 15 0 \<le> KERNEL_VERSION 6 9 0" "shannon_ops_submit_bio sample_blk_heap"
    by (simp_all add: KERNEL_VERSION_def sample_blk_heap_def)
  from bio_reaches_owner [OF this c(1) d, of "''p0vol1''" 252 64 0 "Some 99"] c(1) d show ?thesis by simp
qed

text \<open>With the I/O scheduler a disk has no \<open>submit_bio\<close>, also a disk that was set up before; its bios go through the multi-queue
  layer.\<close>

lemma iosched_clears_submit_bio:
  assumes "fops (gds h d') = ShannonOps" "d' \<noteq> d" "name \<noteq> []" "hd name = CHR ''d''"
  shows "submit_bio_served v (shannon_init_gendisk True d name maj span first_m pri h) d = None \<and>
    submit_bio_served v (shannon_init_gendisk True d name maj span first_m pri h) d' = None"
  using assms by (simp add: submit_bio_served_def disk_operations_def shannon_init_gendisk_def Let_def)

end
