(* ===== verification/Module_Params.thy ===== *)
theory Module_Params
  imports Disk_Ops
begin

text \<open>
  The parameters of the module (\<^verbatim>\<open>shannon_module_init.c\<close>): the table of \<open>module_param\<close> declarations with their permissions, setting them when
  the module is loaded and writing them through sysfs while it runs, and what a write does to what was set up under the old value:
  queues (\<open>shannon_use_iosched\<close>), devices (\<open>shannon_scsi_mode\<close>) and the latency requirement (\<open>shannon_pm_qos_disable\<close>).
\<close>

section \<open>Declarations\<close>

definition S_IRUGO :: u16 where "S_IRUGO = 0x124"
definition S_IWUSR :: u16 where "S_IWUSR = 0x80"

text \<open>Every parameter is an \<open>int\<close>; the permission is the mode of its file.\<close>

definition module_params :: "(string \<times> u16) list" where
  "module_params =
    [(''shannon_scsi_mode'', S_IRUGO OR S_IWUSR), (''shannon_buffer_write_policy'', S_IRUGO OR S_IWUSR),
     (''shannon_sbio_threshold'', S_IRUGO OR S_IWUSR), (''shannon_fio_cpumask_set_enable'', S_IRUGO OR S_IWUSR),
     (''shannon_sector_size'', S_IRUGO OR S_IWUSR), (''shannon_debug_level'', S_IRUGO OR S_IWUSR),
     (''shannon_force_rw'', S_IRUGO OR S_IWUSR), (''shannon_major'', 0), (''shannon_auto_attach'', 0),
     (''shannon_pm_qos_value'', S_IRUGO OR S_IWUSR), (''shannon_pm_qos_disable'', S_IRUGO OR S_IWUSR),
     (''shannon_use_iosched'', S_IRUGO OR S_IWUSR), (''shannon_buffer_write'', S_IRUGO OR S_IWUSR),
     (''shannon_disable_intervel_refresh_mbr'', S_IRUGO OR S_IWUSR), (''shannon_never_hang'', S_IRUGO OR S_IWUSR),
     (''shannon_high_performance'', S_IRUGO OR S_IWUSR), (''shannon_use_percpu_wq'', S_IRUGO OR S_IWUSR),
     (''shannon_init_temp'', S_IRUGO OR S_IWUSR), (''shannon_do_pci_reset'', S_IRUGO OR S_IWUSR),
     (''shannon_do_snapread'', S_IRUGO OR S_IWUSR), (''shannon_memblock_prealloc'', S_IRUGO OR S_IWUSR),
     (''shannon_force_reclaim_activeblock'', S_IRUGO OR S_IWUSR), (''shannon_load_readonly'', S_IRUGO OR S_IWUSR),
     (''shannon_fast_boot_enable'', S_IRUGO OR S_IWUSR), (''shannon_skip_first_read'', S_IRUGO OR S_IWUSR),
     (''shannon_prefetch_enable'', S_IRUGO OR S_IWUSR), (''shannon_high_prio_gc_thread'', S_IRUGO OR S_IWUSR),
     (''shannon_background_trim'', S_IRUGO OR S_IWUSR), (''shannon_prealloc'', S_IRUGO OR S_IWUSR),
     (''shannon_skip_epilog'', S_IRUGO OR S_IWUSR), (''shannon_use_rt_comp_thread'', 0), (''shannon_vendor_cmd'', S_IRUGO OR S_IWUSR),
     (''shannon_overlap_write'', S_IRUGO OR S_IWUSR), (''shannon_dynamic_irq_delay'', S_IRUGO OR S_IWUSR),
     (''shannon_max_wl_factor'', S_IRUGO OR S_IWUSR), (''shannon_ns_maptable_autofree'', S_IRUGO OR S_IWUSR),
     (''shannon_lun_retiring_enable'', S_IRUGO OR S_IWUSR)]"

section \<open>Setting and writing\<close>

type_synonym params = "string \<rightharpoonup> int"

text \<open>An option on the command line is accepted for every declared parameter. The file exists if the permission is not 0, and the owner can
  write it if the permission says so; the kernel stores the value without asking the module.\<close>

definition param_load :: "string \<Rightarrow> int \<Rightarrow> params \<Rightarrow> params option" where
  "param_load name value ps = (if map_of module_params name \<noteq> None then Some (ps(name \<mapsto> value)) else None)"

definition param_store :: "string \<Rightarrow> int \<Rightarrow> params \<Rightarrow> params option" where
  "param_store name value ps =
    (case map_of module_params name of
       None \<Rightarrow> None
     | Some perm \<Rightarrow> if perm AND S_IWUSR \<noteq> 0 then Some (ps(name \<mapsto> value)) else None)"

text \<open>A flag as the code tests it.\<close>

definition flag :: "params \<Rightarrow> string \<Rightarrow> bool" where
  "flag ps name \<longleftrightarrow> ps name \<noteq> None \<and> ps name \<noteq> Some 0"

fun stores :: "(string \<times> int) list \<Rightarrow> params \<Rightarrow> params" where
  "stores [] ps = ps"
| "stores ((name, v) # ws) ps = stores ws (case param_store name v ps of None \<Rightarrow> ps | Some ps' \<Rightarrow> ps')"

section \<open>What can change while the module runs\<close>

definition fixed_params :: "string list" where
  "fixed_params = [''shannon_major'', ''shannon_auto_attach'', ''shannon_use_rt_comp_thread'']"

text \<open>Both facts go once through the table.\<close>

lemma fixed_perm: "name \<in> set fixed_params \<Longrightarrow> map_of module_params name = Some 0"
proof -
  have "list_all (\<lambda>n. map_of module_params n = Some 0) fixed_params" by (simp add: fixed_params_def module_params_def)
  then show "name \<in> set fixed_params \<Longrightarrow> map_of module_params name = Some 0" by (simp add: list_all_iff)
qed

lemma other_perm: "map_of module_params name = Some perm \<Longrightarrow> name \<notin> set fixed_params \<Longrightarrow> perm = S_IRUGO OR S_IWUSR"
proof -
  have "list_all (\<lambda>(n, p). p = S_IRUGO OR S_IWUSR \<or> n \<in> set fixed_params) module_params"
    unfolding module_params_def list.pred_inject prod.case by (intro conjI TrueI) (simp_all add: fixed_params_def)
  then show "map_of module_params name = Some perm \<Longrightarrow> name \<notin> set fixed_params \<Longrightarrow> perm = S_IRUGO OR S_IWUSR"
    by (auto simp: list_all_iff dest!: map_of_SomeD)
qed

lemma param_store_eq:
  "param_store name v ps = (if name \<in> fst ` set module_params - set fixed_params then Some (ps(name \<mapsto> v)) else None)"
proof (cases "map_of module_params name")
  case None
  then have "name \<notin> fst ` set module_params" by (simp add: map_of_eq_None_iff)
  with None show ?thesis by (simp add: param_store_def)
next
  case (Some perm)
  then have "name \<in> fst ` set module_params" by (metis map_of_eq_None_iff option.distinct(1))
  moreover have "perm AND S_IWUSR \<noteq> 0 \<longleftrightarrow> name \<notin> set fixed_params"
    using Some fixed_perm [of name] other_perm [OF Some] by (cases "name \<in> set fixed_params") (auto simp: S_IRUGO_def S_IWUSR_def)
  ultimately show ?thesis using Some by (simp add: param_store_def)
qed

lemma stores_eq:
  "stores ws ps = ps ++ map_of (rev (filter (\<lambda>(n, v). n \<in> fst ` set module_params - set fixed_params) ws))"
  by (induction ws ps rule: stores.induct) (auto simp: param_store_eq map_add_def split: option.splits)

lemma writable_flags:
  "''shannon_use_iosched'' \<in> fst ` set module_params - set fixed_params"
  "''shannon_pm_qos_disable'' \<in> fst ` set module_params - set fixed_params"
  "''shannon_scsi_mode'' \<in> fst ` set module_params - set fixed_params"
  by (simp_all add: module_params_def fixed_params_def)

section \<open>Changing the scheduler parameter\<close>

text \<open>\<open>shannon_use_iosched\<close> can be written at any time, but a queue keeps what it was created with. A queue that was created without the
  scheduler holds the driver object; cleaning it up after the parameter was set takes that object for multi-queue data.\<close>

theorem iosched_set_breaks_cleanup:
  assumes "\<not> flag ps ''shannon_use_iosched''"
    and "shannon_create_blkqueue env (flag ps ''shannon_use_iosched'') data False h = Some (Some q, h1, ev)"
    and "shannon_alloc_disk env' (flag ps ''shannon_use_iosched'') q h1 = Some (Some d, h2)"
  shows "\<exists>ps'. param_store ''shannon_use_iosched'' 1 ps = Some ps' \<and>
    shannon_blk_cleanup_queue (flag ps' ''shannon_use_iosched'') q False h2 = None"
proof -
  have "make_request_owner q h2 = Some data" using created_disk_owner assms by (metis (full_types))
  then have "shannon_blk_cleanup_queue True q False h2 = None"
    by (auto simp: make_request_owner_def shannon_blk_cleanup_queue_def split: qdata.splits)
  then show ?thesis using writable_flags by (simp add: param_store_eq flag_def)
qed

text \<open>A queue that was created with the scheduler keeps its tag set and its data when it is cleaned up after the parameter was cleared.\<close>

theorem iosched_clear_leaks:
  assumes "flag ps ''shannon_use_iosched''"
    and "shannon_create_blkqueue env (flag ps ''shannon_use_iosched'') data False h = Some (Some q, h1, ev)"
  shows "\<exists>ps' m. param_store ''shannon_use_iosched'' 0 ps = Some ps' \<and> KzallocMq m \<in> set ev \<and> AllocTagSet m \<in> set ev \<and>
    shannon_blk_cleanup_queue (flag ps' ''shannon_use_iosched'') q False h1 = Some (h1, [])"
proof -
  have "shannon_init_queue env data h = (Some q, h1, ev)" using assms by (simp add: shannon_create_blkqueue_def)
  then obtain m where "ev = [KzallocMq m, AllocTagSet m]"
    by (auto simp: shannon_init_queue_def shannon_blk_mq_init_tag_set_def Let_def split: option.splits sum.splits if_splits)
  then show ?thesis using writable_flags by (simp add: param_store_eq flag_def shannon_blk_cleanup_queue_def)
qed

section \<open>Changing other parameters\<close>

text \<open>A device that was probed in SCSI mode is removed with the other function when the parameter was cleared in between, and the
  other way round: host and device are not taken apart by the function that set them up.\<close>

theorem scsi_mode_mixes_probe_and_remove:
  "\<exists>ps'. param_store ''shannon_scsi_mode'' (if flag ps ''shannon_scsi_mode'' then 0 else 1) ps = Some ps' \<and>
    (if flag ps ''shannon_scsi_mode''
     then shannon_probe_wrapper (flag ps ''shannon_scsi_mode'') scsi_probe probe pdev = scsi_probe pdev \<and>
       shannon_remove_wrapper (flag ps' ''shannon_scsi_mode'') scsi_remove remove pdev = remove pdev
     else shannon_probe_wrapper (flag ps ''shannon_scsi_mode'') scsi_probe probe pdev = probe pdev \<and>
       shannon_remove_wrapper (flag ps' ''shannon_scsi_mode'') scsi_remove remove pdev = scsi_remove pdev)"
  using writable_flags(3) by (simp add: param_store_eq flag_def shannon_probe_wrapper_def shannon_remove_wrapper_def)

text \<open>A latency requirement that was registered stays registered, with its memory, when \<open>shannon_pm_qos_disable\<close> was set before its removal.\<close>

theorem pm_qos_disable_keeps_request:
  assumes "\<not> flag ps ''shannon_pm_qos_disable''"
  shows "\<exists>ps'. param_store ''shannon_pm_qos_disable'' 1 ps = Some ps' \<and>
    shannon_pm_qos_remove_requirement (flag ps' ''shannon_pm_qos_disable'') SHANNON_PM_QOS_CPU_DMA_LATENCY
      (shannon_pm_qos_add_requirement (flag ps ''shannon_pm_qos_disable'') True SHANNON_PM_QOS_CPU_DMA_LATENCY v l) = PmRegistered v"
  using assms writable_flags(2)
  by (auto simp: param_store_eq flag_def shannon_pm_qos_remove_requirement_def shannon_pm_qos_add_requirement_def)

section \<open>Properties\<close>

text \<open>However often parameters are written while the module runs, in whatever order, the block major, the automatic attaching and
  the choice of the completion thread keep the values they were loaded with, every other declared parameter has the last value
  written to it, and a name that is not declared has no effect.\<close>

theorem params_at_runtime:
  "stores ws ps name =
    (if name \<in> set fixed_params \<or> name \<notin> fst ` set module_params then ps name
     else case map_of (rev ws) name of None \<Rightarrow> ps name | Some v \<Rightarrow> Some v)"
proof -
  have "map_of (filter (\<lambda>(n, v). P n) ws) name = (if P name then map_of ws name else None)" for P :: "string \<Rightarrow> bool" and ws :: "(string \<times> int) list"
    by (induction ws) auto
  then show ?thesis by (simp add: stores_eq map_add_def rev_filter split: option.split)
qed

end
