(* ===== verification/Legacy_Stats.thy ===== *)
theory Legacy_Stats
  imports Device_Stats
begin

text \<open>
  The disk statistics on the other kernels (\<^verbatim>\<open>shannon_device.c\<close>): the readers of 5.7 and of 5.8 to 5.14, which add up one counter over the
  CPUs where the ones from 5.15 on add up all of them, and the number of I/Os in flight before 5.0, which is an atomic counter in each
  partition.
\<close>

section \<open>Kernel 5.7\<close>

definition shannon_disk_in_flight_5_7 :: "nat list \<Rightarrow> gendisk \<Rightarrow> int" where
  "shannon_disk_in_flight_5_7 cpus gd =
    (let sum = fold (\<lambda>cpu sum :: u64.
           sum + in_flight (bd_stats (gd 0) cpu) 0 + in_flight (bd_stats (gd 0) cpu) 1) cpus 0
     in if sum \<noteq> 0 then 1 else 0)"

definition shannon_read_sectors_5_7 :: "nat list \<Rightarrow> gendisk option \<Rightarrow> u64" where
  "shannon_read_sectors_5_7 cpus gd = (case gd of None \<Rightarrow> 0 | Some d \<Rightarrow> part_stat_read cpus (\<lambda>s. sectors s READ) (d 0))"

definition shannon_write_sectors_5_7 :: "nat list \<Rightarrow> gendisk option \<Rightarrow> u64" where
  "shannon_write_sectors_5_7 cpus gd = (case gd of None \<Rightarrow> 0 | Some d \<Rightarrow> part_stat_read cpus (\<lambda>s. sectors s WRITE) (d 0))"

definition shannon_read_ios_5_7 :: "nat list \<Rightarrow> gendisk option \<Rightarrow> u64" where
  "shannon_read_ios_5_7 cpus gd = (case gd of None \<Rightarrow> 0 | Some d \<Rightarrow> part_stat_read cpus (\<lambda>s. ios s READ) (d 0))"

definition shannon_write_ios_5_7 :: "nat list \<Rightarrow> gendisk option \<Rightarrow> u64" where
  "shannon_write_ios_5_7 cpus gd = (case gd of None \<Rightarrow> 0 | Some d \<Rightarrow> part_stat_read cpus (\<lambda>s. ios s WRITE) (d 0))"

definition shannon_read_msecs_5_7 :: "nat list \<Rightarrow> gendisk option \<Rightarrow> u64" where
  "shannon_read_msecs_5_7 cpus gd = (case gd of None \<Rightarrow> 0 | Some d \<Rightarrow> part_stat_read cpus (\<lambda>s. nsecs s READ) (d 0) div 1000000)"

definition shannon_write_msecs_5_7 :: "nat list \<Rightarrow> gendisk option \<Rightarrow> u64" where
  "shannon_write_msecs_5_7 cpus gd = (case gd of None \<Rightarrow> 0 | Some d \<Rightarrow> part_stat_read cpus (\<lambda>s. nsecs s WRITE) (d 0) div 1000000)"

text \<open>The kernel does the accounting; the driver returns its own reading of the clock, taken before the call, as the time of the
  start. \<open>start\<close> and \<open>finish\<close> stand for \<open>generic_start_io_acct\<close> and \<open>generic_end_io_acct\<close> with the operation, the sectors and the
  disk.\<close>

definition shannon_start_io_acct_5_7 :: "(nat \<Rightarrow> u64 \<Rightarrow> gendisk \<Rightarrow> gendisk) \<Rightarrow> u64 \<Rightarrow> acct_bio \<Rightarrow> gendisk \<Rightarrow> u64 \<times> gendisk" where
  "shannon_start_io_acct_5_7 start jiffies bio gd = (let now = jiffies in (now, start (ab_rw bio) (ab_sectors bio) gd))"

definition shannon_end_io_acct_5_7 :: "(nat \<Rightarrow> u64 \<Rightarrow> gendisk \<Rightarrow> gendisk) \<Rightarrow> acct_bio \<Rightarrow> u64 \<Rightarrow> gendisk \<Rightarrow> gendisk" where
  "shannon_end_io_acct_5_7 finish bio start_time gd = finish (ab_rw bio) start_time gd"

section \<open>Before 5.0\<close>

text \<open>The counters in flight: by partition and direction from 2.6.29 on, by partition in 2.6.28, one of the disk before.\<close>

definition bump :: "nat \<Rightarrow> nat \<Rightarrow> u32 \<Rightarrow> (nat \<Rightarrow> nat \<Rightarrow> u32) \<Rightarrow> nat \<Rightarrow> nat \<Rightarrow> u32" where
  "bump part rw d f = f(part := (f part)(rw := f part rw + d))"

definition shannon_part_inc_in_flight_2_6_29 :: "nat \<Rightarrow> nat \<Rightarrow> (nat \<Rightarrow> nat \<Rightarrow> u32) \<Rightarrow> nat \<Rightarrow> nat \<Rightarrow> u32" where
  "shannon_part_inc_in_flight_2_6_29 part rw f =
    (let f = bump part rw 1 f in if part \<noteq> 0 then bump 0 rw 1 f else f)"

definition shannon_part_dec_in_flight_2_6_29 :: "nat \<Rightarrow> nat \<Rightarrow> (nat \<Rightarrow> nat \<Rightarrow> u32) \<Rightarrow> nat \<Rightarrow> nat \<Rightarrow> u32" where
  "shannon_part_dec_in_flight_2_6_29 part rw f =
    (let f = bump part rw (- 1) f in if part \<noteq> 0 then bump 0 rw (- 1) f else f)"

definition shannon_disk_in_flight_2_6_29 :: "(nat \<Rightarrow> nat \<Rightarrow> u32) \<Rightarrow> int" where
  "shannon_disk_in_flight_2_6_29 f = sint (f 0 0 + f 0 1)"

definition shannon_part_inc_in_flight_2_6_28 :: "nat \<Rightarrow> nat \<Rightarrow> (nat \<Rightarrow> u32) \<Rightarrow> nat \<Rightarrow> u32" where
  "shannon_part_inc_in_flight_2_6_28 part rw f =
    (let f = f(part := f part + 1) in if part \<noteq> 0 then f(0 := f 0 + 1) else f)"

definition shannon_part_dec_in_flight_2_6_28 :: "nat \<Rightarrow> nat \<Rightarrow> (nat \<Rightarrow> u32) \<Rightarrow> nat \<Rightarrow> u32" where
  "shannon_part_dec_in_flight_2_6_28 part rw f =
    (let f = f(part := f part - 1) in if part \<noteq> 0 then f(0 := f 0 - 1) else f)"

definition shannon_disk_in_flight_2_6_28 :: "(nat \<Rightarrow> u32) \<Rightarrow> int" where
  "shannon_disk_in_flight_2_6_28 f = sint (f 0)"

definition shannon_disk_in_flight_2_6_27 :: "u32 \<Rightarrow> int" where
  "shannon_disk_in_flight_2_6_27 in_flight_of_disk = sint in_flight_of_disk"

section \<open>The readers agree\<close>

lemma add_groups_at:
  assumes "r < NR_STAT_GROUPS"
  shows "nsecs (add_groups p s) r = nsecs s r + nsecs p r" "sectors (add_groups p s) r = sectors s r + sectors p r"
    "ios (add_groups p s) r = ios s r + ios p r"
proof -
  have "r = 0 \<or> r = 1 \<or> r = 2 \<or> r = 3" using assms by (auto simp: NR_STAT_GROUPS_def)
  then show "nsecs (add_groups p s) r = nsecs s r + nsecs p r" "sectors (add_groups p s) r = sectors s r + sectors p r"
    "ios (add_groups p s) r = ios s r + ios p r"
    by (auto simp: add_groups_def NR_STAT_GROUPS_def upt_rec)
qed

lemma read_all_counter:
  assumes "\<And>p s. fld (add_groups p s) = fld s + fld p" "\<And>s t. fld (s\<lparr>io_ticks := t\<rparr>) = fld s" "fld zero_stats = 0"
  shows "fld (part_stat_read_all cpus part) = part_stat_read cpus fld part"
proof -
  have "fld (fold (\<lambda>cpu stat. let ptr = bd_stats part cpu; stat = add_groups ptr stat in stat\<lparr>io_ticks := io_ticks stat + io_ticks ptr\<rparr>) cpus s) =
      fold (\<lambda>cpu res. res + fld (bd_stats part cpu)) cpus (fld s)" for s
    by (induction cpus arbitrary: s) (simp_all add: Let_def assms)
  then show ?thesis by (simp add: part_stat_read_all_def part_stat_read_def assms(3))
qed

text \<open>C38 (equivalence). The statistics of a disk are the same numbers on all kernels from 5.0 on: the readers that add up a whole copy of all counters over the CPUs (from 5.15 on)
  return what those that add up one counter return (5.0 to 5.14), for sectors, I/Os and times in both directions, and all
  return 0 for a disk that is not there. On 5.7 the number of I/Os in flight is a flag, as on 5.8 to 5.14.\<close>

theorem stat_readers_agree:
  "shannon_read_sectors cpus gd = shannon_read_sectors_5_7 cpus gd \<and> shannon_read_sectors_5_7 cpus gd = shannon_read_sectors_5_0 cpus gd \<and>
   shannon_write_sectors cpus gd = shannon_write_sectors_5_7 cpus gd \<and> shannon_write_sectors_5_7 cpus gd = shannon_write_sectors_5_0 cpus gd \<and>
   shannon_read_ios cpus gd = shannon_read_ios_5_7 cpus gd \<and> shannon_read_ios_5_7 cpus gd = shannon_read_ios_5_0 cpus gd \<and>
   shannon_write_ios cpus gd = shannon_write_ios_5_7 cpus gd \<and> shannon_write_ios_5_7 cpus gd = shannon_write_ios_5_0 cpus gd \<and>
   shannon_read_msecs cpus gd = shannon_read_msecs_5_7 cpus gd \<and> shannon_read_msecs_5_7 cpus gd = shannon_read_msecs_5_0 cpus gd \<and>
   shannon_write_msecs cpus gd = shannon_write_msecs_5_7 cpus gd \<and> shannon_write_msecs_5_7 cpus gd = shannon_write_msecs_5_0 cpus gd \<and>
   shannon_disk_in_flight_5_7 cpus d = shannon_disk_in_flight_5_8 cpus d"
proof -
  have r: "READ < NR_STAT_GROUPS" "WRITE < NR_STAT_GROUPS" by (simp_all add: READ_def WRITE_def NR_STAT_GROUPS_def)
  have "sectors (part_stat_read_all cpus p) g = part_stat_read cpus (\<lambda>s. sectors s g) p"
    "ios (part_stat_read_all cpus p) g = part_stat_read cpus (\<lambda>s. ios s g) p"
    "nsecs (part_stat_read_all cpus p) g = part_stat_read cpus (\<lambda>s. nsecs s g) p" if "g < NR_STAT_GROUPS" for p g
    using that by (intro read_all_counter; simp add: add_groups_at zero_stats_def)+
  note sums = this [OF r(1)] this [OF r(2)]
  show ?thesis
    by (auto simp: shannon_read_sectors_def shannon_read_sectors_5_7_def shannon_read_sectors_5_0_def
        shannon_write_sectors_def shannon_write_sectors_5_7_def shannon_write_sectors_5_0_def
        shannon_read_ios_def shannon_read_ios_5_7_def shannon_read_ios_5_0_def
        shannon_write_ios_def shannon_write_ios_5_7_def shannon_write_ios_5_0_def
        shannon_read_msecs_def shannon_read_msecs_5_7_def shannon_read_msecs_5_0_def
        shannon_write_msecs_def shannon_write_msecs_5_7_def shannon_write_msecs_5_0_def
        shannon_disk_in_flight_5_7_def shannon_disk_in_flight_5_8_def sums split: option.split)
qed

section \<open>In flight before 5.0\<close>

text \<open>I/Os as partition and direction; they end in any order after they started.\<close>

inductive flight_run :: "(nat \<Rightarrow> nat \<Rightarrow> u32) \<Rightarrow> (nat \<Rightarrow> u32) \<Rightarrow> (nat \<times> nat) multiset \<Rightarrow> bool" where
  fl_none: "flight_run (\<lambda>_ _. 0) (\<lambda>_. 0) {#}"
| fl_start: "flight_run f g M \<Longrightarrow> rw < 2 \<Longrightarrow>
    flight_run (shannon_part_inc_in_flight_2_6_29 part rw f) (shannon_part_inc_in_flight_2_6_28 part rw g) (add_mset (part, rw) M)"
| fl_end: "flight_run f g M \<Longrightarrow> (part, rw) \<in># M \<Longrightarrow>
    flight_run (shannon_part_dec_in_flight_2_6_29 part rw f) (shannon_part_dec_in_flight_2_6_28 part rw g) (M - {#(part, rw)#})"

lemma flight_counts:
  assumes "flight_run f g M"
  shows "f p r = of_nat (size (filter_mset (\<lambda>x. (p = fst x \<or> p = 0) \<and> snd x = r) M)) \<and>
    g p = of_nat (size (filter_mset (\<lambda>x. p = fst x \<or> p = 0) M)) \<and> (\<forall>x \<in># M. snd x < 2)"
  using assms
proof (induction)
  case (fl_start f g M rw part)
  then show ?case
    by (auto simp: shannon_part_inc_in_flight_2_6_29_def shannon_part_inc_in_flight_2_6_28_def bump_def Let_def)
next
  case (fl_end f g M part rw)
  obtain N where "M = add_mset (part, rw) N" using fl_end(2) by (metis multi_member_split)
  then show ?case using fl_end(3)
    by (auto simp: shannon_part_dec_in_flight_2_6_29_def shannon_part_dec_in_flight_2_6_28_def bump_def Let_def)
qed simp

text \<open>Both atomic variants report the number of I/Os in flight.\<close>

lemma legacy_in_flight_exact:
  assumes "flight_run f g M" "size M < 2 ^ 31"
  shows "shannon_disk_in_flight_2_6_29 f = int (size M) \<and> shannon_disk_in_flight_2_6_28 g = int (size M)"
proof -
  have "f 0 0 + f 0 1 = of_nat (size (filter_mset (\<lambda>x. snd x = 0) M) + size (filter_mset (\<lambda>x. snd x = 1) M))"
    using flight_counts [OF assms(1), of 0] by simp
  also have "filter_mset (\<lambda>x. snd x = 1) M = filter_mset (\<lambda>x. snd x \<noteq> 0) M"
    using flight_counts [OF assms(1), of 0 0] by (intro filter_mset_cong) (fastforce simp: less_2_cases_iff)+
  also have "size (filter_mset (\<lambda>x. snd x = 0) M) + size (filter_mset (\<lambda>x. snd x \<noteq> 0) M) = size M"
    by (metis multiset_partition size_union)
  finally have "f 0 0 + f 0 1 = of_nat (size M)" .
  moreover have "g 0 = of_nat (size M)" using flight_counts [OF assms(1), of 0] by simp
  moreover have "sint (of_nat (size M) :: u32) = int (size M)" using assms(2)
    by (simp only: signed_of_nat) (simp add: signed_take_bit_int_eq_self)
  ultimately show ?thesis by (simp add: shannon_disk_in_flight_2_6_29_def shannon_disk_in_flight_2_6_28_def)
qed

end
