(* ===== verification/File_Ops.thy ===== *)
theory File_Ops
  imports Seq_File List_Head Sched
begin

text \<open>
  The debug files (\<^verbatim>\<open>shannon_file.c\<close>): the setters that fill the operation tables in the reserved memory of the core, the private data, and the
  list iterators of \<^verbatim>\<open>List_Head\<close> that such a file is read with. The formatting functions of
  \<^verbatim>\<open>shannon_kcore.c\<close> and the naming of device nodes in \<^verbatim>\<open>shannon_device.c\<close> are here too. Handlers are addresses.
\<close>

section \<open>Operation tables\<close>

record file_operations =
  fop_owner :: ptr
  fop_llseek :: ptr
  fop_read :: ptr
  fop_write :: ptr
  fop_open :: ptr
  fop_release :: ptr

record seq_operations =
  sop_start :: ptr
  sop_stop :: ptr
  sop_next :: ptr
  sop_show :: ptr

definition shannon_set_file_ops_owner :: "ptr \<Rightarrow> file_operations \<Rightarrow> file_operations" where
  "shannon_set_file_ops_owner owner fops = fops\<lparr>fop_owner := owner\<rparr>"
definition shannon_set_file_ops_llseek_handler :: "ptr \<Rightarrow> file_operations \<Rightarrow> file_operations" where
  "shannon_set_file_ops_llseek_handler llseek fops = fops\<lparr>fop_llseek := llseek\<rparr>"
definition shannon_set_file_ops_read_handler :: "ptr \<Rightarrow> file_operations \<Rightarrow> file_operations" where
  "shannon_set_file_ops_read_handler read fops = fops\<lparr>fop_read := read\<rparr>"
definition shannon_set_file_ops_write_handler :: "ptr \<Rightarrow> file_operations \<Rightarrow> file_operations" where
  "shannon_set_file_ops_write_handler write fops = fops\<lparr>fop_write := write\<rparr>"
definition shannon_set_file_ops_open_handler :: "ptr \<Rightarrow> file_operations \<Rightarrow> file_operations" where
  "shannon_set_file_ops_open_handler opn fops = fops\<lparr>fop_open := opn\<rparr>"
definition shannon_set_file_ops_release_handler :: "ptr \<Rightarrow> file_operations \<Rightarrow> file_operations" where
  "shannon_set_file_ops_release_handler release fops = fops\<lparr>fop_release := release\<rparr>"

definition shannon_set_seq_ops_start_handler :: "ptr \<Rightarrow> seq_operations \<Rightarrow> seq_operations" where
  "shannon_set_seq_ops_start_handler start sops = sops\<lparr>sop_start := start\<rparr>"
definition shannon_set_seq_ops_stop_handler :: "ptr \<Rightarrow> seq_operations \<Rightarrow> seq_operations" where
  "shannon_set_seq_ops_stop_handler stop sops = sops\<lparr>sop_stop := stop\<rparr>"
definition shannon_set_seq_ops_next_handler :: "ptr \<Rightarrow> seq_operations \<Rightarrow> seq_operations" where
  "shannon_set_seq_ops_next_handler nxt_fn sops = sops\<lparr>sop_next := nxt_fn\<rparr>"
definition shannon_set_seq_ops_show_handler :: "ptr \<Rightarrow> seq_operations \<Rightarrow> seq_operations" where
  "shannon_set_seq_ops_show_handler show_fn sops = sops\<lparr>sop_show := show_fn\<rparr>"

text \<open>Private data of open files, sequence files and inodes, by address.\<close>

record file_heap =
  fh_file :: "ptr \<Rightarrow> ptr"
  fh_seq :: "ptr \<Rightarrow> ptr"
  fh_inode :: "ptr \<Rightarrow> ptr"

definition shannon_file_private_data :: "ptr \<Rightarrow> file_heap \<Rightarrow> ptr" where
  "shannon_file_private_data fp h = fh_file h fp"
definition shannon_set_file_private_data :: "ptr \<Rightarrow> ptr \<Rightarrow> file_heap \<Rightarrow> file_heap" where
  "shannon_set_file_private_data file pv h = h\<lparr>fh_file := (fh_file h)(file := pv)\<rparr>"
definition shannon_seq_file_private :: "ptr \<Rightarrow> file_heap \<Rightarrow> ptr" where
  "shannon_seq_file_private fsp h = fh_seq h fsp"
definition shannon_set_seq_file_private :: "ptr \<Rightarrow> ptr \<Rightarrow> file_heap \<Rightarrow> file_heap" where
  "shannon_set_seq_file_private sp pv h = h\<lparr>fh_seq := (fh_seq h)(sp := pv)\<rparr>"
definition shannon_inode_i_private :: "ptr \<Rightarrow> file_heap \<Rightarrow> ptr" where
  "shannon_inode_i_private inode h = fh_inode h inode"

text \<open>The law the core relies on when it fills a table: a setter changes its own member. Setters of different members commute, so the
  order in which a table is filled does not matter.\<close>

locale member =
  fixes get :: "'r \<Rightarrow> ptr"
    and set_to :: "ptr \<Rightarrow> 'r \<Rightarrow> 'r"
  assumes get_set: "get (set_to v r) = v"
    and set_set: "set_to v (set_to w r) = set_to v r"
    and set_get: "set_to (get r) r = r"
begin

lemma last_wins: "vs \<noteq> [] \<Longrightarrow> fold set_to vs r = set_to (last vs) r"
  by (induction vs arbitrary: r) (auto simp: set_set)

lemma unchanged: "set_to v r = r \<longleftrightarrow> get r = v"
  using get_set set_get by metis

end

interpretation fo_owner: member fop_owner shannon_set_file_ops_owner
  by unfold_locales (simp_all add: shannon_set_file_ops_owner_def)
interpretation fo_llseek: member fop_llseek shannon_set_file_ops_llseek_handler
  by unfold_locales (simp_all add: shannon_set_file_ops_llseek_handler_def)
interpretation fo_read: member fop_read shannon_set_file_ops_read_handler
  by unfold_locales (simp_all add: shannon_set_file_ops_read_handler_def)
interpretation fo_write: member fop_write shannon_set_file_ops_write_handler
  by unfold_locales (simp_all add: shannon_set_file_ops_write_handler_def)
interpretation fo_open: member fop_open shannon_set_file_ops_open_handler
  by unfold_locales (simp_all add: shannon_set_file_ops_open_handler_def)
interpretation fo_release: member fop_release shannon_set_file_ops_release_handler
  by unfold_locales (simp_all add: shannon_set_file_ops_release_handler_def)
interpretation so_start: member sop_start shannon_set_seq_ops_start_handler
  by unfold_locales (simp_all add: shannon_set_seq_ops_start_handler_def)
interpretation so_stop: member sop_stop shannon_set_seq_ops_stop_handler
  by unfold_locales (simp_all add: shannon_set_seq_ops_stop_handler_def)
interpretation so_next: member sop_next shannon_set_seq_ops_next_handler
  by unfold_locales (simp_all add: shannon_set_seq_ops_next_handler_def)
interpretation so_show: member sop_show shannon_set_seq_ops_show_handler
  by unfold_locales (simp_all add: shannon_set_seq_ops_show_handler_def)
interpretation priv_file: member "shannon_file_private_data fp" "shannon_set_file_private_data fp" for fp
  by unfold_locales (simp_all add: shannon_file_private_data_def shannon_set_file_private_data_def)
interpretation priv_seq: member "shannon_seq_file_private sp" "shannon_set_seq_file_private sp" for sp
  by unfold_locales (simp_all add: shannon_seq_file_private_def shannon_set_seq_file_private_def)

section \<open>Formatting into a buffer\<close>

text \<open>The text is what format and arguments expand to; a store outside of the buffer is \<open>None\<close>. \<open>shannon_sprintf\<close> passes the largest
  \<open>int\<close> as the size.\<close>

definition INT_MAX :: nat where "INT_MAX = 2147483647"

definition shannon_snprintf :: "string \<Rightarrow> nat \<Rightarrow> string \<Rightarrow> (string \<times> int) option" where
  "shannon_snprintf buf sz msg = map_option (\<lambda>b. (b, int (length msg))) (store_at buf 0 (vsnprintf_out sz msg))"

definition shannon_sprintf :: "string \<Rightarrow> string \<Rightarrow> (string \<times> int) option" where
  "shannon_sprintf buf msg = map_option (\<lambda>b. (b, int (length msg))) (store_at buf 0 (vsnprintf_out INT_MAX msg))"

text \<open>\<open>kvasprintf\<close> of \<^verbatim>\<open>shannon_kcore.c\<close>, for kernels before 2.6.22: the length is asked for first. \<open>mem\<close> says whether that many bytes are
  available.\<close>

definition kvasprintf_kcore :: "(nat \<Rightarrow> bool) \<Rightarrow> string \<Rightarrow> string option" where
  "kvasprintf_kcore mem msg = (let len = length msg in if \<not> mem (len + 1) then None else Some (vsnprintf_out (len + 1) msg))"

lemma kvasprintf_complete: "kvasprintf_kcore mem msg = (if mem (length msg + 1) then Some (msg @ [CHR 0x00]) else None)"
  by (simp add: kvasprintf_kcore_def vsnprintf_out_def)

text \<open>A device node gets its name through a buffer on the stack, and the name becomes the format of \<open>device_create\<close>.\<close>

definition NAMEBUF_LEN :: nat where "NAMEBUF_LEN = 256"

definition shannon_device_create :: "(string \<Rightarrow> 'd) \<Rightarrow> string \<Rightarrow> 'd option" where
  "shannon_device_create device_create msg = map_option device_create (expand (c_string (vsnprintf_out NAMEBUF_LEN msg)))"

lemma snprintf_safe: "sz \<le> length buf \<Longrightarrow> \<exists>b. shannon_snprintf buf sz msg = Some (b, int (length msg)) \<and> length b = length buf"
  using store_at_inside [of 0 "vsnprintf_out sz msg" buf] vsnprintf_out_fits [of sz msg] by (auto simp: shannon_snprintf_def)

lemma sprintf_safe_iff:
  assumes "length msg < INT_MAX"
  shows "shannon_sprintf buf msg \<noteq> None \<longleftrightarrow> length msg < length buf"
  using assms by (auto simp: shannon_sprintf_def store_at_def vsnprintf_out_def)

lemma device_name_exact:
  assumes "CHR 0x00 \<notin> set msg" "CHR ''%'' \<notin> set msg"
  shows "shannon_device_create f msg = Some (f (take 255 msg))"
proof -
  have "CHR 0x00 \<notin> set (take 255 msg)" "CHR ''%'' \<notin> set (take 255 msg)" using assms by (auto dest: in_set_takeD)
  then show ?thesis by (simp add: shannon_device_create_def vsnprintf_out_def NAMEBUF_LEN_def c_string_terminated expand_plain)
qed

theorem device_create_expands_twice: "shannon_device_create (\<lambda>n. n) ''a%d'' = None"
  by (simp add: shannon_device_create_def vsnprintf_out_def NAMEBUF_LEN_def c_string_def)

section \<open>The iterators of a file that lists a list\<close>

text \<open>The handlers of such a file start at the entry of the position, or with NULL at the end of the list, and step to the next entry.\<close>

lemma seq_start_at:
  assumes "dll h head xs" "length xs < k"
  shows "shannon_seq_list_start k h head pos = Some (if 0 \<le> pos \<and> pos < int (length xs) then Some (xs ! nat pos) else None)"
  using seq_list_start_linked [of h xs head k pos] assms dll_split [of h head "[]" xs] by (simp add: shannon_seq_list_start_def)

lemma seq_next_at:
  assumes "dll h head xs" "i < length xs"
  shows "shannon_seq_list_next h (xs ! i) head pos = (if Suc i < length xs then Some (xs ! Suc i) else None, pos + 1)"
  using dll_step [OF assms] dll_step(2) [OF assms(1), of "Suc i"] by (auto simp: shannon_seq_list_next_def Let_def)

end
