(* ===== verification/Scsi_Legacy.thy ===== *)
theory Scsi_Legacy
  imports Scsi
begin

text \<open>
  Filling the buffer of a SCSI command on kernels before 2.6.24 (\<^verbatim>\<open>shannon_scsi.c\<close>): the scatter list is an array that the loop goes through with an
  index and a pointer, where later kernels follow a chained list. An access outside of the array is undefined (\<open>None\<close>).
\<close>

section \<open>The loop over an array\<close>

function fill_array ::
    "u8 list \<Rightarrow> nat \<Rightarrow> fill_entry list \<Rightarrow> nat \<Rightarrow> nat \<Rightarrow> bool \<Rightarrow> nat \<Rightarrow> nat \<Rightarrow> ((u8 list list) + (nat \<times> nat \<times> u8 list list)) option" where
  "fill_array arr arr_len tbl use_sg k active req_len act_len =
    (if use_sg \<le> k then Some (Inr (req_len, act_len, []))
     else if length tbl \<le> k then None
     else let sgpnt = tbl ! k in
       if active then
         if \<not> fe_mapped sgpnt then Some (Inl [])
         else let len = fe_length sgpnt;
                  over = (req_len + len > arr_len);
                  len = (if over then arr_len - req_len else len);
                  copied = take len (drop req_len arr)
              in map_option (\<lambda>r. case r of Inl ws \<Rightarrow> Inl (copied # ws) | Inr (r, a, ws) \<Rightarrow> Inr (r, a, copied # ws))
                   (fill_array arr arr_len tbl use_sg (k + 1) (\<not> over) (req_len + fe_length sgpnt) (act_len + len))
       else map_option (\<lambda>r. case r of Inl ws \<Rightarrow> Inl ([] # ws) | Inr (r, a, ws) \<Rightarrow> Inr (r, a, [] # ws))
              (fill_array arr arr_len tbl use_sg (k + 1) False (req_len + fe_length sgpnt) act_len))"
  by pat_completeness auto
termination
  by (relation "measure (\<lambda>(_, _, _, use_sg, k, _). use_sg - k)") auto

declare fill_array.simps [simp del]

text \<open>The command: \<open>request_buffer\<close> is NULL, a flat buffer when \<open>use_sg\<close> is 0, or the array.\<close>

record array_command =
  ac_bufflen :: nat
  ac_null :: bool
  ac_use_sg :: nat
  ac_table :: "fill_entry list"
  ac_resid :: int

definition shannon_fill_from_dev_buffer_2_6_23 ::
    "array_command \<Rightarrow> data_direction \<Rightarrow> u8 list \<Rightarrow> nat \<Rightarrow> (int \<times> int \<times> u8 list list) option" where
  "shannon_fill_from_dev_buffer_2_6_23 scp dir arr arr_len =
    (let fail = (\<lambda>ws. (DID_ERROR * 2 ^ 16, ac_resid scp, ws))
     in if ac_bufflen scp = 0 then Some (0, ac_resid scp, [])
        else if ac_null scp then Some (fail [])
        else if \<not> (dir = DMA_BIDIRECTIONAL \<or> dir = DMA_FROM_DEVICE) then Some (fail [])
        else if ac_use_sg scp = 0 then
          let req_len = ac_bufflen scp; act_len = (if req_len < arr_len then req_len else arr_len)
          in Some (0, lower_resid (ac_resid scp) req_len act_len, [take act_len arr])
        else map_option (\<lambda>r. case r of Inl ws \<Rightarrow> fail ws
                | Inr (req_len, act_len, ws) \<Rightarrow> (0, lower_resid (ac_resid scp) req_len act_len, ws))
              (fill_array arr arr_len (ac_table scp) (ac_use_sg scp) 0 True 0 0))"

section \<open>The two loops agree\<close>

lemma fill_array_list:
  assumes "use_sg \<le> length tbl"
  shows "fill_array arr n tbl use_sg k active r a = Some (fill_loop arr n (drop k (take use_sg tbl)) active r a)"
proof (induction "use_sg - k" arbitrary: k active r a)
  case 0
  then show ?case by (simp add: fill_array.simps [of _ _ _ _ k])
next
  case (Suc m)
  then have k: "k < use_sg" "k < length tbl" "m = use_sg - Suc k" using assms by auto
  have list: "drop k (take use_sg tbl) = tbl ! k # drop (Suc k) (take use_sg tbl)"
    using k by (metis Cons_nth_drop_Suc length_take min_less_iff_conj nth_take)
  note IH = Suc.hyps(1) [OF k(3)]
  show ?case
    unfolding list fill_array.simps [of _ _ _ _ k] using k by (simp add: Let_def IH)
qed

text \<open>For a table that has the entries it claims the array variant is the one of 2.6.24, and defined.\<close>

theorem fill_array_variant:
  assumes "ac_use_sg scp \<le> length (ac_table scp)"
  shows "shannon_fill_from_dev_buffer_2_6_23 scp dir arr n =
    Some (shannon_fill_from_dev_buffer_2_6_24
      \<lparr>request_bufflen = ac_bufflen scp,
       request_buf = (if ac_null scp then Null_Buffer else if ac_use_sg scp = 0 then Flat_Buffer else Sg_Table (take (ac_use_sg scp) (ac_table scp))),
       rc_resid = ac_resid scp\<rparr> dir arr n)"
  using assms
  by (auto simp: shannon_fill_from_dev_buffer_2_6_23_def shannon_fill_from_dev_buffer_2_6_24_def fill_array_list Let_def
      split: sum.splits prod.splits)

end
