(* ===== verification/Boot_Errno.thy ===== *)
theory Boot_Errno
  imports Prelude
begin

text \<open>
  The error numbers of booting (\<^verbatim>\<open>shannon_boot_errno.h\<close>): every stage of the recovery numbers its own errors from a base.
\<close>

section \<open>Bases and numbers\<close>

datatype boot_stage = Find_Last_Page_Stripe | Recover_Lpmt_Tail | Recover_Lpmt_Data_Async | Handle_Lpmt_Data_Tail | Handle_Lpmt_Data_Head
  | Handle_Lpmt | Handle_Pba_Table | Handle_Sb_Info | Handle_Ns_Info | Handle_Memblock_Info | Check_Finished | General

fun first_err :: "boot_stage \<Rightarrow> nat" where
  "first_err Find_Last_Page_Stripe = 0x0"
| "first_err Recover_Lpmt_Tail = 0x10"
| "first_err Recover_Lpmt_Data_Async = 0x20"
| "first_err Handle_Lpmt_Data_Tail = 0x30"
| "first_err Handle_Lpmt_Data_Head = 0x40"
| "first_err Handle_Lpmt = 0x50"
| "first_err Handle_Pba_Table = 0x60"
| "first_err Handle_Sb_Info = 0x70"
| "first_err Handle_Ns_Info = 0x80"
| "first_err Handle_Memblock_Info = 0x90"
| "first_err Check_Finished = 0xa0"
| "first_err General = 0x100"

definition boot_err :: "boot_stage \<Rightarrow> nat \<Rightarrow> nat" where
  "boot_err stage err = first_err stage + err"

section \<open>A number tells its stage\<close>

text \<open>The room a stage has before the next begins.\<close>

fun err_room :: "boot_stage \<Rightarrow> nat" where
  "err_room Check_Finished = 0x60"
| "err_room General = 0x1000"
| "err_room _ = 0x10"

lemma boot_err_inject:
  assumes "err < err_room stage" "err' < err_room stage'"
  shows "boot_err stage err = boot_err stage' err' \<longleftrightarrow> stage = stage' \<and> err = err'"
  using assms by (cases stage; cases stage') (auto simp: boot_err_def)

text \<open>A stage that numbers more errors runs into the next.\<close>

lemma boot_err_overflow: "boot_err Find_Last_Page_Stripe 0x10 = boot_err Recover_Lpmt_Tail 0"
  by (simp add: boot_err_def)

end
