(* ===== verification/Spec2Isabelle.thy ===== *)
theory Spec2Isabelle
  imports Prelude List_Head Gfp_Legacy Bio_Bounce Request_Convert IO_Machine Request_Queue Workqueue Waitqueue Err_Injection Pci
    Module_Init Block_Queue Scsi Memblock Cdev Device_Stats Sysfs    Locks Pm_Qos Kernel_Work Dma Timekeeping Seq_File Sched Legacy_Request Legacy_Queue Bit_Loop Layout Prefetch
    Workqueue_Destroy Message_Log Disk_Ops Module_Params Legacy_Stats File_Ops Scsi_Legacy Boot_Errno
begin

text \<open>
  \<^bold>\<open>The Shannon Direct-IO PCIe driver.\<close>

  The driver is a Linux block driver in two halves. The core (flash translation, namespaces, error handling, commands of
  the device) is shipped as object files; the sources under \<^verbatim>\<open>src/\<close> are the other half: the code that meets the kernel.
  They take bios, requests and SCSI commands from the block layer, convert them to scatter-gather tables cut at pages and
  logical blocks, hand them to the core as a \<open>shannon_bio\<close>, complete them when the core is done, and give the core everything
  it uses of the kernel (lists, wait queues, work queues, locks, atomic counters, bit arrays, memory, PCI configuration,
  sysfs, character devices). This development models that half and proves what its parts promise.

  \<^bold>\<open>How the code is modelled.\<close> A C function is a HOL function of the same name on explicit state. A kernel service or a
  function of the core is an argument (an answer, a list of answers or a function); what a theorem needs of it is a
  hypothesis, and the witness of the theorem gives it as a concrete function. A dereference of NULL, a failed
  \<open>SHN_BUG_ON\<close> or an access outside an array is the result \<open>None\<close>, so a theorem with a result \<open>Some\<close> also says that none of
  these happens. Unsigned types are words where they can wrap; sizes and indices that the callers bound are natural
  numbers. Memory obtained and given back, and calls into the kernel, are events in a list, so that theorems can
  count them. Loops are recursive functions with a measure; a loop that waits for others is a transition system or a
  function with fuel. Where the preprocessor selects between kernels, the theory says which configuration it models.

  \<^bold>\<open>Theories.\<close>

  \<^item> \<^verbatim>\<open>Prelude\<close>: machine types, error numbers, folds that may fail, rounding.

  \<^item> \<^verbatim>\<open>List_Head\<close> (\<^verbatim>\<open>shannon_list.h\<close>, iterators of \<^verbatim>\<open>shannon_file.c\<close>): the circular doubly linked list as stores to a heap of
    list heads. The operations refine those of an abstract list and leave disjoint rings alone; the locales
    \<open>intrusive_queue\<close> and \<open>intrusive_deque\<close> are the interface the work queue and the wait queue rely on.

  \<^item> \<^verbatim>\<open>Gfp_Legacy\<close> (\<^verbatim>\<open>shannon_gfp_legacy.h\<close>, allocation wrappers of \<^verbatim>\<open>shannon_kcore.c\<close>): translation of the flag values compiled
    into the core. The values the core uses become the intended ones, every result can reclaim, and the translation is
    idempotent.

  \<^item> \<^verbatim>\<open>Scatter\<close>, \<^verbatim>\<open>Bio_Convert\<close>, \<^verbatim>\<open>Bio_Mapping\<close>, \<^verbatim>\<open>Bio_Bounce\<close> (\<^verbatim>\<open>shannon_scatter.c\<close>, \<open>shannon_convert_bio\<close> and the bounce page functions
    of \<^verbatim>\<open>shannon_block.c\<close>): the table of a converted bio lists exactly its bytes, no entry crosses a page or a logical
    block, and the table is never too short; bounce pages are allocated completely or not at all, and copying moves exactly
    the data. The locale \<open>sg_writer\<close> is the interface of the table to the loops that fill it.

  \<^item> \<^verbatim>\<open>Request_Convert\<close> (\<open>shannon_convert_lreq\<close>, \<open>shannon_convert_scsi_scmd\<close>): the same for requests and SCSI commands.

  \<^item> \<^verbatim>\<open>Block_IO\<close>, \<^verbatim>\<open>IO_Lifecycle\<close>, \<^verbatim>\<open>IO_Machine\<close>, \<^verbatim>\<open>Request_Queue\<close> (\<open>shannon_make_request\<close>, its namespace variant, the request queue functions
    and completion in \<^verbatim>\<open>shannon_block.c\<close>): every path of the request functions gives back what it took and completes the bio
    once or hands it on; the transition system of submission, deferral and completion completes a bio exactly once along
    every run and is never stuck; a bounced read delivers the device's data.

  \<^item> \<^verbatim>\<open>Block_Queue\<close> (queue and disk set-up in \<^verbatim>\<open>shannon_block.c\<close>), \<^verbatim>\<open>Module_Init\<close> (\<^verbatim>\<open>shannon_module_init.c\<close>): creation and clean-up are all or
    nothing, in the right order, and a queue finds its device again.

  \<^item> \<^verbatim>\<open>Workqueue\<close> (\<^verbatim>\<open>shannon_workqueue.c\<close>), \<^verbatim>\<open>Waitqueue\<close> (\<^verbatim>\<open>shannon_waitqueue.c\<close>, \<^verbatim>\<open>shannon_waitqueue.h\<close>): the real-time work queue as a transition system
    of producers and the worker with its program counter (items run once, in order, and the worker empties the list in a bounded number of its own steps, so no wake-up is lost); waking waiters
    equals a reference on lists, and the wait loops return with the list clean. The wait loops have fuel; the theorem says
    for which number of rounds they return.

  \<^item> \<^verbatim>\<open>Kcore\<close> (\<^verbatim>\<open>shannon_kcore.c\<close>): bit arrays (locale \<open>bit_array\<close>), the bit search loop, byte order, atomic counters, error pointers, the
    rate limit.

  \<^item> \<^verbatim>\<open>Err_Injection\<close> (\<^verbatim>\<open>shannon_err_injection.c\<close>): the seven arrays of injected faults; the locales \<open>err_marker\<close> and \<open>err_grid\<close> hold the shared
    argument, interpreted for each array.

  \<^item> \<^verbatim>\<open>Pci\<close> (\<^verbatim>\<open>shannon_pci.c\<close>): configuration space programs in the state monad over the history of accesses, with any hardware
    answers.

  \<^item> \<^verbatim>\<open>Scsi\<close> (\<^verbatim>\<open>shannon_scsi.c\<close>), \<^verbatim>\<open>Memblock\<close> (\<^verbatim>\<open>shannon_memblock.h\<close>, \<^verbatim>\<open>shannon_prefetch.h\<close>), \<^verbatim>\<open>Cdev\<close> (\<^verbatim>\<open>shannon_cdev.c\<close>), \<^verbatim>\<open>Device_Stats\<close> (\<^verbatim>\<open>shannon_device.c\<close>),
    \<^verbatim>\<open>Sysfs\<close> (\<^verbatim>\<open>shannon_sysfs.c\<close>): filling command buffers and the fate of commands; striping as a bijection and the exclusion of the
    counter lock under every interleaving; transfers of the debug device that are exact on a plain buffer and never leave it; accounting that is exact over all CPUs;
    attribute tables that agree with their declarations and registration that can be undone.

  \<^item> \<^verbatim>\<open>Locks\<close> (lock wrappers of \<^verbatim>\<open>shannon_kcore.c\<close>): spin locks, reader-writer locks and mutexes in all variants, over kernel calls given as a
    record of functions; if the calls of the kernel undo each other as documented, sections nested as the interrupt state allows, through matching wrappers leave the
    processor as they found it.

  \<^item> \<^verbatim>\<open>Kernel_Work\<close> (wrappers of \<^verbatim>\<open>shannon_workqueue.c\<close> for the kernel's work queues): over kernel calls given as a record of
    functions, exactly what the raw cancellation of delayed work does. \<^verbatim>\<open>Pm_Qos\<close> (latency requirement of \<^verbatim>\<open>shannon_kcore.c\<close>): the five variants for kernels from 2.6.31 on implement the locale \<open>latency_requirement\<close>,
    an optional value.

  \<^item> \<^verbatim>\<open>Dma\<close> (\<^verbatim>\<open>shannon_dma.c\<close>): mapping an entry retries for ever; it returns exactly if some attempt succeeds. \<^verbatim>\<open>Seq_File\<close>
    (\<^verbatim>\<open>shannon_file.c\<close>): printing never leaves the buffer. \<^verbatim>\<open>Timekeeping\<close> (\<^verbatim>\<open>shannon_time.c\<close>): timers, and deadlines that
    survive the wrap of the counter. \<^verbatim>\<open>Sched\<close> (\<^verbatim>\<open>shannon_sched.c\<close>): scheduling class, thread names, affinity.

  \<^item> \<^verbatim>\<open>Legacy_Request\<close>, \<^verbatim>\<open>Legacy_Queue\<close> (branches of \<^verbatim>\<open>shannon_block.c\<close> for old kernels): completion of a chain of bios, the nested
    conversion loops, which agree with the single loop, queue creation and discard limits.

  \<^item> \<^verbatim>\<open>Layout\<close> (\<^verbatim>\<open>struct shannon_dev\<close> in \<^verbatim>\<open>shannon_kcore.h\<close>): the offsets of the structure shared with the precompiled core. \<^verbatim>\<open>Bit_Loop\<close>
    (\<open>shannon_for_each_set_bit_le\<close>): the loop over set bits visits each once. \<^verbatim>\<open>Prefetch\<close> (\<^verbatim>\<open>shannon_prefetch.h\<close>, user counts of
    \<^verbatim>\<open>shannon_memblock.h\<close>): the two flags of the engine do not disturb each other.

  \<^item> \<^verbatim>\<open>Workqueue_Destroy\<close> (\<open>shannon_flush_rt_workqueue\<close>, \<open>shannon_destroy_rt_workqueue\<close>): the thread that destroys the queue as a second program beside
    producers and worker; the memory is freed only when the worker has exited and everything accepted has run, the destruction can
    complete from every state without a stop request, and there is a run in which it hangs.

  \<^item> \<^verbatim>\<open>Message_Log\<close> (message macros of \<^verbatim>\<open>shannon_kcore.h\<close>, printing functions of \<^verbatim>\<open>shannon_kcore.c\<close>): what a sequence of messages of all kinds leaves in the log, against a table of the kinds
    (label, budget) that stands beside the code.

  \<^item> \<^verbatim>\<open>Disk_Ops\<close>, \<^verbatim>\<open>Module_Params\<close> (\<^verbatim>\<open>shannon_module_init.c\<close>): the operation tables, over which a bio reaches the object its disk was created for; the
    module parameters, which of them can change while the module runs, and what a change does to queues, devices and requests that were
    set up before.

  \<^item> \<^verbatim>\<open>Legacy_Stats\<close> (\<^verbatim>\<open>shannon_device.c\<close>), \<^verbatim>\<open>Scsi_Legacy\<close> (\<^verbatim>\<open>shannon_scsi.c\<close>): the statistics and the filling of command buffers on the other kernels agree with
    those of the current ones. \<^verbatim>\<open>File_Ops\<close> (\<^verbatim>\<open>shannon_file.c\<close>): the tables of the debug files (locale \<open>member\<close>), and the position of the list
    iterators.
    \<^verbatim>\<open>Boot_Errno\<close> (\<^verbatim>\<open>shannon_boot_errno.h\<close>): error numbers tell their stage.

  \<^bold>\<open>Where the code does something else than it means to\<close>, a lemma states what it does: a namespace request never gives bounce pages
  back on its error path, a stop request between the test and the sleep of the worker is lost and the destruction of the queue then
  hangs, a change of the scheduler parameter makes the clean-up of a queue free the wrong object, a flush may return before the
  last item ran, an I/O of more than 4.29 seconds is recorded modulo 2 to the 32 nanoseconds, the debug device checks
  another block than it writes, a failed link of a namespace removes the directory of its disk, and others; the text
  before each lemma says so.

  \<^bold>\<open>Not modelled.\<close> The precompiled core (\<^verbatim>\<open>*.o_shipped\<close>), of which only the entry points appear, as arguments. Functions that are a
  single call of the kernel with the same arguments and no state of the driver. Branches for kernels other than the ones named in
  each theory, where they differ only in the kernel function they call. Scripts, tests, documentation and the tooling under
  \<^verbatim>\<open>.opencode\<close>.
\<close>

end
